(* ===== verification/Prelude.thy ===== *)
theory Prelude
  imports Main "HOL-Library.Word"
begin

text \<open>
  Shared vocabulary of the development: the machine types of the C++ code, the
  undefined behaviours a C++ expression can run into, the result type of an
  operation that may run into one, writes into a fixed-size array, and the
  collections of rewrite rules the component theories add to.
\<close>

section \<open>Machine types and undefined behaviour\<close>

text \<open>
  \<open>unsigned int\<close> and \<open>int\<close> are both 32 bits wide on the targets of the build
  files; \<open>sint\<close> reads the latter. A memory region is the list of its bytes.
\<close>

type_synonym u32 = "32 word"
type_synonym s32 = "32 word"
type_synonym bytes = "char list"

text \<open>What the C++ standard leaves undefined and the modelled code can reach.\<close>

datatype ub =
    NullDeref
  | OutOfBounds
  | BadFormat
  | UseAfterFree

type_synonym 'a res = "ub + 'a"

fun bind_res :: "'a res \<Rightarrow> ('a \<Rightarrow> 'b res) \<Rightarrow> 'b res" where
  "bind_res (Inl e) f = Inl e"
| "bind_res (Inr x) f = f x"

section \<open>Collections\<close>

named_theorems mem_simps "reads and writes of byte arrays"
named_theorems step_defs "definitions of operations, unfolded by the component proofs"

section \<open>Results\<close>

lemma bind_res_Inr_iff [simp]:
  "bind_res m f = Inr y \<longleftrightarrow> (\<exists>x. m = Inr x \<and> f x = Inr y)"
  by (cases m) auto

lemma bind_res_Inl_iff:
  "bind_res m f = Inl e \<longleftrightarrow> m = Inl e \<or> (\<exists>x. m = Inr x \<and> f x = Inl e)"
  by (cases m) auto

lemma bind_res_assoc: "bind_res (bind_res m f) g = bind_res m (\<lambda>x. bind_res (f x) g)"
  by (cases m) auto

section \<open>Writes into an array\<close>

text \<open>
  \<open>store_at off bs mem\<close> is the array after \<open>memcpy(mem + off, bs, |bs|)\<close> (or the
  \<open>memset\<close> of a block); it keeps the size when the block lies inside the array.
\<close>

definition store_at :: "nat \<Rightarrow> 'a list \<Rightarrow> 'a list \<Rightarrow> 'a list" where
  "store_at off bs mem = take off mem @ bs @ drop (off + length bs) mem"

lemma length_store_at [mem_simps, simp]:
  "off + length bs \<le> length mem \<Longrightarrow> length (store_at off bs mem) = length mem"
  by (simp add: store_at_def)

lemma store_at_block [mem_simps]:
  "off + length bs \<le> length mem \<Longrightarrow>
   take (length bs) (drop off (store_at off bs mem)) = bs"
  by (simp add: store_at_def)

lemma take_store_at_before [mem_simps]:
  "n \<le> off \<Longrightarrow> off \<le> length mem \<Longrightarrow> take n (store_at off bs mem) = take n mem"
  by (simp add: store_at_def min_def)

lemma drop_store_at_after [mem_simps]:
  assumes "off + length bs \<le> n" and "n \<le> length mem"
  shows "drop n (store_at off bs mem) = drop n mem"
proof -
  from assms have "off \<le> length mem" by simp
  with assms show ?thesis by (simp add: store_at_def min_absorb2)
qed

lemma drop_store_at_here:
  "off \<le> length mem \<Longrightarrow>
   drop off (store_at off bs mem) = bs @ drop (off + length bs) mem"
  by (simp add: store_at_def)

lemma store_at_0: "store_at 0 bs mem = bs @ drop (length bs) mem"
  by (simp add: store_at_def)

section \<open>Lists\<close>

lemma takeWhile_stop: "x \<notin> set xs \<Longrightarrow> takeWhile (\<lambda>y. y \<noteq> x) (xs @ x # ys) = xs"
  by (induction xs) auto

lemma takeWhile_all: "x \<notin> set xs \<Longrightarrow> takeWhile (\<lambda>y. y \<noteq> x) xs = xs"
  by (induction xs) auto

lemma takeWhile_append_in:
  "x \<in> set xs \<Longrightarrow> takeWhile (\<lambda>y. y \<noteq> x) (xs @ ys) = takeWhile (\<lambda>y. y \<noteq> x) xs"
  by (induction xs) auto

lemma length_takeWhile_in: "x \<in> set xs \<Longrightarrow> length (takeWhile (\<lambda>y. y \<noteq> x) xs) < length xs"
  by (induction xs) auto

lemma not_in_takeWhile: "x \<notin> set (takeWhile (\<lambda>y. y \<noteq> x) xs)"
  by (auto dest: set_takeWhileD)

section \<open>Splitting at a character\<close>

fun split_char :: "char \<Rightarrow> string \<Rightarrow> string list" where
  "split_char c [] = [[]]"
| "split_char c (x # xs) =
     (if x = c then [] # split_char c xs
      else (case split_char c xs of [] \<Rightarrow> [[x]] | t # ts \<Rightarrow> (x # t) # ts))"

lemma split_char_ne [simp]: "split_char c s \<noteq> []"
  by (induction c s rule: split_char.induct) (auto split: list.splits)

lemma split_char_no_sep: "c \<notin> set t \<Longrightarrow> split_char c t = [t]"
  by (induction t) auto

lemma split_char_sep: "c \<notin> set t \<Longrightarrow> split_char c (t @ c # s) = t # split_char c s"
  by (induction t) auto

section \<open>Work that ends\<close>

text \<open>
  The contract of a component whose own work lowers a weight: every run of it is bounded,
  none is endless, and from every state some run comes to an end.
\<close>

locale weighted =
  fixes work :: "'s \<Rightarrow> 's \<Rightarrow> bool" and weight :: "'s \<Rightarrow> nat"
  assumes lowers: "work s s' \<Longrightarrow> weight s' < weight s"
begin

lemma steps_bounded: "(work ^^ n) s s' \<Longrightarrow> n + weight s' \<le> weight s"
proof (induction n arbitrary: s')
  case (Suc n)
  then obtain q where "(work ^^ n) s q" "work q s'" by auto
  with Suc.IH [of q] lowers [of q s'] show ?case by simp
qed simp

lemma reaches_end: "\<exists>s'. work\<^sup>*\<^sup>* s s' \<and> (\<forall>q. \<not> work s' q)"
proof (induction "weight s" arbitrary: s rule: less_induct)
  case less
  show ?case
  proof (cases "\<exists>q. work s q")
    case True
    then obtain q where q: "work s q" by blast
    from less [OF lowers [OF q]] obtain s' where "work\<^sup>*\<^sup>* q s'" "\<forall>r. \<not> work s' r" by blast
    with q show ?thesis by (blast intro: converse_rtranclp_into_rtranclp)
  qed blast
qed

lemma no_endless_run: "\<not> (\<forall>i. work (f i) (f (Suc i)))"
proof
  assume run: "\<forall>i. work (f i) (f (Suc i))"
  have "(work ^^ n) (f 0) (f n)" for n by (induction n) (use run in auto)
  from steps_bounded [OF this [of "Suc (weight (f 0))"]] show False by simp
qed

end

end
