(* ===== verification/CLib.thy ===== *)
theory CLib
  imports Prelude
begin

text \<open>
  The part of the C and C++ standard library the program calls on strings: C strings
  inside byte arrays, \<open>snprintf\<close>/\<open>vsnprintf\<close> with the conversions \<open>%s\<close>, \<open>%d\<close> and
  \<open>%%\<close>, \<open>std::to_string\<close> and \<open>atoi\<close>.
\<close>

section \<open>C strings\<close>

definition NUL :: char where
  "NUL = CHR 0x00"

text \<open>The characters before the first NUL, as a \<open>char*\<close> reads them.\<close>

definition cstr :: "bytes \<Rightarrow> string" where
  "cstr m = takeWhile (\<lambda>c. c \<noteq> NUL) m"

text \<open>
  \<open>strlen\<close> on a pointer into a region whose remaining bytes are \<open>m\<close>: without a NUL in
  the region the read runs out of bounds.
\<close>

definition strlen :: "bytes \<Rightarrow> nat res" where
  "strlen m = (if NUL \<in> set m then Inr (length (cstr m)) else Inl OutOfBounds)"

definition read_cstr :: "bytes \<Rightarrow> string res" where
  "read_cstr m = (if NUL \<in> set m then Inr (cstr m) else Inl OutOfBounds)"

lemma NUL_notin_cstr [simp]: "NUL \<notin> set (cstr m)"
  by (simp add: cstr_def not_in_takeWhile)

lemma cstr_id: "NUL \<notin> set s \<Longrightarrow> cstr s = s"
  by (simp add: cstr_def takeWhile_all)

lemma cstr_idem [simp]: "cstr (cstr s) = cstr s"
  by (rule cstr_id) (rule NUL_notin_cstr)

lemma cstr_append_NUL: "NUL \<notin> set s \<Longrightarrow> cstr (s @ NUL # r) = s"
  by (simp add: cstr_def takeWhile_stop)

lemma cstr_append_in: "NUL \<in> set s \<Longrightarrow> cstr (s @ r) = cstr s"
  by (simp add: cstr_def takeWhile_append_in)

lemma length_cstr_le: "length (cstr m) \<le> length m"
  by (simp add: cstr_def length_takeWhile_le)

lemma length_cstr_less: "NUL \<in> set m \<Longrightarrow> length (cstr m) < length m"
  by (simp add: cstr_def length_takeWhile_in)

lemma cstr_append_zeros:
  "NUL \<notin> set s \<Longrightarrow> 0 < n \<Longrightarrow> cstr (s @ replicate n NUL) = s"
  by (cases n) (simp_all add: cstr_append_NUL)

lemma take_cstr: "take (length (cstr m)) m = cstr m"
  unfolding cstr_def by (rule takeWhile_eq_take [symmetric])

section \<open>Formatted output\<close>

datatype fmt_arg = ArgS string | ArgD int

text \<open>Decimal digits and \<open>std::to_string\<close> of a signed integer.\<close>

definition digit_char :: "nat \<Rightarrow> char" where
  "digit_char d = char_of (48 + d)"

fun digits :: "nat \<Rightarrow> string" where
  "digits n = (if n < 10 then [digit_char n] else digits (n div 10) @ [digit_char (n mod 10)])"

declare digits.simps [simp del]

definition to_string :: "int \<Rightarrow> string" where
  "to_string i = (if i < 0 then CHR ''-'' # digits (nat (- i)) else digits (nat i))"

text \<open>
  The expansion of a format. A conversion without a matching argument, or a lone
  percent sign at the end, has no defined meaning (None).
\<close>

fun cformat :: "string \<Rightarrow> fmt_arg list \<Rightarrow> string option" where
  "cformat [] args = Some []"
| "cformat (c # cs) args =
     (if c \<noteq> CHR ''%'' then map_option ((#) c) (cformat cs args)
      else (case cs of
              [] \<Rightarrow> None
            | d # ds \<Rightarrow>
                if d = CHR ''%'' then map_option ((#) CHR ''%'') (cformat ds args)
                else if d = CHR ''s'' then
                  (case args of ArgS s # rest \<Rightarrow> map_option ((@) s) (cformat ds rest) | _ \<Rightarrow> None)
                else if d = CHR ''d'' then
                  (case args of ArgD i # rest \<Rightarrow> map_option ((@) (to_string i)) (cformat ds rest)
                   | _ \<Rightarrow> None)
                else None))"

text \<open>
  \<open>snprintf(buf, n, fmt, args)\<close> with \<open>0 < n\<close> stores at most \<open>n - 1\<close> characters of the
  expansion and then a NUL: the bytes it writes.
\<close>

definition snprintf :: "nat \<Rightarrow> string \<Rightarrow> fmt_arg list \<Rightarrow> bytes res" where
  "snprintf n fmt args =
     (case cformat fmt args of
        None \<Rightarrow> Inl BadFormat
      | Some s \<Rightarrow> Inr (take (n - 1) s @ [NUL]))"

definition percent_free :: "string \<Rightarrow> bool" where
  "percent_free s \<longleftrightarrow> CHR ''%'' \<notin> set s"

lemma cformat_plain: "percent_free s \<Longrightarrow> cformat s args = Some s"
  unfolding percent_free_def by (induction s) auto

lemma cformat_plain_append:
  "percent_free p \<Longrightarrow> cformat (p @ f) args = map_option ((@) p) (cformat f args)"
  unfolding percent_free_def
  by (induction p) (cases "cformat f args"; auto)+

text \<open>Without arguments the expansion only ever collapses \<open>%%\<close>: it never grows.\<close>

lemma length_cformat_noargs: "cformat s [] = Some t \<Longrightarrow> length t \<le> length s"
proof (induction s arbitrary: t rule: length_induct)
  case (1 s)
  show ?case
  proof (cases s)
    case Nil
    with "1.prems" show ?thesis by simp
  next
    case (Cons c cs)
    show ?thesis
    proof (cases "c = CHR ''%''")
      case False
      with "1.prems" Cons obtain t' where "cformat cs [] = Some t'" "t = c # t'" by auto
      with "1.IH" Cons show ?thesis by force
    next
      case True
      with "1.prems" Cons obtain ds t' where "cs = CHR ''%'' # ds"
        "cformat ds [] = Some t'" "t = CHR ''%'' # t'"
        by (auto split: list.splits if_splits)
      with "1.IH" Cons show ?thesis by force
    qed
  qed
qed

lemma set_cformat_noargs: "cformat s [] = Some t \<Longrightarrow> set t \<subseteq> set s"
proof (induction s arbitrary: t rule: length_induct)
  case (1 s)
  show ?case
  proof (cases s)
    case Nil
    with "1.prems" show ?thesis by simp
  next
    case (Cons c cs)
    show ?thesis
    proof (cases "c = CHR ''%''")
      case False
      with "1.prems" Cons obtain t' where "cformat cs [] = Some t'" "t = c # t'" by auto
      with "1.IH" Cons show ?thesis by auto
    next
      case True
      with "1.prems" Cons obtain ds t' where "cs = CHR ''%'' # ds"
        "cformat ds [] = Some t'" "t = CHR ''%'' # t'"
        by (auto split: list.splits if_splits)
      with "1.IH" Cons True show ?thesis by force
    qed
  qed
qed

section \<open>Decimal numbers: to_string and atoi\<close>

definition is_digit :: "char \<Rightarrow> bool" where
  "is_digit c \<longleftrightarrow> 48 \<le> (of_char c :: nat) \<and> (of_char c :: nat) \<le> 57"

definition is_space :: "char \<Rightarrow> bool" where
  "is_space c \<longleftrightarrow> (of_char c :: nat) \<in> {9, 10, 11, 12, 13, 32}"

fun digits_value :: "int \<Rightarrow> string \<Rightarrow> int" where
  "digits_value a [] = a"
| "digits_value a (c # cs) =
     (if is_digit c then digits_value (10 * a + (int (of_char c) - 48)) cs else a)"

text \<open>
  \<open>atoi\<close> as the C library computes it: \<open>(int) strtol(s, NULL, 10)\<close>, with \<open>strtol\<close>
  saturating at the bounds of a 64-bit \<open>long\<close>.
\<close>

definition strtol :: "string \<Rightarrow> int" where
  "strtol s =
     (let t = dropWhile is_space s;
          v = (case t of
                 [] \<Rightarrow> 0
               | c # cs \<Rightarrow>
                   if c = CHR ''-'' then - digits_value 0 cs
                   else if c = CHR ''+'' then digits_value 0 cs
                   else digits_value 0 t)
      in max (- (2 ^ 63)) (min (2 ^ 63 - 1) v))"

definition atoi :: "string \<Rightarrow> s32" where
  "atoi s = word_of_int (strtol (cstr s))"

lemma of_char_digit_char: "d < 10 \<Longrightarrow> (of_char (digit_char d) :: nat) = 48 + d"
  by (simp add: digit_char_def)

lemma is_digit_digit_char: "d < 10 \<Longrightarrow> is_digit (digit_char d)"
  by (simp add: is_digit_def of_char_digit_char)

lemma digits_value_snoc:
  "\<forall>c \<in> set xs. is_digit c \<Longrightarrow> d < 10 \<Longrightarrow>
   digits_value a (xs @ [digit_char d]) = 10 * digits_value a xs + int d"
proof (induction xs arbitrary: a)
  case Nil
  have "int (of_char (digit_char d)) = 48 + int d"
    using of_char_digit_char [OF Nil.prems(2)] by (metis of_nat_add of_nat_numeral of_nat_of_char)
  with Nil show ?case by (simp add: is_digit_digit_char)
next
  case (Cons c cs)
  then show ?case by simp
qed

lemma digits_are_digits: "\<forall>c \<in> set (digits n). is_digit c"
proof (induction n rule: digits.induct)
  case (1 n)
  then show ?case by (subst digits.simps) (auto simp: is_digit_digit_char)
qed

lemma digits_value_digits: "digits_value 0 (digits n) = int n"
proof (induction n rule: digits.induct)
  case (1 n)
  show ?case
  proof (cases "n < 10")
    case True
    then show ?thesis
      using digits_value_snoc [of "[]" n 0] by (simp add: digits.simps [of n])
  next
    case False
    then have "digits_value 0 (digits n) = 10 * int (n div 10) + int (n mod 10)"
      using 1 by (simp add: digits.simps [of n] digits_value_snoc digits_are_digits)
    then show ?thesis by (simp add: zdiv_int zmod_int)
  qed
qed

lemma digits_nonempty [simp]: "digits n \<noteq> []"
  by (subst digits.simps) simp

lemma digit_not_special:
  assumes "is_digit c"
  shows "\<not> is_space c" and "c \<noteq> CHR ''-''" and "c \<noteq> CHR ''+''" and "c \<noteq> NUL"
    and "c \<noteq> CHR ''%''" and "c \<noteq> CHR '' ''"
  using assms by (auto simp: is_digit_def is_space_def NUL_def)

lemma digits_Cons: obtains c cs where "digits n = c # cs" and "is_digit c"
  using digits_nonempty digits_are_digits
  by (metis list.exhaust list.set_intros(1))

lemma set_to_string:
  "c \<in> set (to_string i) \<Longrightarrow> is_digit c \<or> c = CHR ''-''"
  using digits_are_digits by (auto simp: to_string_def split: if_splits)

lemma to_string_clean:
  "NUL \<notin> set (to_string i)" "percent_free (to_string i)" "CHR '' '' \<notin> set (to_string i)"
  using set_to_string digit_not_special(4,5,6) unfolding percent_free_def NUL_def by force+

lemma strtol_to_string:
  assumes "- (2 ^ 63) \<le> i" and "i < 2 ^ 63"
  shows "strtol (to_string i) = i"
proof (cases "i < 0")
  case True
  have "\<not> is_space (CHR ''-'')" by (simp add: is_space_def)
  with True assms show ?thesis
    by (simp add: strtol_def to_string_def digits_value_digits Let_def)
next
  case False
  obtain c cs where d: "digits (nat i) = c # cs" "is_digit c" by (rule digits_Cons)
  have "strtol (digits (nat i)) = i"
    using d digit_not_special [OF d(2)] digits_value_digits [of "nat i"] False assms
    by (simp add: strtol_def Let_def)
  with False show ?thesis by (simp add: to_string_def)
qed

text \<open>Printing an \<open>int\<close> and reading it back gives the same \<open>int\<close>.\<close>

lemma atoi_to_string: "atoi (to_string (sint (w :: s32))) = w"
proof -
  have "- (2 ^ 31) \<le> sint w" "sint w < 2 ^ 31"
    using sint_ge [of w] sint_lt [of w] by simp_all
  then have "strtol (to_string (sint w)) = sint w"
    by (intro strtol_to_string) simp_all
  then show ?thesis
    by (simp add: atoi_def cstr_id to_string_clean)
qed

lemma inj_to_string: "to_string (sint (v :: s32)) = to_string (sint w) \<Longrightarrow> v = w"
  by (metis atoi_to_string)

end
