(* ===== verification/RedisPool.thy ===== *)
theory RedisPool
  imports CLib
begin

text \<open>
  The Redis client of \<^verbatim>\<open>smer/Redis\<close>: two pools of contexts (plain and cluster), the
  back-off after a failed connection, and the decoding of replies. hiredis, the cluster
  client and the server are a parameter over the state \<open>'rd\<close> of the outside world; a
  command is sent as its text.
\<close>

section \<open>The outside\<close>

datatype element = EInteger int | EStr string | ENull

datatype reply =
    RInteger int | RString string | RStatus string | RNil | RError string
  | RArray "element list" | ROther

datatype 'x new_ctx = CtxNull | CtxErr 'x | CtxOk 'x

record ('x, 'rd) redis =
  time_now :: "'rd \<Rightarrow> int"
  ctx_connect :: "'rd \<Rightarrow> 'x new_ctx \<times> 'rd"
  redis_command :: "'x \<Rightarrow> string \<Rightarrow> 'rd \<Rightarrow> reply option \<times> 'rd"

section \<open>The client object\<close>

definition REDIS_CON_NORMAL_TYPE :: int where
  "REDIS_CON_NORMAL_TYPE = 0"

definition REDIS_CON_CLUSTER_TYPE :: int where
  "REDIS_CON_CLUSTER_TYPE = 1"

definition m_maxReconnectInterval :: int where
  "m_maxReconnectInterval = 3"

record 'x KGRedisClient =
  conType :: int
  m_clients :: "'x list"
  m_clusterClients :: "'x list"
  m_beginInvalidTime :: int
  cmdBuf :: string

text \<open>
  The default constructor leaves \<open>m_beginInvalidTime\<close> uninitialised (\<open>t\<close>); the other one
  leaves the connection type (\<open>ty\<close>); both leave the command buffer (\<open>g\<close>).
\<close>

definition KGRedisClient_default :: "int \<Rightarrow> string \<Rightarrow> 'x KGRedisClient" where
  "KGRedisClient_default t g =
     \<lparr>conType = REDIS_CON_CLUSTER_TYPE, m_clients = [], m_clusterClients = [],
      m_beginInvalidTime = t, cmdBuf = g\<rparr>"

definition KGRedisClient_args :: "int \<Rightarrow> string \<Rightarrow> 'x KGRedisClient" where
  "KGRedisClient_args ty g =
     \<lparr>conType = ty, m_clients = [], m_clusterClients = [], m_beginInvalidTime = 0, cmdBuf = g\<rparr>"

definition changeConType :: "int \<Rightarrow> 'x KGRedisClient \<Rightarrow> 'x KGRedisClient" where
  "changeConType ty k = k\<lparr>conType := ty\<rparr>"

definition getConType :: "'x KGRedisClient \<Rightarrow> int" where
  "getConType k = conType k"

text \<open>The destructor frees the plain contexts; those of the cluster pool stay.\<close>

definition KGRedisClient_dtor :: "'x KGRedisClient \<Rightarrow> 'x list \<times> 'x KGRedisClient" where
  "KGRedisClient_dtor k = (m_clients k, k\<lparr>m_clients := []\<rparr>)"

text \<open>A fresh plain context is authenticated with an \<open>AUTH\<close> command.\<close>

definition CreateContext ::
  "('x, 'rd) redis \<Rightarrow> string \<Rightarrow> 'x KGRedisClient \<Rightarrow> 'rd \<Rightarrow> 'x option \<times> 'x KGRedisClient \<times> 'rd" where
  "CreateContext api password k rd =
     (case m_clients k of
        ctx # rest \<Rightarrow> (Some ctx, k\<lparr>m_clients := rest\<rparr>, rd)
      | [] \<Rightarrow>
          if time_now api rd < m_beginInvalidTime k + m_maxReconnectInterval then (None, k, rd)
          else (case ctx_connect api rd of
                  (CtxOk ctx, rd1) \<Rightarrow>
                    (Some ctx, k, snd (redis_command api ctx (''AUTH '' @ password) rd1))
                | (_, rd1) \<Rightarrow> (None, k\<lparr>m_beginInvalidTime := time_now api rd1\<rparr>, rd1)))"

text \<open>The error report of the cluster variant reads \<open>ctx->errstr\<close>, also of a null context.\<close>

definition CreateClusterContext ::
  "('x, 'rd) redis \<Rightarrow> 'x KGRedisClient \<Rightarrow> 'rd \<Rightarrow> ('x option \<times> 'x KGRedisClient \<times> 'rd) res" where
  "CreateClusterContext api k rd =
     (case m_clusterClients k of
        ctx # rest \<Rightarrow> Inr (Some ctx, k\<lparr>m_clusterClients := rest\<rparr>, rd)
      | [] \<Rightarrow>
          if time_now api rd < m_beginInvalidTime k + m_maxReconnectInterval then Inr (None, k, rd)
          else (case ctx_connect api rd of
                  (CtxOk ctx, rd1) \<Rightarrow> Inr (Some ctx, k, rd1)
                | (CtxErr _, rd1) \<Rightarrow> Inr (None, k\<lparr>m_beginInvalidTime := time_now api rd1\<rparr>, rd1)
                | (CtxNull, rd1) \<Rightarrow> Inl NullDeref))"

definition ReleaseContext :: "'x option \<Rightarrow> bool \<Rightarrow> 'x KGRedisClient \<Rightarrow> 'x KGRedisClient" where
  "ReleaseContext ctx active k =
     (case ctx of None \<Rightarrow> k
      | Some c \<Rightarrow> if \<not> active then k else k\<lparr>m_clients := m_clients k @ [c]\<rparr>)"

definition ReleaseClusterContext :: "'x option \<Rightarrow> bool \<Rightarrow> 'x KGRedisClient \<Rightarrow> 'x KGRedisClient" where
  "ReleaseClusterContext ctx active k =
     (case ctx of None \<Rightarrow> k
      | Some c \<Rightarrow> if \<not> active then k else k\<lparr>m_clusterClients := m_clusterClients k @ [c]\<rparr>)"

section \<open>Replies\<close>

text \<open>A string made from the null pointer of an element without text is undefined.\<close>

fun decode_elements :: "element list \<Rightarrow> string list res" where
  "decode_elements [] = Inr []"
| "decode_elements (EInteger i # es) = bind_res (decode_elements es) (\<lambda>r. Inr (to_string i # r))"
| "decode_elements (EStr s # es) = bind_res (decode_elements es) (\<lambda>r. Inr (cstr s # r))"
| "decode_elements (ENull # es) = Inl NullDeref"

fun decode_reply :: "reply \<Rightarrow> (bool \<times> string list) res" where
  "decode_reply (RInteger i) = Inr (True, [to_string i])"
| "decode_reply (RString s) = Inr (True, [s])"
| "decode_reply (RStatus s) = Inr (True, [s])"
| "decode_reply RNil = Inr (True, [[]])"
| "decode_reply (RError s) = Inr (True, [s])"
| "decode_reply (RArray es) = bind_res (decode_elements es) (\<lambda>r. Inr (True, r))"
| "decode_reply ROther = Inr (False, [''Undefine Reply Type''])"

section \<open>Commands\<close>

text \<open>
  The outcome of a command: its boolean, the caller's \<open>response\<close> vector, the client
  and the world.
\<close>

type_synonym ('x, 'rd) redis_result = "(bool \<times> string list \<times> 'x KGRedisClient \<times> 'rd) res"

definition finish_cmd ::
  "reply option \<Rightarrow> string list \<Rightarrow> 'x KGRedisClient \<Rightarrow> 'rd \<Rightarrow> ('x, 'rd) redis_result" where
  "finish_cmd rep response k rd =
     (case rep of
        None \<Rightarrow> Inr (False, response, k, rd)
      | Some r \<Rightarrow> bind_res (decode_reply r) (\<lambda>(b, out). Inr (b, response @ out, k, rd)))"

text \<open>
  \<open>ExecuteCmd_spop\<close> statement by statement: \<open>memset\<close> clears the member \<open>cmdBuf\<close>, \<open>vsnprintf\<close>
  writes the command over its front, and the command is sent from there. Every thread shares
  the buffer and no lock guards it. \<open>ExecuteCmd_format\<close> is the two writes with no other thread
  in between; what threads do to each other's writes is in \<^verbatim>\<open>ServerSystem\<close>.
\<close>

definition ExecuteCmd_clear :: "'x KGRedisClient \<Rightarrow> 'x KGRedisClient" where
  "ExecuteCmd_clear k = k\<lparr>cmdBuf := replicate 100 NUL\<rparr>"

definition ExecuteCmd_write :: "string \<Rightarrow> fmt_arg list \<Rightarrow> 'x KGRedisClient \<Rightarrow> 'x KGRedisClient res" where
  "ExecuteCmd_write fmt args k =
     bind_res (snprintf 100 fmt args) (\<lambda>buf. Inr (k\<lparr>cmdBuf := store_at 0 buf (cmdBuf k)\<rparr>))"

definition ExecuteCmd_format :: "string \<Rightarrow> fmt_arg list \<Rightarrow> 'x KGRedisClient \<Rightarrow> 'x KGRedisClient res" where
  "ExecuteCmd_format fmt args k = ExecuteCmd_write fmt args (ExecuteCmd_clear k)"

definition ExecuteCmd_send ::
  "('x, 'rd) redis \<Rightarrow> string \<Rightarrow> string list \<Rightarrow> 'x KGRedisClient \<Rightarrow> 'rd \<Rightarrow> ('x, 'rd) redis_result" where
  "ExecuteCmd_send api password response k rd =
     (if conType k = REDIS_CON_NORMAL_TYPE then
        (case CreateContext api password k rd of
           (None, k1, rd1) \<Rightarrow> Inr (False, response, k1, rd1)
         | (Some ctx, k1, rd1) \<Rightarrow>
             (let (rep, rd2) = redis_command api ctx (cstr (cmdBuf k1)) rd1
              in finish_cmd rep response (ReleaseContext (Some ctx) (rep \<noteq> None) k1) rd2))
      else if conType k = REDIS_CON_CLUSTER_TYPE then
        bind_res (CreateClusterContext api k rd)
          (\<lambda>(c, k1, rd1). case c of
             None \<Rightarrow> Inr (False, response, k1, rd1)
           | Some ctx \<Rightarrow>
               (let (rep, rd2) = redis_command api ctx (cstr (cmdBuf k1)) rd1
                in finish_cmd rep response (ReleaseClusterContext (Some ctx) (rep \<noteq> None) k1) rd2))
      else Inr (False, response, k, rd))"

definition ExecuteCmd_spop ::
  "('x, 'rd) redis \<Rightarrow> string \<Rightarrow> string \<Rightarrow> fmt_arg list \<Rightarrow> string list \<Rightarrow> 'x KGRedisClient \<Rightarrow> 'rd \<Rightarrow>
   ('x, 'rd) redis_result" where
  "ExecuteCmd_spop api password fmt args response k rd =
     bind_res (ExecuteCmd_format fmt args k) (\<lambda>k1. ExecuteCmd_send api password response k1 rd)"

text \<open>
  \<open>ExecuteCmd\<close>, for a plain context: it prints its arguments first and then formats them
  again from the same \<open>va_list\<close>, which is undefined as soon as there are any.
\<close>

definition ExecuteCmd ::
  "('x, 'rd) redis \<Rightarrow> string \<Rightarrow> string \<Rightarrow> fmt_arg list \<Rightarrow> 'x KGRedisClient \<Rightarrow> 'rd \<Rightarrow>
   (reply option \<times> 'x KGRedisClient \<times> 'rd) res" where
  "ExecuteCmd api password fmt args k rd =
     (case CreateContext api password k rd of
        (None, k1, rd1) \<Rightarrow> Inr (None, k1, rd1)
      | (Some ctx, k1, rd1) \<Rightarrow>
          if args \<noteq> [] then Inl BadFormat
          else bind_res (ExecuteCmd_format fmt args k1)
            (\<lambda>k2. let (rep, rd2) = redis_command api ctx (cstr (cmdBuf k2)) rd1
                   in Inr (rep, ReleaseContext (Some ctx) (rep \<noteq> None) k2, rd2)))"

text \<open>\<open>strcasecmp\<close> with a reply text.\<close>

definition lower_char :: "char \<Rightarrow> char" where
  "lower_char c = (let n = of_char c :: nat in if 65 \<le> n \<and> n \<le> 90 then char_of (n + 32) else c)"

definition CheckStatus :: "('x, 'rd) redis \<Rightarrow> 'x \<Rightarrow> 'rd \<Rightarrow> bool \<times> 'rd" where
  "CheckStatus api ctx rd =
     (let (rep, rd1) = redis_command api ctx ''ping'' rd
      in (case rep of
            Some (RStatus s) \<Rightarrow> map lower_char (cstr s) = ''pong''
          | _ \<Rightarrow> False, rd1))"

text \<open>The commands. Arguments are passed as C strings.\<close>

definition ExecDel where
  "ExecDel api pw response key = ExecuteCmd_spop api pw ''DEL %s'' [ArgS (cstr key)] response"

definition ExecSetString where
  "ExecSetString api pw response strName str =
     ExecuteCmd_spop api pw ''set %s %s'' [ArgS (cstr strName), ArgS (cstr str)] response"

definition ExecGetString where
  "ExecGetString api pw response strName =
     ExecuteCmd_spop api pw ''get %s'' [ArgS (cstr strName)] response"

definition ExecLpush where
  "ExecLpush api pw response lstName item =
     ExecuteCmd_spop api pw ''lpush %s %s'' [ArgS (cstr lstName), ArgS (cstr item)] response"

definition ExecRpush where
  "ExecRpush api pw response lstName item =
     ExecuteCmd_spop api pw ''rpush %s %s'' [ArgS (cstr lstName), ArgS (cstr item)] response"

definition ExecLpop where
  "ExecLpop api pw response lstName =
     ExecuteCmd_spop api pw ''lpop %s'' [ArgS (cstr lstName)] response"

definition ExecRpop where
  "ExecRpop api pw response lstName =
     ExecuteCmd_spop api pw ''rpop %s'' [ArgS (cstr lstName)] response"

definition ExecGetLstAll where
  "ExecGetLstAll api pw response lstName =
     ExecuteCmd_spop api pw ''lrange %s 0 -1'' [ArgS (cstr lstName)] response"

text \<open>\<open>ExecHMset\<close> builds the whole command and passes it as the format.\<close>

definition hmset_text :: "string \<Rightarrow> (string \<times> string) list \<Rightarrow> string" where
  "hmset_text hashName keyVals =
     ''HMSET'' @ '' '' @ hashName @
     concat (map (\<lambda>(key, val). '' '' @ key @ '' '' @ val) keyVals)"

definition ExecHMset where
  "ExecHMset api pw response hashName keyVals =
     ExecuteCmd_spop api pw (cstr (hmset_text hashName keyVals)) [] response"

definition ExecHget where
  "ExecHget api pw response hashName key =
     ExecuteCmd_spop api pw ''hget %s %s'' [ArgS (cstr hashName), ArgS (cstr key)] response"

definition ExecHgetAll where
  "ExecHgetAll api pw response hashName =
     ExecuteCmd_spop api pw ''hgetAll %s'' [ArgS (cstr hashName)] response"

definition ExecSadd where
  "ExecSadd api pw response setName val =
     ExecuteCmd_spop api pw ''SADD %s %s'' [ArgS (cstr setName), ArgS (cstr val)] response"

text \<open>\<open>response[0]\<close> of an empty vector is undefined; no exception is thrown for it.\<close>

definition scontain_result :: "bool \<times> string list \<times> 'x KGRedisClient \<times> 'rd \<Rightarrow> ('x, 'rd) redis_result" where
  "scontain_result = (\<lambda>(b, resp, k1, rd1).
     if \<not> b then Inr (False, resp, k1, rd1)
     else (case resp of
             [] \<Rightarrow> Inl OutOfBounds
           | r # _ \<Rightarrow> Inr (r = ''1'', resp, k1, rd1)))"

definition ExecScontain ::
  "('x, 'rd) redis \<Rightarrow> string \<Rightarrow> string list \<Rightarrow> string \<Rightarrow> string \<Rightarrow> 'x KGRedisClient \<Rightarrow> 'rd \<Rightarrow>
   ('x, 'rd) redis_result" where
  "ExecScontain api pw response setName val k rd =
     bind_res (ExecuteCmd_spop api pw ''SISMEMBER %s %s'' [ArgS (cstr setName), ArgS (cstr val)]
                 response k rd)
       scontain_result"

definition ExecSremove where
  "ExecSremove api pw response setName val =
     ExecuteCmd_spop api pw ''SREM %s %s'' [ArgS (cstr setName), ArgS (cstr val)] response"

text \<open>After both writes the buffer holds the text and zeros up to its end.\<close>

definition cmd_buffer :: "string \<Rightarrow> string" where
  "cmd_buffer buf = buf @ replicate (100 - length buf) NUL"

lemma ExecuteCmd_format_buffer:
  "ExecuteCmd_format fmt args k =
     bind_res (snprintf 100 fmt args) (\<lambda>buf. Inr (k\<lparr>cmdBuf := cmd_buffer buf\<rparr>))"
  by (simp add: ExecuteCmd_format_def ExecuteCmd_write_def ExecuteCmd_clear_def store_at_def cmd_buffer_def)

lemma cstr_cmd_buffer [simp]: "cstr (cmd_buffer buf) = cstr buf"
  by (cases "100 - length buf"; cases "NUL \<in> set buf")
     (simp_all add: cmd_buffer_def cstr_append_NUL cstr_append_in cstr_id)

lemmas ExecuteCmd_defs = ExecuteCmd_spop_def ExecuteCmd_format_buffer ExecuteCmd_send_def

lemmas redis_cmd_defs = ExecDel_def ExecHMset_def ExecHget_def ExecSadd_def ExecScontain_def
  ExecSremove_def

section \<open>Ownership of contexts\<close>

text \<open>
  Over a cluster client, a command uses one context and puts it back exactly when a
  reply came; contexts already pooled are never lost.
\<close>

lemma CreateClusterContext_pool:
  assumes "CreateClusterContext api k rd = Inr (c, k1, rd1)"
  shows "m_clients k1 = m_clients k \<and> conType k1 = conType k \<and>
    (case c of
       None \<Rightarrow> m_clusterClients k = [] \<and> m_clusterClients k1 = []
     | Some ctx \<Rightarrow> m_clusterClients k = ctx # m_clusterClients k1 \<or>
         m_clusterClients k = [] \<and> m_clusterClients k1 = [] \<and>
         ctx_connect api rd = (CtxOk ctx, rd1))"
  using assms
  by (auto simp: CreateClusterContext_def split: list.splits if_splits prod.splits new_ctx.splits)

lemma finish_cmd_client: "finish_cmd rep response k rd = Inr (b, resp, k', rd') \<Longrightarrow> k' = k \<and> rd' = rd"
  by (auto simp: finish_cmd_def split: option.splits)

text \<open>A client with one pooled cluster context, for concrete runs.\<close>

definition demo_client :: "nat KGRedisClient" where
  "demo_client =
     \<lparr>conType = REDIS_CON_CLUSTER_TYPE, m_clients = [], m_clusterClients = [7], m_beginInvalidTime = 0, cmdBuf = []\<rparr>"

definition demo_redis :: "reply option \<Rightarrow> (nat, unit) redis" where
  "demo_redis rep = \<lparr>time_now = (\<lambda>_. 1), ctx_connect = (\<lambda>u. (CtxErr 0, u)),
     redis_command = (\<lambda>_ _ u. (rep, u))\<rparr>"

text \<open>A command takes the first context of the pool and puts it back at the end when a
  reply came; only when none came is it dropped, and then the command fails and adds nothing
  to the response.\<close>

lemma redis_contexts_kept:
  assumes "conType k = REDIS_CON_CLUSTER_TYPE" and "m_clusterClients k = ctx # rest"
    and "ExecuteCmd_spop api pw fmt args response k rd = Inr (b, resp, k', rd')"
  shows "m_clients k' = m_clients k \<and>
         (m_clusterClients k' = rest @ [ctx] \<or> \<not> b \<and> m_clusterClients k' = rest \<and> resp = response)"
proof -
  obtain buf where "snprintf 100 fmt args = Inr buf"
    using assms(3) by (cases "snprintf 100 fmt args") (auto simp: ExecuteCmd_defs)
  with assms have r: "(let (rep, rd2) = redis_command api ctx (cstr buf) rd
      in finish_cmd rep response (ReleaseClusterContext (Some ctx) (rep \<noteq> None)
           (k\<lparr>cmdBuf := cmd_buffer buf, m_clusterClients := rest\<rparr>)) rd2) = Inr (b, resp, k', rd')"
    by (simp add: ExecuteCmd_defs REDIS_CON_NORMAL_TYPE_def REDIS_CON_CLUSTER_TYPE_def
        CreateClusterContext_def)
  obtain rep rd2 where rep: "redis_command api ctx (cstr buf) rd = (rep, rd2)" by force
  show ?thesis
  proof (cases rep)
    case None
    with r rep show ?thesis by (auto simp: finish_cmd_def ReleaseClusterContext_def)
  next
    case (Some re)
    with r rep have "k' = k\<lparr>cmdBuf := cmd_buffer buf, m_clusterClients := rest @ [ctx]\<rparr>"
      by (auto simp: ReleaseClusterContext_def dest!: finish_cmd_client)
    then show ?thesis by simp
  qed
qed

lemma redis_contexts_kept_example:
  "m_clusterClients demo_client = [7] \<and>
   ExecuteCmd_spop (demo_redis (Some (RInteger 1))) [] ''PING'' [] [] demo_client () =
     Inr (True, [to_string 1], demo_client\<lparr>cmdBuf := cmd_buffer (''PING'' @ [NUL])\<rparr>, ())"
proof -
  have e: "ExecuteCmd_spop (demo_redis (Some (RInteger 1))) [] ''PING'' [] [] demo_client () =
      Inr (True, [to_string 1], demo_client\<lparr>cmdBuf := cmd_buffer (''PING'' @ [NUL])\<rparr>, ())"
    by (simp add: ExecuteCmd_defs snprintf_def cstr_append_NUL REDIS_CON_NORMAL_TYPE_def
        REDIS_CON_CLUSTER_TYPE_def CreateClusterContext_def demo_client_def demo_redis_def
        finish_cmd_def ReleaseClusterContext_def)
  from redis_contexts_kept [OF _ _ e, of 7 "[]"] e show ?thesis
    by (simp add: demo_client_def)
qed

text \<open>After a failed connection no attempt is made for three seconds: a command fails at once,
  without talking to the server, and changes nothing.\<close>

lemma command_backoff:
  assumes "conType k = REDIS_CON_CLUSTER_TYPE" and "m_clusterClients k = []"
    and "time_now api rd < m_beginInvalidTime k + 3" and "cformat fmt args \<noteq> None"
  shows "\<exists>buf. ExecuteCmd_spop api pw fmt args response k rd = Inr (False, response, k\<lparr>cmdBuf := buf\<rparr>, rd)"
proof -
  obtain buf where "snprintf 100 fmt args = Inr buf" using assms(4) by (auto simp: snprintf_def)
  with assms show ?thesis
    by (intro exI [of _ "cmd_buffer buf"]) (simp add: ExecuteCmd_defs REDIS_CON_NORMAL_TYPE_def
        REDIS_CON_CLUSTER_TYPE_def CreateClusterContext_def m_maxReconnectInterval_def)
qed

end
