(* ===== verification/MyEnum.thy ===== *)
theory MyEnum
  imports Prelude
begin

text \<open>
  The enumerations of \<^verbatim>\<open>smer/SmerSystem/inc/MyEnum.h\<close>. The code stores them in
  unsigned 32-bit fields, so each has its number (\<open>cmdCode\<close>, \<open>msgCode\<close>, \<open>sysMsgCode\<close>)
  and comparisons in the code are comparisons of numbers.
\<close>

datatype CmdType =
    CMD_MOVE_UP | CMD_MOVE_DOWN | CMD_MOVE_LEFT | CMD_MOVE_RIGHT | CMD_ATTACK | CMD_JUMP
  | CMD_ENTER | CMD_BACKPACK | CMD_MAP | CMD_SYSTEM | CMD_BUTTON

fun cmdCode :: "CmdType \<Rightarrow> u32" where
  "cmdCode CMD_MOVE_UP = 0"
| "cmdCode CMD_MOVE_DOWN = 1"
| "cmdCode CMD_MOVE_LEFT = 2"
| "cmdCode CMD_MOVE_RIGHT = 3"
| "cmdCode CMD_ATTACK = 4"
| "cmdCode CMD_JUMP = 5"
| "cmdCode CMD_ENTER = 6"
| "cmdCode CMD_BACKPACK = 7"
| "cmdCode CMD_MAP = 8"
| "cmdCode CMD_SYSTEM = 9"
| "cmdCode CMD_BUTTON = 10"

datatype MsgType =
    MSG_CMD | MSG_TALK | MSG_ACK | MSG_REG | MSG_REG_ACCEPT | MSG_REG_REFUSE | MSG_LOGIN
  | MSG_LOGIN_ACCEPT | MSG_LOGIN_REFUSE | MSG_LOGOUT | MSG_ASK_FOR_FRIEND
  | MSG_ASK_FOR_FRIEND_NOT_FOUND | MSG_ASK_FOR_FRIEND_ACCEPT | MSG_ASK_FOR_FRIEND_REFUSE
  | MSG_BUTTON

fun msgCode :: "MsgType \<Rightarrow> u32" where
  "msgCode MSG_CMD = 0"
| "msgCode MSG_TALK = 1"
| "msgCode MSG_ACK = 2"
| "msgCode MSG_REG = 3"
| "msgCode MSG_REG_ACCEPT = 4"
| "msgCode MSG_REG_REFUSE = 5"
| "msgCode MSG_LOGIN = 6"
| "msgCode MSG_LOGIN_ACCEPT = 7"
| "msgCode MSG_LOGIN_REFUSE = 8"
| "msgCode MSG_LOGOUT = 9"
| "msgCode MSG_ASK_FOR_FRIEND = 10"
| "msgCode MSG_ASK_FOR_FRIEND_NOT_FOUND = 11"
| "msgCode MSG_ASK_FOR_FRIEND_ACCEPT = 12"
| "msgCode MSG_ASK_FOR_FRIEND_REFUSE = 13"
| "msgCode MSG_BUTTON = 14"

datatype SysMsgType =
    SYS_OUTPUT_MSG | SYS_SHOW_FRIENDS_MSG | SYS_SHOW_ASK_FOR_FRIEND_REQ | SYS_MSG_BUTTON

fun sysMsgCode :: "SysMsgType \<Rightarrow> u32" where
  "sysMsgCode SYS_OUTPUT_MSG = 0"
| "sysMsgCode SYS_SHOW_FRIENDS_MSG = 1"
| "sysMsgCode SYS_SHOW_ASK_FOR_FRIEND_REQ = 2"
| "sysMsgCode SYS_MSG_BUTTON = 3"

text \<open>Distinct enumerators have distinct numbers.\<close>

lemma msgCode_inject [simp]: "msgCode s = msgCode t \<longleftrightarrow> s = t"
  by (cases s; cases t) simp_all

lemma cmdCode_inject [simp]: "cmdCode s = cmdCode t \<longleftrightarrow> s = t"
  by (cases s; cases t) simp_all

lemma sysMsgCode_inject [simp]: "sysMsgCode s = sysMsgCode t \<longleftrightarrow> s = t"
  by (cases s; cases t) simp_all

text \<open>
  The code compares enumerators as the integers they are: the order of the command types
  is that of their numbers.
\<close>

instantiation CmdType :: linorder
begin

definition less_eq_CmdType :: "CmdType \<Rightarrow> CmdType \<Rightarrow> bool" where
  "less_eq_CmdType a b \<longleftrightarrow> cmdCode a \<le> cmdCode b"

definition less_CmdType :: "CmdType \<Rightarrow> CmdType \<Rightarrow> bool" where
  "less_CmdType a b \<longleftrightarrow> cmdCode a < cmdCode b"

instance
  by standard (auto simp: less_eq_CmdType_def less_CmdType_def less_le)

end

end
