(* ===== verification/SeqAbleObj.thy ===== *)
theory SeqAbleObj
  imports CLib MyEnum
begin

text \<open>
  The message object of \<^verbatim>\<open>smer/Seqeue/inc/SeqAbleObj.h\<close>: the struct \<open>TransObj\<close>, its
  setters and getters, and the byte layout in which it is copied to and from socket
  buffers. Fields: \<open>msgType\<close>, \<open>mlen\<close> (the code's \<open>len\<close>), \<open>tid\<close> (\<open>id\<close>), \<open>recverId\<close>,
  \<open>tfd\<close> (\<open>fd\<close>), and the 64 bytes of \<open>msg\<close>.
\<close>

section \<open>Constants and the struct\<close>

definition MAX_TRANS_MSG_LEN :: nat where
  "MAX_TRANS_MSG_LEN = 64"

definition NAME_MAX_LEN :: nat where
  "NAME_MAX_LEN = 24"

definition PASSWORD_MAX_LEN :: nat where
  "PASSWORD_MAX_LEN = MAX_TRANS_MSG_LEN - NAME_MAX_LEN"

lemmas max_len_defs = MAX_TRANS_MSG_LEN_def NAME_MAX_LEN_def PASSWORD_MAX_LEN_def

record TransObj =
  msgType :: u32
  mlen :: u32
  tid :: s32
  recverId :: s32
  tfd :: s32
  msg :: bytes

text \<open>
  Constructors. Those that leave members uninitialised keep what the storage held,
  given as \<open>g\<close>.
\<close>

definition TransObj_default :: TransObj where
  "TransObj_default =
     \<lparr>msgType = 0, mlen = 0, tid = 0, recverId = 0, tfd = 0,
      msg = replicate MAX_TRANS_MSG_LEN NUL\<rparr>"

definition TransObj_type_len :: "TransObj \<Rightarrow> u32 \<Rightarrow> u32 \<Rightarrow> TransObj" where
  "TransObj_type_len g t l = g\<lparr>msgType := t, mlen := l, tid := 1\<rparr>"

definition TransObj_id_type_len :: "TransObj \<Rightarrow> s32 \<Rightarrow> u32 \<Rightarrow> u32 \<Rightarrow> TransObj" where
  "TransObj_id_type_len g i t l = g\<lparr>tid := i, msgType := t, mlen := l\<rparr>"

definition TransObj_id_type_len_fd :: "TransObj \<Rightarrow> s32 \<Rightarrow> u32 \<Rightarrow> u32 \<Rightarrow> s32 \<Rightarrow> TransObj" where
  "TransObj_id_type_len_fd g i t l f = g\<lparr>tid := i, msgType := t, mlen := l, tfd := f\<rparr>"

definition TransObj_all :: "TransObj \<Rightarrow> s32 \<Rightarrow> s32 \<Rightarrow> u32 \<Rightarrow> u32 \<Rightarrow> s32 \<Rightarrow> TransObj" where
  "TransObj_all g i r t l f = g\<lparr>msgType := t, mlen := l, tid := i, recverId := r, tfd := f\<rparr>"

section \<open>Setters and getters\<close>

definition setMsgType :: "u32 \<Rightarrow> TransObj \<Rightarrow> TransObj" where
  "setMsgType t obj = obj\<lparr>msgType := t\<rparr>"

definition setId :: "s32 \<Rightarrow> TransObj \<Rightarrow> TransObj" where
  "setId i obj = obj\<lparr>tid := i\<rparr>"

definition setFd :: "s32 \<Rightarrow> TransObj \<Rightarrow> TransObj" where
  "setFd f obj = obj\<lparr>tfd := f\<rparr>"

definition setrecverId :: "s32 \<Rightarrow> TransObj \<Rightarrow> TransObj" where
  "setrecverId r obj = obj\<lparr>recverId := r\<rparr>"

definition setLen :: "s32 \<Rightarrow> TransObj \<Rightarrow> TransObj" where
  "setLen l obj = obj\<lparr>mlen := l\<rparr>"

definition getMsgType :: "TransObj \<Rightarrow> u32" where
  "getMsgType obj = msgType obj"

definition getrecverId :: "TransObj \<Rightarrow> s32" where
  "getrecverId obj = recverId obj"

definition getId :: "TransObj \<Rightarrow> s32" where
  "getId obj = tid obj"

definition getFd :: "TransObj \<Rightarrow> s32" where
  "getFd obj = tfd obj"

lemmas setter_defs = setMsgType_def setId_def setFd_def setrecverId_def setLen_def

text \<open>The \<open>memset\<close>s that clear the message, its name part and its password part.\<close>

definition clearMsg :: "TransObj \<Rightarrow> TransObj" where
  "clearMsg obj = obj\<lparr>msg := store_at 0 (replicate MAX_TRANS_MSG_LEN NUL) (msg obj)\<rparr>"

definition clearName :: "TransObj \<Rightarrow> TransObj" where
  "clearName obj = obj\<lparr>msg := store_at 0 (replicate NAME_MAX_LEN NUL) (msg obj)\<rparr>"

definition clearPasswd :: "TransObj \<Rightarrow> TransObj" where
  "clearPasswd obj =
     obj\<lparr>msg := store_at NAME_MAX_LEN (replicate PASSWORD_MAX_LEN NUL) (msg obj)\<rparr>"

text \<open>
  \<open>setMsg\<close> takes a C string; \<open>strncpy\<close> writes its characters without a terminator over
  the cleared array.
\<close>

definition setMsg :: "string \<Rightarrow> TransObj \<Rightarrow> bool \<times> TransObj" where
  "setMsg s obj =
     (if MAX_TRANS_MSG_LEN \<le> length (cstr s) then (False, obj)
      else (let obj1 = clearMsg obj
            in (True, obj1\<lparr>msg := store_at 0 (cstr s) (msg obj1)\<rparr>)))"

text \<open>
  \<open>setName\<close> and \<open>setPasswd\<close> hand the caller's string to \<open>snprintf\<close> as its format. The
  \<open>std::string\<close> overloads compare the string's length where these compare \<open>strlen\<close>.
\<close>

definition setName :: "string \<Rightarrow> TransObj \<Rightarrow> (bool \<times> TransObj) res" where
  "setName s obj =
     (if NAME_MAX_LEN \<le> length (cstr s) then Inr (False, obj)
      else (let obj1 = clearName obj
            in bind_res (snprintf NAME_MAX_LEN (cstr s) [])
                 (\<lambda>bs. Inr (True, obj1\<lparr>msg := store_at 0 bs (msg obj1)\<rparr>))))"

definition setPasswd :: "string \<Rightarrow> TransObj \<Rightarrow> (bool \<times> TransObj) res" where
  "setPasswd s obj =
     (if PASSWORD_MAX_LEN \<le> length (cstr s) then Inr (False, obj)
      else (let obj1 = clearPasswd obj
            in bind_res (snprintf PASSWORD_MAX_LEN (cstr s) [])
                 (\<lambda>bs. Inr (True, obj1\<lparr>msg := store_at NAME_MAX_LEN bs (msg obj1)\<rparr>))))"

definition setName_string :: "string \<Rightarrow> TransObj \<Rightarrow> (bool \<times> TransObj) res" where
  "setName_string s obj =
     (if NAME_MAX_LEN \<le> length s then Inr (False, obj)
      else (let obj1 = clearName obj
            in bind_res (snprintf NAME_MAX_LEN (cstr s) [])
                 (\<lambda>bs. Inr (True, obj1\<lparr>msg := store_at 0 bs (msg obj1)\<rparr>))))"

definition setPasswd_string :: "string \<Rightarrow> TransObj \<Rightarrow> (bool \<times> TransObj) res" where
  "setPasswd_string s obj =
     (if PASSWORD_MAX_LEN \<le> length s then Inr (False, obj)
      else (let obj1 = clearPasswd obj
            in bind_res (snprintf PASSWORD_MAX_LEN (cstr s) [])
                 (\<lambda>bs. Inr (True, obj1\<lparr>msg := store_at NAME_MAX_LEN bs (msg obj1)\<rparr>))))"

definition setNamePasswd :: "string \<Rightarrow> string \<Rightarrow> TransObj \<Rightarrow> (bool \<times> TransObj) res" where
  "setNamePasswd name passwd obj =
     (if NAME_MAX_LEN \<le> length (cstr name) \<or> PASSWORD_MAX_LEN \<le> length (cstr passwd)
      then Inr (False, obj)
      else bind_res (setName name (clearMsg obj))
             (\<lambda>(_, obj1). bind_res (setPasswd passwd obj1)
                (\<lambda>(_, obj2). Inr (True, obj2))))"

text \<open>
  \<open>getName\<close>, \<open>getPasswd\<close> and \<open>getMsg\<close> are pointers into \<open>msg\<close>; reading the C string
  behind one fails when no NUL follows inside the array.
\<close>

definition getMsg :: "TransObj \<Rightarrow> string res" where
  "getMsg obj = read_cstr (msg obj)"

definition getName :: "TransObj \<Rightarrow> string res" where
  "getName obj = read_cstr (msg obj)"

definition getPasswd :: "TransObj \<Rightarrow> string res" where
  "getPasswd obj = read_cstr (drop NAME_MAX_LEN (msg obj))"

text \<open>
  A well-formed object: the array has its size and both C strings in it end inside it.
\<close>

definition wf_obj :: "TransObj \<Rightarrow> bool" where
  "wf_obj obj \<longleftrightarrow> length (msg obj) = MAX_TRANS_MSG_LEN \<and> NUL \<in> set (msg obj)"

definition wf_size :: "TransObj \<Rightarrow> bool" where
  "wf_size obj \<longleftrightarrow> length (msg obj) = MAX_TRANS_MSG_LEN"

section \<open>What the setters store\<close>

lemma setMsg_too_long: "64 \<le> length (cstr s) \<Longrightarrow> setMsg s obj = (False, obj)"
  by (simp add: setMsg_def max_len_defs)

text \<open>A message that fits is stored followed by zeros only.\<close>

lemma setMsg_fits:
  assumes "wf_size obj" and "length (cstr s) < 64"
  shows "setMsg s obj =
           (True, obj\<lparr>msg := cstr s @ replicate (64 - length (cstr s)) NUL\<rparr>)"
  using assms
  by (simp add: setMsg_def clearMsg_def store_at_0 wf_size_def max_len_defs)

lemma getMsg_setMsg:
  assumes "wf_size obj" and "setMsg s obj = (True, obj')"
  shows "getMsg obj' = Inr (cstr s)" and "wf_obj obj'"
proof -
  have fit: "length (cstr s) < 64"
    using assms(2) by (auto simp: setMsg_def max_len_defs split: if_splits)
  then have m: "msg obj' = cstr s @ replicate (64 - length (cstr s)) NUL"
    using assms setMsg_fits by auto
  with fit show "getMsg obj' = Inr (cstr s)"
    by (simp add: getMsg_def read_cstr_def cstr_append_zeros)
  show "wf_obj obj'"
    using m fit by (simp add: wf_obj_def max_len_defs)
qed

lemma setMsg_frame:
  "snd (setMsg s obj) = obj\<lparr>msg := msg (snd (setMsg s obj))\<rparr>"
  by (simp add: setMsg_def clearMsg_def Let_def)

text \<open>
  A name or password part: the 24 bytes (40 bytes) of it are the expansion of the
  caller's string and zeros.
\<close>

lemma snprintf_fits:
  assumes "cformat s [] = Some t" and "length s < n"
  shows "snprintf n s [] = Inr (t @ [NUL])"
  using assms length_cformat_noargs [OF assms(1)] by (simp add: snprintf_def)

lemma setName_stores:
  assumes "wf_size obj" and "length (cstr s) < 24" and "cformat (cstr s) [] = Some t"
  shows "setName s obj =
     Inr (True, obj\<lparr>msg := (t @ replicate (24 - length t) NUL) @ drop 24 (msg obj)\<rparr>)"
proof -
  have t: "length t \<le> length (cstr s)" using assms(3) by (rule length_cformat_noargs)
  have "replicate (24 - length t) NUL = NUL # replicate (23 - length t) NUL"
    using t assms(2) by (simp add: Suc_diff_le flip: replicate_Suc)
  then show ?thesis
    using assms t snprintf_fits [OF assms(3), of 24]
    by (simp add: setName_def clearName_def store_at_0 wf_size_def max_len_defs Let_def)
qed

lemma setPasswd_stores:
  assumes "wf_size obj" and "length (cstr s) < 40" and "cformat (cstr s) [] = Some t"
  shows "setPasswd s obj =
     Inr (True, obj\<lparr>msg := take 24 (msg obj) @ (t @ replicate (40 - length t) NUL)\<rparr>)"
proof -
  have t: "length t \<le> length (cstr s)" using assms(3) by (rule length_cformat_noargs)
  have "replicate (40 - length t) NUL = NUL # replicate (39 - length t) NUL"
    using t assms(2) by (simp add: Suc_diff_le flip: replicate_Suc)
  then show ?thesis
    using assms t snprintf_fits [OF assms(3), of 40]
    by (simp add: setPasswd_def clearPasswd_def store_at_def wf_size_def max_len_defs Let_def)
qed

lemma setNamePasswd_stores:
  assumes "wf_size obj"
    and "length (cstr name) < 24" and "cformat (cstr name) [] = Some n"
    and "length (cstr pw) < 40" and "cformat (cstr pw) [] = Some p"
  shows "setNamePasswd name pw obj =
     Inr (True, obj\<lparr>msg := (n @ replicate (24 - length n) NUL) @
                           (p @ replicate (40 - length p) NUL)\<rparr>)"
proof -
  have n: "length n \<le> length (cstr name)" using assms(3) by (rule length_cformat_noargs)
  have c: "wf_size (clearMsg obj)"
    using assms(1) by (simp add: wf_size_def clearMsg_def max_len_defs)
  let ?o1 = "clearMsg obj\<lparr>msg := (n @ replicate (24 - length n) NUL) @ drop 24 (msg (clearMsg obj))\<rparr>"
  have o1: "wf_size ?o1" using c n assms(2) by (simp add: wf_size_def max_len_defs)
  show ?thesis
    using assms n setName_stores [OF c assms(2,3)] setPasswd_stores [OF o1 assms(4,5)]
    by (simp add: setNamePasswd_def max_len_defs clearMsg_def)
qed

lemma wf_obj_default: "wf_obj TransObj_default"
  by (simp add: wf_obj_def TransObj_default_def max_len_defs)

lemma wf_obj_size: "wf_obj obj \<Longrightarrow> wf_size obj"
  by (simp add: wf_obj_def wf_size_def)

section \<open>Sizes and frames\<close>

lemma wf_size_TransObj_all [simp]: "wf_size (TransObj_all g i r t l f) = wf_size g"
  by (simp add: wf_size_def TransObj_all_def)

lemma wf_size_setMsgType [simp]: "wf_size (setMsgType t obj) = wf_size obj"
  by (simp add: wf_size_def setMsgType_def)

lemma wf_size_setMsg [simp]: "wf_size obj \<Longrightarrow> wf_size (snd (setMsg s obj))"
  by (simp add: setMsg_def clearMsg_def wf_size_def max_len_defs)

lemma length_snprintf: "snprintf n s [] = Inr bs \<Longrightarrow> 0 < n \<Longrightarrow> length bs \<le> n"
  by (auto simp: snprintf_def split: option.splits)

lemma wf_size_setName: "wf_size obj \<Longrightarrow> setName s obj = Inr (b, obj') \<Longrightarrow> wf_size obj'"
  using length_snprintf [of 24 "cstr s"]
  by (fastforce simp: setName_def clearName_def wf_size_def max_len_defs Let_def split: if_splits)

lemma wf_size_setPasswd: "wf_size obj \<Longrightarrow> setPasswd s obj = Inr (b, obj') \<Longrightarrow> wf_size obj'"
  using length_snprintf [of 40 "cstr s"]
  by (fastforce simp: setPasswd_def clearPasswd_def wf_size_def max_len_defs Let_def split: if_splits)

lemma wf_size_setNamePasswd:
  assumes "wf_size obj" and "setNamePasswd n p obj = Inr (b, obj')"
  shows "wf_size obj'"
proof (cases "NAME_MAX_LEN \<le> length (cstr n) \<or> PASSWORD_MAX_LEN \<le> length (cstr p)")
  case True
  with assms show ?thesis by (simp add: setNamePasswd_def)
next
  case False
  with assms(2) obtain b1 o1 b2 where o: "setName n (clearMsg obj) = Inr (b1, o1)"
    "setPasswd p o1 = Inr (b2, obj')"
    by (auto simp: setNamePasswd_def)
  have "wf_size (clearMsg obj)" using assms(1) by (simp add: wf_size_def clearMsg_def max_len_defs)
  with o show ?thesis by (blast intro: wf_size_setName wf_size_setPasswd)
qed

lemma setMsg_fields [simp]:
  "msgType (snd (setMsg s obj)) = msgType obj" "mlen (snd (setMsg s obj)) = mlen obj"
  "tid (snd (setMsg s obj)) = tid obj" "recverId (snd (setMsg s obj)) = recverId obj"
  "tfd (snd (setMsg s obj)) = tfd obj"
  by (simp_all add: setMsg_def clearMsg_def Let_def)

lemma setName_frame: "setName s obj = Inr (b, obj') \<Longrightarrow> obj' = obj\<lparr>msg := msg obj'\<rparr>"
  by (auto simp: setName_def clearName_def Let_def split: if_splits)

lemma setPasswd_frame: "setPasswd s obj = Inr (b, obj') \<Longrightarrow> obj' = obj\<lparr>msg := msg obj'\<rparr>"
  by (auto simp: setPasswd_def clearPasswd_def Let_def split: if_splits)

lemma setNamePasswd_frame:
  assumes "setNamePasswd n p obj = Inr (b, obj')"
  shows "obj' = obj\<lparr>msg := msg obj'\<rparr>"
proof (cases "NAME_MAX_LEN \<le> length (cstr n) \<or> PASSWORD_MAX_LEN \<le> length (cstr p)")
  case True
  with assms show ?thesis by (simp add: setNamePasswd_def)
next
  case False
  with assms obtain b1 o1 b2 where "setName n (clearMsg obj) = Inr (b1, o1)"
    "setPasswd p o1 = Inr (b2, obj')"
    by (auto simp: setNamePasswd_def)
  then show ?thesis
    using setName_frame [of n "clearMsg obj" b1 o1] setPasswd_frame [of p o1 b2 obj']
    by (cases o1; cases obj') (auto simp: clearMsg_def)
qed

lemma setNamePasswd_fields:
  assumes "setNamePasswd n p obj = Inr (b, obj')"
  shows "msgType obj' = msgType obj" "mlen obj' = mlen obj" "tid obj' = tid obj"
    "recverId obj' = recverId obj" "tfd obj' = tfd obj"
  by (subst setNamePasswd_frame [OF assms], simp)+

section \<open>Properties\<close>

text \<open>C32: Storing a name and a password in a message and reading them back gives the
  same strings, provided they are shorter than 24 and 40 characters and free of NUL and
  percent signs; longer ones are refused and the object is unchanged.\<close>

theorem credentials_roundtrip:
  assumes "wf_size obj" and "NUL \<notin> set name" "percent_free name"
    and "NUL \<notin> set passwd" "percent_free passwd"
  shows "if length name < 24 \<and> length passwd < 40
         then \<exists>obj'. setNamePasswd name passwd obj = Inr (True, obj') \<and> wf_obj obj' \<and>
                getName obj' = Inr name \<and> getPasswd obj' = Inr passwd
         else setNamePasswd name passwd obj = Inr (False, obj)"
proof (cases "length name < 24 \<and> length passwd < 40")
  case True
  let ?m = "(name @ replicate (24 - length name) NUL) @ (passwd @ replicate (40 - length passwd) NUL)"
  have "setNamePasswd name passwd obj = Inr (True, obj\<lparr>msg := ?m\<rparr>)"
    using setNamePasswd_stores [OF assms(1), of name name passwd passwd] True assms(2-)
    by (simp add: cstr_id cformat_plain)
  moreover have "length ?m = 64" "drop 24 ?m = passwd @ replicate (40 - length passwd) NUL"
    using True by simp_all
  moreover have "24 - length name = Suc (23 - length name)" using True by arith
  then have "?m = name @ NUL # replicate (23 - length name) NUL @ passwd @
      replicate (40 - length passwd) NUL" by simp
  then have "cstr ?m = name" "NUL \<in> set ?m"
    using assms(2) by (simp_all add: cstr_append_NUL)
  ultimately show ?thesis
    using True assms(4)
    by (simp add: wf_obj_def getName_def getPasswd_def read_cstr_def max_len_defs cstr_append_zeros
        del: append_assoc)
next
  case False
  with assms show ?thesis by (auto simp: setNamePasswd_def cstr_id max_len_defs)
qed

theorem credentials_roundtrip_witness:
  "\<exists>obj'. setNamePasswd ''bob'' ''secret'' TransObj_default = Inr (True, obj') \<and> wf_obj obj' \<and>
     getName obj' = Inr ''bob'' \<and> getPasswd obj' = Inr ''secret''"
  using credentials_roundtrip [of TransObj_default "''bob''" "''secret''"]
  by (simp add: wf_obj_size [OF wf_obj_default] NUL_def percent_free_def)

text \<open>A message text is stored and read back exactly when it has fewer than 64
  characters; a longer one is refused and the object is unchanged.\<close>

lemma message_text_bounds:
  assumes "wf_size obj"
  shows "if length (cstr s) < 64
         then fst (setMsg s obj) \<and> getMsg (snd (setMsg s obj)) = Inr (cstr s) \<and> wf_obj (snd (setMsg s obj))
         else setMsg s obj = (False, obj)"
  using setMsg_fits [OF assms, of s] setMsg_too_long [of s obj] getMsg_setMsg [OF assms, of s]
  by (auto simp: wf_obj_def max_len_defs)

end
