(* ===== verification/ComManger.thy ===== *)
theory ComManger
  imports RedisPool SeqAbleObj
begin

text \<open>
  The session registry of \<^verbatim>\<open>smer/Communication\<close>, kept in Redis: the set \<open>userSession\<close>
  holds the ids of the logged-in users, and a hash per id holds the user's name and
  socket. Also the cached table \<open>userHash\<close> with its one-bit refresh flag.
\<close>

section \<open>Sessions\<close>

type_synonym ('a, 'x, 'rd) com_result = "('a \<times> 'x KGRedisClient \<times> 'rd) res"

definition addSessionTalker ::
  "('x, 'rd) redis \<Rightarrow> string \<Rightarrow> s32 \<Rightarrow> string \<Rightarrow> s32 \<Rightarrow> 'x KGRedisClient \<Rightarrow> 'rd \<Rightarrow>
   (bool, 'x, 'rd) com_result" where
  "addSessionTalker ra pw i name fd k rd =
     (let idStr = to_string (sint i); fdStr = to_string (sint fd)
      in bind_res (ExecSadd ra pw [] ''userSession'' idStr k rd)
           (\<lambda>(b, response, k1, rd1).
              if b then
                bind_res (ExecHMset ra pw response idStr [(''name'', name), (''fd'', fdStr)] k1 rd1)
                  (\<lambda>(b2, _, k2, rd2). Inr (b2, k2, rd2))
              else Inr (False, k1, rd1)))"

definition isTalkerOnline ::
  "('x, 'rd) redis \<Rightarrow> string \<Rightarrow> s32 \<Rightarrow> 'x KGRedisClient \<Rightarrow> 'rd \<Rightarrow> (bool, 'x, 'rd) com_result" where
  "isTalkerOnline ra pw i k rd =
     bind_res (ExecScontain ra pw [] ''userSession'' (to_string (sint i)) k rd)
       (\<lambda>(b, _, k1, rd1). Inr (b, k1, rd1))"

definition removeSessionTalker ::
  "('x, 'rd) redis \<Rightarrow> string \<Rightarrow> s32 \<Rightarrow> 'x KGRedisClient \<Rightarrow> 'rd \<Rightarrow> (bool, 'x, 'rd) com_result" where
  "removeSessionTalker ra pw i k rd =
     bind_res (ExecSremove ra pw [] ''userSession'' (to_string (sint i)) k rd)
       (\<lambda>(b, response, k1, rd1).
          if b then bind_res (ExecDel ra pw response (to_string (sint i)) k1 rd1)
                      (\<lambda>(b2, _, k2, rd2). Inr (b2, k2, rd2))
          else Inr (False, k1, rd1))"

definition getTalkerFd ::
  "('x, 'rd) redis \<Rightarrow> string \<Rightarrow> s32 \<Rightarrow> 'x KGRedisClient \<Rightarrow> 'rd \<Rightarrow> (s32, 'x, 'rd) com_result" where
  "getTalkerFd ra pw i k rd =
     bind_res (ExecHget ra pw [] (to_string (sint i)) ''fd'' k rd)
       (\<lambda>(b, response, k1, rd1).
          if b then (case response of [] \<Rightarrow> Inl OutOfBounds | r # _ \<Rightarrow> Inr (atoi r, k1, rd1))
          else Inr (-1, k1, rd1))"

text \<open>None where the function returns false and leaves the name alone.\<close>

definition getTalkerName ::
  "('x, 'rd) redis \<Rightarrow> string \<Rightarrow> s32 \<Rightarrow> 'x KGRedisClient \<Rightarrow> 'rd \<Rightarrow> (string option, 'x, 'rd) com_result" where
  "getTalkerName ra pw i k rd =
     bind_res (ExecHget ra pw [] (to_string (sint i)) ''name'' k rd)
       (\<lambda>(b, response, k1, rd1).
          if b then (case response of [] \<Rightarrow> Inl OutOfBounds | r # _ \<Rightarrow> Inr (Some r, k1, rd1))
          else Inr (None, k1, rd1))"

section \<open>The cached user table\<close>

text \<open>
  \<open>isUserHashChanged\<close> is a one-bit bit-field of type \<open>char\<close>, which is signed on the
  targets: reading it gives 0 or -1.
\<close>

record redisDataManger =
  userHash :: "string \<Rightarrow> s32 option"
  isUserHashChanged :: "1 word"

definition redisDataManger_new :: redisDataManger where
  "redisDataManger_new = \<lparr>userHash = (\<lambda>_. None), isUserHashChanged = 0\<rparr>"

text \<open>The loop reads the reply in steps of two.\<close>

fun fill_user_hash :: "string list \<Rightarrow> (string \<Rightarrow> s32 option) \<Rightarrow> (string \<Rightarrow> s32 option) res" where
  "fill_user_hash [] h = Inr h"
| "fill_user_hash [key] h = Inl OutOfBounds"
| "fill_user_hash (key # val # rest) h = fill_user_hash rest (h(key \<mapsto> atoi val))"

definition flushAllUserHashData ::
  "('x, 'rd) redis \<Rightarrow> string \<Rightarrow> redisDataManger \<Rightarrow> 'x KGRedisClient \<Rightarrow> 'rd \<Rightarrow>
   (bool \<times> redisDataManger, 'x, 'rd) com_result" where
  "flushAllUserHashData ra pw d k rd =
     bind_res (ExecHgetAll ra pw [] ''userHash'' k rd)
       (\<lambda>(b, response, k1, rd1).
          if \<not> b then Inr ((False, d), k1, rd1)
          else bind_res (fill_user_hash response (userHash d))
            (\<lambda>h. Inr ((True, d\<lparr>userHash := h, isUserHashChanged := 0\<rparr>), k1, rd1)))"

definition com_init ::
  "('x, 'rd) redis \<Rightarrow> string \<Rightarrow> 'x KGRedisClient \<Rightarrow> 'rd \<Rightarrow> (bool \<times> redisDataManger, 'x, 'rd) com_result" where
  "com_init ra pw k rd = flushAllUserHashData ra pw redisDataManger_new k rd"

definition setUserMapFlag :: "int \<Rightarrow> redisDataManger \<Rightarrow> redisDataManger" where
  "setUserMapFlag v d = d\<lparr>isUserHashChanged := word_of_int v\<rparr>"

definition getAllUserMap ::
  "('x, 'rd) redis \<Rightarrow> string \<Rightarrow> redisDataManger \<Rightarrow> 'x KGRedisClient \<Rightarrow> 'rd \<Rightarrow>
   ((string \<Rightarrow> s32 option) \<times> redisDataManger, 'x, 'rd) com_result" where
  "getAllUserMap ra pw d k rd =
     (if sint (isUserHashChanged d) = 1 then
        bind_res (flushAllUserHashData ra pw d k rd)
          (\<lambda>((_, d1), k1, rd1).
             let d2 = d1\<lparr>isUserHashChanged := 0\<rparr> in Inr ((userHash d2, d2), k1, rd1))
      else Inr ((userHash d, d), k, rd))"

definition ExecHset ::
  "('x, 'rd) redis \<Rightarrow> string \<Rightarrow> string list \<Rightarrow> string \<Rightarrow> string \<Rightarrow> string \<Rightarrow> redisDataManger \<Rightarrow>
   'x KGRedisClient \<Rightarrow> 'rd \<Rightarrow> (bool \<times> string list \<times> redisDataManger, 'x, 'rd) com_result" where
  "ExecHset ra pw response hashName key val d k rd =
     bind_res (ExecuteCmd_spop ra pw ''hset %s %s %s''
                 [ArgS (cstr hashName), ArgS (cstr key), ArgS (cstr val)] response k rd)
       (\<lambda>(b, resp, k1, rd1).
          if b then Inr ((True, resp, setUserMapFlag 1 d), k1, rd1)
          else Inr ((False, resp, d), k1, rd1))"

text \<open>The cached user table is never refreshed: whatever \<open>setUserMapFlag\<close> stored, the
  one-bit signed flag never compares equal to 1, and the getter returns the cached table.\<close>

lemma getAllUserMap_stale:
  "getAllUserMap ra pw (setUserMapFlag v d) k rd = Inr ((userHash d, setUserMapFlag v d), k, rd)"
proof -
  have "sint (u :: 1 word) \<noteq> 1" for u using sint_lt [of u] by simp
  then show ?thesis by (simp add: getAllUserMap_def setUserMapFlag_def)
qed

section \<open>What the registry promises\<close>

text \<open>
  The documented behaviour of the Redis commands used, over an abstraction of the
  server's state into sets of strings and hashes. Words are what a command line can
  carry: non-empty, without spaces, percent signs and NUL. A key holds a set or a hash;
  the laws say nothing about a set command on a hash or the reverse, which Redis
  answers with an error.
\<close>

definition word_ok :: "string \<Rightarrow> bool" where
  "word_ok s \<longleftrightarrow> s \<noteq> [] \<and> CHR '' '' \<notin> set s \<and> percent_free s \<and> NUL \<notin> set s"

record redis_abs =
  a_set :: "string \<Rightarrow> string \<Rightarrow> bool"
  a_hash :: "string \<Rightarrow> string \<Rightarrow> string option"

definition no_hash :: "redis_abs \<Rightarrow> string \<Rightarrow> bool" where
  "no_hash A s \<longleftrightarrow> a_hash A s = (\<lambda>_. None)"

definition no_set :: "redis_abs \<Rightarrow> string \<Rightarrow> bool" where
  "no_set A s \<longleftrightarrow> a_set A s = (\<lambda>_. False)"

definition redis_documented ::
  "('x, 'rd) redis \<Rightarrow> ('rd \<Rightarrow> redis_abs) \<Rightarrow> bool" where
  "redis_documented ra view \<longleftrightarrow>
     (\<forall>x rd s m. word_ok s \<longrightarrow> word_ok m \<longrightarrow> no_hash (view rd) s \<longrightarrow>
        (\<exists>n rd'. redis_command ra x (''SADD '' @ s @ '' '' @ m) rd = (Some (RInteger n), rd') \<and>
           view rd' = (view rd)\<lparr>a_set := (a_set (view rd))(s := (a_set (view rd) s)(m := True))\<rparr>)) \<and>
     (\<forall>x rd s m. word_ok s \<longrightarrow> word_ok m \<longrightarrow> no_hash (view rd) s \<longrightarrow>
        (\<exists>n rd'. redis_command ra x (''SREM '' @ s @ '' '' @ m) rd = (Some (RInteger n), rd') \<and>
           view rd' = (view rd)\<lparr>a_set := (a_set (view rd))(s := (a_set (view rd) s)(m := False))\<rparr>)) \<and>
     (\<forall>x rd s m. word_ok s \<longrightarrow> word_ok m \<longrightarrow> no_hash (view rd) s \<longrightarrow>
        (\<exists>rd'. redis_command ra x (''SISMEMBER '' @ s @ '' '' @ m) rd =
                 (Some (RInteger (if a_set (view rd) s m then 1 else 0)), rd') \<and> view rd' = view rd)) \<and>
     (\<forall>x rd h f v g u. word_ok h \<longrightarrow> word_ok f \<longrightarrow> word_ok v \<longrightarrow> word_ok g \<longrightarrow> word_ok u \<longrightarrow>
        no_set (view rd) h \<longrightarrow>
        (\<exists>rd'. redis_command ra x
                 (''HMSET '' @ h @ '' '' @ f @ '' '' @ v @ '' '' @ g @ '' '' @ u) rd =
                 (Some (RStatus ''OK''), rd') \<and>
           view rd' = (view rd)\<lparr>a_hash :=
             (a_hash (view rd))(h := (a_hash (view rd) h)(f \<mapsto> v, g \<mapsto> u))\<rparr>)) \<and>
     (\<forall>x rd h f. word_ok h \<longrightarrow> word_ok f \<longrightarrow> no_set (view rd) h \<longrightarrow>
        (\<exists>rd'. redis_command ra x (''hget '' @ h @ '' '' @ f) rd =
                 (Some (case a_hash (view rd) h f of None \<Rightarrow> RNil | Some v \<Rightarrow> RString v), rd') \<and>
               view rd' = view rd)) \<and>
     (\<forall>x rd h. word_ok h \<longrightarrow>
        (\<exists>n rd'. redis_command ra x (''DEL '' @ h) rd = (Some (RInteger n), rd') \<and>
           view rd' = \<lparr>a_set = (a_set (view rd))(h := \<lambda>_. False),
                       a_hash = (a_hash (view rd))(h := \<lambda>_. None)\<rparr>))"

text \<open>Decimal numbers are such words, of at most 11 characters.\<close>

lemma length_digits: "n < 10 ^ k \<Longrightarrow> 0 < k \<Longrightarrow> length (digits n) \<le> k"
proof (induction k arbitrary: n)
  case 0
  then show ?case by simp
next
  case (Suc k)
  show ?case
  proof (cases "n < 10")
    case True
    then show ?thesis by (simp add: digits.simps [of n])
  next
    case False
    then have k: "0 < k" using Suc.prems(1) by (cases k) auto
    have "n div 10 < 10 ^ k" using Suc.prems(1) by (simp add: less_mult_imp_div_less)
    with Suc.IH k False show ?thesis by (simp add: digits.simps [of n])
  qed
qed

lemma length_to_string_s32: "length (to_string (sint (w :: s32))) \<le> 11"
proof -
  have "- (2 ^ 31) \<le> sint w" "sint w < 2 ^ 31"
    using sint_ge [of w] sint_lt [of w] by simp_all
  then have "nat (- sint w) < 10 ^ 10" "nat (sint w) < 10 ^ 10" by simp_all
  from this [THEN length_digits] show ?thesis by (simp add: to_string_def)
qed

lemma to_string_nonempty [simp]: "to_string i \<noteq> []"
  by (simp add: to_string_def)

lemma word_ok_to_string [simp]: "word_ok (to_string i)"
  by (simp add: word_ok_def to_string_clean)

lemma word_ok_literals [simp]: "word_ok ''userSession''" "word_ok ''name''" "word_ok ''fd''"
  by (simp_all add: word_ok_def percent_free_def NUL_def)

lemma word_ok_cstr [simp]: "word_ok s \<Longrightarrow> cstr s = s"
  by (simp add: word_ok_def cstr_id)

text \<open>A client that has a pooled cluster context can send a command at once.\<close>

definition connected :: "'x KGRedisClient \<Rightarrow> bool" where
  "connected k \<longleftrightarrow> conType k = REDIS_CON_CLUSTER_TYPE \<and> m_clusterClients k \<noteq> []"

text \<open>One command over a connected client: the text sent, the reply decoded.\<close>

lemma spop_connected:
  assumes "connected k" and "cformat fmt args = Some cmd" and "length cmd < 100"
    and "NUL \<notin> set cmd"
    and "\<And>x. \<exists>rep out rd'. redis_command ra x cmd rd = (Some rep, rd') \<and>
               decode_reply rep = Inr (b, out) \<and> Q out rd'"
  shows "\<exists>out k' rd'. ExecuteCmd_spop ra pw fmt args response k rd = Inr (b, response @ out, k', rd') \<and>
           connected k' \<and> Q out rd'"
proof -
  obtain ctx rest where c: "m_clusterClients k = ctx # rest" "conType k = 1"
    using assms(1) by (auto simp: connected_def REDIS_CON_CLUSTER_TYPE_def neq_Nil_conv)
  obtain rep out rd' where r: "redis_command ra ctx cmd rd = (Some rep, rd')" "Q out rd'"
    and d: "decode_reply rep = Inr (b, out)"
    using assms(5) by blast
  have sn: "snprintf 100 fmt args = Inr (cmd @ [NUL])"
    using assms(2,3) by (simp add: snprintf_def)
  have t: "cstr (cmd @ [NUL]) = cmd"
    using assms(4) by (simp add: cstr_append_NUL)
  show ?thesis
    using c r d
    by (simp add: ExecuteCmd_defs sn t CreateClusterContext_def finish_cmd_def
        ReleaseClusterContext_def connected_def REDIS_CON_NORMAL_TYPE_def
        REDIS_CON_CLUSTER_TYPE_def)
qed

text \<open>The commands of the registry, one by one, over a documented Redis.\<close>

lemmas doc_sadd = redis_documented_def [THEN iffD1, THEN conjunct1, rule_format]
lemmas doc_rest1 = redis_documented_def [THEN iffD1, THEN conjunct2]
lemmas doc_srem = doc_rest1 [THEN conjunct1, rule_format]
lemmas doc_rest2 = doc_rest1 [THEN conjunct2]
lemmas doc_sismember = doc_rest2 [THEN conjunct1, rule_format]
lemmas doc_rest3 = doc_rest2 [THEN conjunct2]
lemmas doc_hmset = doc_rest3 [THEN conjunct1, rule_format]
lemmas doc_rest4 = doc_rest3 [THEN conjunct2]
lemmas doc_hget = doc_rest4 [THEN conjunct1, rule_format]
lemmas doc_del = doc_rest4 [THEN conjunct2, rule_format]

lemma word_ok_NUL: "word_ok s \<Longrightarrow> NUL \<notin> set s"
  by (simp add: word_ok_def)

lemma NUL_eq_Char [simp]:
  "NUL = Char b0 b1 b2 b3 b4 b5 b6 b7 \<longleftrightarrow>
   \<not> b0 \<and> \<not> b1 \<and> \<not> b2 \<and> \<not> b3 \<and> \<not> b4 \<and> \<not> b5 \<and> \<not> b6 \<and> \<not> b7"
  by (simp add: NUL_def)

lemma word_ok_percent: "word_ok s \<Longrightarrow> CHR ''%'' \<notin> set s"
  by (simp add: word_ok_def percent_free_def)

lemma exec_sadd:
  assumes "redis_documented ra view" "connected k" "word_ok s" "word_ok m" "no_hash (view rd) s"
    and "length s + length m \<le> 90"
  shows "\<exists>out k' rd'. ExecSadd ra pw response s m k rd = Inr (True, response @ out, k', rd') \<and>
     connected k' \<and>
     view rd' = (view rd)\<lparr>a_set := (a_set (view rd))(s := (a_set (view rd) s)(m := True))\<rparr>"
  unfolding ExecSadd_def
proof (rule spop_connected [where cmd = "''SADD '' @ s @ '' '' @ m" and Q = "\<lambda>out rd'. view rd' = _"])
  fix x
  show "\<exists>rep out rd'. redis_command ra x (''SADD '' @ s @ '' '' @ m) rd = (Some rep, rd') \<and>
     decode_reply rep = Inr (True, out) \<and>
     view rd' = (view rd)\<lparr>a_set := (a_set (view rd))(s := (a_set (view rd) s)(m := True))\<rparr>"
    using doc_sadd [OF assms(1,3,4,5), of x] by fastforce
qed (use assms in \<open>simp_all add: word_ok_NUL\<close>)

lemma exec_srem:
  assumes "redis_documented ra view" "connected k" "word_ok s" "word_ok m" "no_hash (view rd) s"
    and "length s + length m \<le> 90"
  shows "\<exists>out k' rd'. ExecSremove ra pw response s m k rd = Inr (True, response @ out, k', rd') \<and>
     connected k' \<and>
     view rd' = (view rd)\<lparr>a_set := (a_set (view rd))(s := (a_set (view rd) s)(m := False))\<rparr>"
  unfolding ExecSremove_def
proof (rule spop_connected [where cmd = "''SREM '' @ s @ '' '' @ m" and Q = "\<lambda>out rd'. view rd' = _"])
  fix x
  show "\<exists>rep out rd'. redis_command ra x (''SREM '' @ s @ '' '' @ m) rd = (Some rep, rd') \<and>
     decode_reply rep = Inr (True, out) \<and>
     view rd' = (view rd)\<lparr>a_set := (a_set (view rd))(s := (a_set (view rd) s)(m := False))\<rparr>"
    using doc_srem [OF assms(1,3,4,5), of x] by fastforce
qed (use assms in \<open>simp_all add: word_ok_NUL\<close>)

lemma to_string_1_0: "to_string 1 = ''1''" "to_string 0 = ''0''"
  by code_simp+

lemma exec_scontain:
  assumes "redis_documented ra view" "connected k" "word_ok s" "word_ok m" "no_hash (view rd) s"
    and "length s + length m \<le> 80"
  shows "\<exists>out k' rd'. ExecScontain ra pw [] s m k rd =
       Inr (a_set (view rd) s m, out, k', rd') \<and> connected k' \<and> view rd' = view rd"
proof -
  let ?r = "if a_set (view rd) s m then ''1'' else ''0''"
  have "\<exists>out k' rd'. ExecuteCmd_spop ra pw ''SISMEMBER %s %s'' [ArgS (cstr s), ArgS (cstr m)] [] k rd =
      Inr (True, [] @ out, k', rd') \<and> connected k' \<and> view rd' = view rd \<and> out = [?r]"
  proof (rule spop_connected [where cmd = "''SISMEMBER '' @ s @ '' '' @ m"
        and Q = "\<lambda>out rd'. view rd' = view rd \<and> out = [?r]"])
    fix x
    show "\<exists>rep out rd'. redis_command ra x (''SISMEMBER '' @ s @ '' '' @ m) rd = (Some rep, rd') \<and>
       decode_reply rep = Inr (True, out) \<and> view rd' = view rd \<and> out = [?r]"
      using doc_sismember [OF assms(1,3,4,5), of x] by (fastforce simp: to_string_1_0)
  qed (use assms in \<open>simp_all add: word_ok_NUL\<close>)
  then obtain k' rd' where
    "ExecuteCmd_spop ra pw ''SISMEMBER %s %s'' [ArgS (cstr s), ArgS (cstr m)] [] k rd =
       Inr (True, [?r], k', rd')" "connected k'" "view rd' = view rd"
    by auto
  then show ?thesis by (simp add: ExecScontain_def scontain_result_def)
qed

lemma exec_hget:
  assumes "redis_documented ra view" "connected k" "word_ok h" "word_ok f" "no_set (view rd) h"
    and "length h + length f \<le> 90"
  shows "\<exists>k' rd'. ExecHget ra pw [] h f k rd =
       Inr (True, [case a_hash (view rd) h f of None \<Rightarrow> [] | Some v \<Rightarrow> v], k', rd') \<and>
       connected k' \<and> view rd' = view rd"
proof -
  let ?r = "case a_hash (view rd) h f of None \<Rightarrow> [] | Some v \<Rightarrow> v"
  have "\<exists>out k' rd'. ExecuteCmd_spop ra pw ''hget %s %s'' [ArgS (cstr h), ArgS (cstr f)] [] k rd =
      Inr (True, [] @ out, k', rd') \<and> connected k' \<and> view rd' = view rd \<and> out = [?r]"
  proof (rule spop_connected [where cmd = "''hget '' @ h @ '' '' @ f"
        and Q = "\<lambda>out rd'. view rd' = view rd \<and> out = [?r]"])
    fix x
    show "\<exists>rep out rd'. redis_command ra x (''hget '' @ h @ '' '' @ f) rd = (Some rep, rd') \<and>
       decode_reply rep = Inr (True, out) \<and> view rd' = view rd \<and> out = [?r]"
      using doc_hget [OF assms(1,3,4,5), of x] by (cases "a_hash (view rd) h f") auto
  qed (use assms in \<open>simp_all add: word_ok_NUL\<close>)
  then show ?thesis by (auto simp: ExecHget_def)
qed

lemma exec_del:
  assumes "redis_documented ra view" "connected k" "word_ok h" "length h \<le> 90"
  shows "\<exists>out k' rd'. ExecDel ra pw response h k rd = Inr (True, response @ out, k', rd') \<and>
     connected k' \<and>
     view rd' = \<lparr>a_set = (a_set (view rd))(h := \<lambda>_. False), a_hash = (a_hash (view rd))(h := \<lambda>_. None)\<rparr>"
  unfolding ExecDel_def
proof (rule spop_connected [where cmd = "''DEL '' @ h" and Q = "\<lambda>out rd'. view rd' = _"])
  fix x
  show "\<exists>rep out rd'. redis_command ra x (''DEL '' @ h) rd = (Some rep, rd') \<and>
     decode_reply rep = Inr (True, out) \<and>
     view rd' = \<lparr>a_set = (a_set (view rd))(h := \<lambda>_. False), a_hash = (a_hash (view rd))(h := \<lambda>_. None)\<rparr>"
    using doc_del [OF assms(1,3), of x] by fastforce
qed (use assms in \<open>simp_all add: word_ok_NUL\<close>)

lemma exec_hmset:
  assumes "redis_documented ra view" "connected k" "word_ok h" "word_ok f" "word_ok v" "word_ok g"
    "word_ok u" "no_set (view rd) h"
    and "length h + length f + length v + length g + length u \<le> 89"
  shows "\<exists>out k' rd'. ExecHMset ra pw response h [(f, v), (g, u)] k rd =
       Inr (True, response @ out, k', rd') \<and> connected k' \<and>
       view rd' = (view rd)\<lparr>a_hash := (a_hash (view rd))(h := (a_hash (view rd) h)(f \<mapsto> v, g \<mapsto> u))\<rparr>"
  unfolding ExecHMset_def
proof (rule spop_connected [where cmd = "''HMSET '' @ h @ '' '' @ f @ '' '' @ v @ '' '' @ g @ '' '' @ u"
      and Q = "\<lambda>out rd'. view rd' = _"])
  let ?t = "''HMSET '' @ h @ '' '' @ f @ '' '' @ v @ '' '' @ g @ '' '' @ u"
  have "NUL \<notin> set ?t" "percent_free ?t"
    using assms by (auto simp: word_ok_NUL percent_free_def dest: word_ok_percent)
  moreover have "hmset_text h [(f, v), (g, u)] = ?t" by (simp add: hmset_text_def)
  ultimately show "cformat (cstr (hmset_text h [(f, v), (g, u)])) [] = Some ?t"
    by (simp only: cstr_id cformat_plain not_False_eq_True)
  fix x
  show "\<exists>rep out rd'. redis_command ra x ?t rd = (Some rep, rd') \<and> decode_reply rep = Inr (True, out) \<and>
     view rd' = (view rd)\<lparr>a_hash := (a_hash (view rd))(h := (a_hash (view rd) h)(f \<mapsto> v, g \<mapsto> u))\<rparr>"
    using doc_hmset [OF assms(1,3-8), of x] by fastforce
qed (use assms in \<open>simp_all add: word_ok_NUL\<close>)

section \<open>The registry implements its abstract specification\<close>

text \<open>
  The abstract registry: who is online, under which name and on which socket. Each
  operation of the code changes the view of the Redis state as the abstract one says.
\<close>

definition session_add :: "s32 \<Rightarrow> string \<Rightarrow> s32 \<Rightarrow> redis_abs \<Rightarrow> redis_abs" where
  "session_add i name fd A =
     (let key = to_string (sint i)
      in \<lparr>a_set = (a_set A)(''userSession'' := (a_set A ''userSession'')(key := True)),
          a_hash = (a_hash A)(key :=
            (a_hash A key)(''name'' \<mapsto> name, ''fd'' \<mapsto> to_string (sint fd)))\<rparr>)"

definition session_remove :: "s32 \<Rightarrow> redis_abs \<Rightarrow> redis_abs" where
  "session_remove i A =
     (let key = to_string (sint i)
      in \<lparr>a_set = (a_set A)(''userSession'' := (a_set A ''userSession'')(key := False)),
          a_hash = (a_hash A)(key := \<lambda>_. None)\<rparr>)"

definition session_online :: "s32 \<Rightarrow> redis_abs \<Rightarrow> bool" where
  "session_online i A \<longleftrightarrow> a_set A ''userSession'' (to_string (sint i))"

text \<open>\<open>userSession\<close> holds a set, and no set is stored under the number of a user.\<close>

definition registry_ok :: "redis_abs \<Rightarrow> bool" where
  "registry_ok A \<longleftrightarrow> no_hash A ''userSession'' \<and> (\<forall>i::s32. no_set A (to_string (sint i)))"

lemma number_not_session: "to_string i \<noteq> ''userSession''"
proof
  assume "to_string i = ''userSession''"
  then have "CHR ''u'' \<in> set (to_string i)" by simp
  then show False using set_to_string by (fastforce simp: is_digit_def)
qed

lemmas number_not_session' = number_not_session number_not_session [symmetric]

lemma registry_ok_add: "registry_ok A \<Longrightarrow> registry_ok (session_add i name fd A)"
  by (simp add: registry_ok_def session_add_def no_hash_def no_set_def Let_def
      number_not_session')

lemma registry_ok_remove: "registry_ok A \<Longrightarrow> registry_ok (session_remove i A)"
  by (simp add: registry_ok_def session_remove_def no_hash_def no_set_def Let_def
      number_not_session')

lemma add_refines:
  assumes doc: "redis_documented ra view" and con: "connected k" and reg: "registry_ok (view rd)"
    and nm: "word_ok name" "length name \<le> 61"
  shows "\<exists>k' rd'. addSessionTalker ra pw i name fd k rd = Inr (True, k', rd') \<and> connected k' \<and>
           view rd' = session_add i name fd (view rd)"
proof -
  let ?id = "to_string (sint i)" and ?fd = "to_string (sint fd)"
  have len: "length ?id \<le> 11" "length ?fd \<le> 11" by (rule length_to_string_s32)+
  let ?A1 = "(view rd)\<lparr>a_set := (a_set (view rd))(''userSession'' :=
               (a_set (view rd) ''userSession'')(?id := True))\<rparr>"
  have "no_hash (view rd) ''userSession''" using reg by (simp add: registry_ok_def)
  then obtain out k1 rd1 where 1: "ExecSadd ra pw [] ''userSession'' ?id k rd = Inr (True, out, k1, rd1)"
    and c1: "connected k1" and v1: "view rd1 = ?A1"
    using exec_sadd [OF doc con, of "''userSession''" ?id rd pw "[]"] len by auto
  have "no_set (view rd1) ?id"
    using reg by (simp add: registry_ok_def no_set_def v1 number_not_session')
  then obtain out2 k2 rd2 where
    2: "ExecHMset ra pw out ?id [(''name'', name), (''fd'', ?fd)] k1 rd1 = Inr (True, out2, k2, rd2)"
    and c2: "connected k2"
    and v2: "view rd2 = (view rd1)\<lparr>a_hash := (a_hash (view rd1))
               (?id := (a_hash (view rd1) ?id)(''name'' \<mapsto> name, ''fd'' \<mapsto> ?fd))\<rparr>"
    using exec_hmset [OF doc c1, of ?id "''name''" name "''fd''" ?fd rd1 pw out] len nm by auto
  show ?thesis
    using c2 by (simp add: addSessionTalker_def 1 2 Let_def v1 v2 session_add_def)
qed

lemma online_refines:
  assumes "redis_documented ra view" "connected k" "registry_ok (view rd)"
  shows "\<exists>k' rd'. isTalkerOnline ra pw i k rd = Inr (session_online i (view rd), k', rd') \<and>
           connected k' \<and> view rd' = view rd"
  using exec_scontain [OF assms(1,2), of "''userSession''" "to_string (sint i)" rd pw] assms(3)
    length_to_string_s32 [of i]
  by (auto simp: isTalkerOnline_def session_online_def registry_ok_def)

lemma remove_refines:
  assumes doc: "redis_documented ra view" and con: "connected k" and reg: "registry_ok (view rd)"
  shows "\<exists>k' rd'. removeSessionTalker ra pw i k rd = Inr (True, k', rd') \<and> connected k' \<and>
           view rd' = session_remove i (view rd)"
proof -
  let ?id = "to_string (sint i)"
  have len: "length ?id \<le> 11" by (rule length_to_string_s32)
  obtain out k1 rd1 where 1: "ExecSremove ra pw [] ''userSession'' ?id k rd = Inr (True, out, k1, rd1)"
    and c1: "connected k1"
    and v1: "view rd1 = (view rd)\<lparr>a_set := (a_set (view rd))(''userSession'' :=
               (a_set (view rd) ''userSession'')(?id := False))\<rparr>"
    using exec_srem [OF doc con, of "''userSession''" ?id rd pw "[]"] len reg
    by (auto simp: registry_ok_def)
  obtain out2 k2 rd2 where 2: "ExecDel ra pw out ?id k1 rd1 = Inr (True, out2, k2, rd2)"
    and c2: "connected k2"
    and v2: "view rd2 = \<lparr>a_set = (a_set (view rd1))(?id := \<lambda>_. False),
                         a_hash = (a_hash (view rd1))(?id := \<lambda>_. None)\<rparr>"
    using exec_del [OF doc c1, of ?id pw out rd1] len by auto
  have "(a_set (view rd1))(?id := \<lambda>_. False) = a_set (view rd1)"
    using reg by (auto simp: v1 registry_ok_def no_set_def fun_upd_def number_not_session')
  then show ?thesis
    using c2 by (simp add: removeSessionTalker_def 1 2 v1 v2 session_remove_def Let_def)
qed

lemma fd_refines:
  assumes "redis_documented ra view" "connected k" "registry_ok (view rd)"
  shows "\<exists>k' rd'. getTalkerFd ra pw i k rd =
           Inr (atoi (case a_hash (view rd) (to_string (sint i)) ''fd'' of None \<Rightarrow> [] | Some v \<Rightarrow> v), k', rd') \<and>
           connected k' \<and> view rd' = view rd"
proof -
  have "length (to_string (sint i)) + length ''fd'' \<le> 90" "no_set (view rd) (to_string (sint i))"
    using length_to_string_s32 [of i] assms(3) by (simp_all add: registry_ok_def)
  then obtain k' rd' where
    "ExecHget ra pw [] (to_string (sint i)) ''fd'' k rd =
       Inr (True, [case a_hash (view rd) (to_string (sint i)) ''fd'' of None \<Rightarrow> [] | Some v \<Rightarrow> v], k', rd')"
    "connected k'" "view rd' = view rd"
    using exec_hget [OF assms(1,2), of "to_string (sint i)" "''fd''" rd pw] by auto
  then show ?thesis by (simp add: getTalkerFd_def)
qed

lemma name_refines:
  assumes "redis_documented ra view" "connected k" "registry_ok (view rd)"
  shows "\<exists>k' rd'. getTalkerName ra pw i k rd =
           Inr (Some (case a_hash (view rd) (to_string (sint i)) ''name'' of None \<Rightarrow> [] | Some v \<Rightarrow> v), k', rd') \<and>
           connected k' \<and> view rd' = view rd"
proof -
  have "length (to_string (sint i)) + length ''name'' \<le> 90" "no_set (view rd) (to_string (sint i))"
    using length_to_string_s32 [of i] assms(3) by (simp_all add: registry_ok_def)
  then obtain k' rd' where
    "ExecHget ra pw [] (to_string (sint i)) ''name'' k rd =
       Inr (True, [case a_hash (view rd) (to_string (sint i)) ''name'' of None \<Rightarrow> [] | Some v \<Rightarrow> v], k', rd')"
    "connected k'" "view rd' = view rd"
    using exec_hget [OF assms(1,2), of "to_string (sint i)" "''name''" rd pw] by auto
  then show ?thesis by (simp add: getTalkerName_def)
qed

section \<open>The registry as its clients see it\<close>

text \<open>
  What the tasks of the server rely on: while the store is up, every operation succeeds,
  leaves it up, and answers and changes the sessions as the abstract registry does.
\<close>

definition session_fd :: "s32 \<Rightarrow> redis_abs \<Rightarrow> s32" where
  "session_fd i A = atoi (case a_hash A (to_string (sint i)) ''fd'' of None \<Rightarrow> [] | Some v \<Rightarrow> v)"

definition session_name :: "s32 \<Rightarrow> redis_abs \<Rightarrow> string" where
  "session_name i A = (case a_hash A (to_string (sint i)) ''name'' of None \<Rightarrow> [] | Some v \<Rightarrow> v)"

lemma to_string_s32_inj: "to_string (sint (i :: s32)) = to_string (sint j) \<longleftrightarrow> i = j"
  by (metis atoi_to_string)

lemma session_after:
  "session_online i (session_add i name fd A)" "session_fd i (session_add i name fd A) = fd"
  "session_name i (session_add i name fd A) = name"
  "\<not> session_online i (session_remove i A)" "session_fd i (session_remove i A) = 0"
  by (simp_all add: session_online_def session_fd_def session_name_def session_add_def session_remove_def
      Let_def atoi_to_string) code_simp

lemma session_other:
  assumes "j \<noteq> i"
  shows "session_online j (session_add i name fd A) = session_online j A"
    "session_fd j (session_add i name fd A) = session_fd j A"
    "session_online j (session_remove i A) = session_online j A"
    "session_fd j (session_remove i A) = session_fd j A"
  using assms by (simp_all add: session_online_def session_fd_def session_add_def session_remove_def
      Let_def to_string_s32_inj)

locale session_registry =
  fixes up :: "'k \<Rightarrow> 'rd \<Rightarrow> bool" and sessions :: "'k \<Rightarrow> 'rd \<Rightarrow> redis_abs"
    and add :: "s32 \<Rightarrow> string \<Rightarrow> s32 \<Rightarrow> 'k \<Rightarrow> 'rd \<Rightarrow> (bool \<times> 'k \<times> 'rd) res"
    and remove :: "s32 \<Rightarrow> 'k \<Rightarrow> 'rd \<Rightarrow> (bool \<times> 'k \<times> 'rd) res"
    and is_online :: "s32 \<Rightarrow> 'k \<Rightarrow> 'rd \<Rightarrow> (bool \<times> 'k \<times> 'rd) res"
    and get_fd :: "s32 \<Rightarrow> 'k \<Rightarrow> 'rd \<Rightarrow> (s32 \<times> 'k \<times> 'rd) res"
    and get_name :: "s32 \<Rightarrow> 'k \<Rightarrow> 'rd \<Rightarrow> (string option \<times> 'k \<times> 'rd) res"
  assumes add_law: "up k rd \<Longrightarrow> word_ok name \<Longrightarrow> length name \<le> 61 \<Longrightarrow>
      \<exists>k' rd'. add i name fd k rd = Inr (True, k', rd') \<and> up k' rd' \<and>
        sessions k' rd' = session_add i name fd (sessions k rd)"
    and remove_law: "up k rd \<Longrightarrow> \<exists>k' rd'. remove i k rd = Inr (True, k', rd') \<and> up k' rd' \<and>
        sessions k' rd' = session_remove i (sessions k rd)"
    and online_law: "up k rd \<Longrightarrow> \<exists>k' rd'. is_online i k rd = Inr (session_online i (sessions k rd), k', rd') \<and>
        up k' rd' \<and> sessions k' rd' = sessions k rd"
    and fd_law: "up k rd \<Longrightarrow> \<exists>k' rd'. get_fd i k rd = Inr (session_fd i (sessions k rd), k', rd') \<and>
        up k' rd' \<and> sessions k' rd' = sessions k rd"
    and name_law: "up k rd \<Longrightarrow> \<exists>k' rd'. get_name i k rd = Inr (Some (session_name i (sessions k rd)), k', rd') \<and>
        up k' rd' \<and> sessions k' rd' = sessions k rd"
begin

text \<open>What the operations report after a user was added or removed, of this user and of others.\<close>

lemma added:
  assumes "up k rd" "word_ok name" "length name \<le> 61"
  shows "\<exists>k1 rd1. add i name fd k rd = Inr (True, k1, rd1) \<and>
     (\<exists>k2 rd2. is_online i k1 rd1 = Inr (True, k2, rd2)) \<and>
     (\<exists>k2 rd2. get_fd i k1 rd1 = Inr (fd, k2, rd2)) \<and>
     (\<exists>k2 rd2. get_name i k1 rd1 = Inr (Some name, k2, rd2)) \<and>
     (\<forall>j. j \<noteq> i \<longrightarrow>
        (\<exists>k2 rd2. is_online j k1 rd1 = Inr (session_online j (sessions k rd), k2, rd2)) \<and>
        (\<exists>k2 rd2. get_fd j k1 rd1 = Inr (session_fd j (sessions k rd), k2, rd2)))"
proof -
  obtain k1 rd1 where 1: "add i name fd k rd = Inr (True, k1, rd1)" "up k1 rd1"
    "sessions k1 rd1 = session_add i name fd (sessions k rd)"
    using add_law [OF assms] by blast
  have o: "\<exists>k2 rd2. is_online j k1 rd1 = Inr (session_online j (session_add i name fd (sessions k rd)), k2, rd2)"
    and f: "\<exists>k2 rd2. get_fd j k1 rd1 = Inr (session_fd j (session_add i name fd (sessions k rd)), k2, rd2)"
    and n: "\<exists>k2 rd2. get_name j k1 rd1 = Inr (Some (session_name j (session_add i name fd (sessions k rd))), k2, rd2)"
    for j using online_law [OF 1(2), of j] fd_law [OF 1(2), of j] name_law [OF 1(2), of j] unfolding 1(3) by blast+
  have others: "\<forall>j. j \<noteq> i \<longrightarrow>
      (\<exists>k2 rd2. is_online j k1 rd1 = Inr (session_online j (sessions k rd), k2, rd2)) \<and>
      (\<exists>k2 rd2. get_fd j k1 rd1 = Inr (session_fd j (sessions k rd), k2, rd2))"
  proof (intro allI impI)
    fix j assume "j \<noteq> i"
    then show "(\<exists>k2 rd2. is_online j k1 rd1 = Inr (session_online j (sessions k rd), k2, rd2)) \<and>
        (\<exists>k2 rd2. get_fd j k1 rd1 = Inr (session_fd j (sessions k rd), k2, rd2))"
      using o [of j] f [of j] by (simp add: session_other(1,2))
  qed
  show ?thesis
    using 1(1) o [of i] f [of i] n [of i] others unfolding session_after(1-3) by (simp add: session_after(1))
qed

lemma removed:
  assumes "up k rd"
  shows "\<exists>k1 rd1. remove i k rd = Inr (True, k1, rd1) \<and>
     (\<exists>k2 rd2. is_online i k1 rd1 = Inr (False, k2, rd2)) \<and>
     (\<exists>k2 rd2. get_fd i k1 rd1 = Inr (0, k2, rd2)) \<and>
     (\<forall>j. j \<noteq> i \<longrightarrow>
        (\<exists>k2 rd2. is_online j k1 rd1 = Inr (session_online j (sessions k rd), k2, rd2)) \<and>
        (\<exists>k2 rd2. get_fd j k1 rd1 = Inr (session_fd j (sessions k rd), k2, rd2)))"
proof -
  obtain k1 rd1 where 1: "remove i k rd = Inr (True, k1, rd1)" "up k1 rd1"
    "sessions k1 rd1 = session_remove i (sessions k rd)"
    using remove_law [OF assms] by blast
  have o: "\<exists>k2 rd2. is_online j k1 rd1 = Inr (session_online j (session_remove i (sessions k rd)), k2, rd2)"
    and f: "\<exists>k2 rd2. get_fd j k1 rd1 = Inr (session_fd j (session_remove i (sessions k rd)), k2, rd2)"
    for j using online_law [OF 1(2), of j] fd_law [OF 1(2), of j] unfolding 1(3) by blast+
  have others: "\<forall>j. j \<noteq> i \<longrightarrow>
      (\<exists>k2 rd2. is_online j k1 rd1 = Inr (session_online j (sessions k rd), k2, rd2)) \<and>
      (\<exists>k2 rd2. get_fd j k1 rd1 = Inr (session_fd j (sessions k rd), k2, rd2))"
  proof (intro allI impI)
    fix j assume "j \<noteq> i"
    then show "(\<exists>k2 rd2. is_online j k1 rd1 = Inr (session_online j (sessions k rd), k2, rd2)) \<and>
        (\<exists>k2 rd2. get_fd j k1 rd1 = Inr (session_fd j (sessions k rd), k2, rd2))"
      using o [of j] f [of j] by (simp add: session_other(3,4))
  qed
  show ?thesis
    using 1(1) o [of i] f [of i] others unfolding session_after(5) by (simp add: session_after(4))
qed

end

definition registry_up :: "('x, 'rd) redis \<Rightarrow> ('rd \<Rightarrow> redis_abs) \<Rightarrow> 'x KGRedisClient \<Rightarrow> 'rd \<Rightarrow> bool" where
  "registry_up ra view k rd \<longleftrightarrow> redis_documented ra view \<and> connected k \<and> registry_ok (view rd)"

interpretation reg: session_registry "registry_up ra view" "\<lambda>_ rd. view rd" "addSessionTalker ra pw"
    "removeSessionTalker ra pw" "isTalkerOnline ra pw" "getTalkerFd ra pw" "getTalkerName ra pw"
    for ra :: "('x, 'rd) redis" and view :: "'rd \<Rightarrow> redis_abs" and pw :: string
proof unfold_locales
  fix k :: "'x KGRedisClient" and rd :: 'rd and i fd :: s32 and name
  assume u: "registry_up ra view k rd"
  then have d: "redis_documented ra view" "connected k" "registry_ok (view rd)" by (simp_all add: registry_up_def)
  show "\<exists>k' rd'. removeSessionTalker ra pw i k rd = Inr (True, k', rd') \<and> registry_up ra view k' rd' \<and>
      view rd' = session_remove i (view rd)"
    using remove_refines [OF d, of pw i] d by (auto simp: registry_up_def registry_ok_remove)
  show "\<exists>k' rd'. isTalkerOnline ra pw i k rd = Inr (session_online i (view rd), k', rd') \<and>
      registry_up ra view k' rd' \<and> view rd' = view rd"
    using online_refines [OF d, of pw i] d by (auto simp: registry_up_def)
  show "\<exists>k' rd'. getTalkerFd ra pw i k rd = Inr (session_fd i (view rd), k', rd') \<and>
      registry_up ra view k' rd' \<and> view rd' = view rd"
    using fd_refines [OF d, of pw i] d by (auto simp: registry_up_def session_fd_def)
  show "\<exists>k' rd'. getTalkerName ra pw i k rd = Inr (Some (session_name i (view rd)), k', rd') \<and>
      registry_up ra view k' rd' \<and> view rd' = view rd"
    using name_refines [OF d, of pw i] d by (auto simp: registry_up_def session_name_def)
  assume "word_ok name" "length name \<le> 61"
  with add_refines [OF d this, of pw i fd] d show "\<exists>k' rd'. addSessionTalker ra pw i name fd k rd = Inr (True, k', rd') \<and>
      registry_up ra view k' rd' \<and> view rd' = session_add i name fd (view rd)"
    by (auto simp: registry_up_def registry_ok_add)
qed

section \<open>A small Redis\<close>

text \<open>
  A model of the documented commands, to show that the laws can hold and to run the
  registry on: it splits the command line at spaces.
\<close>

definition mini_command :: "nat \<Rightarrow> string \<Rightarrow> redis_abs \<Rightarrow> reply option \<times> redis_abs" where
  "mini_command x cmd A =
     (case split_char (CHR '' '') cmd of
        [c, s] \<Rightarrow>
          if c = ''DEL'' then
            (Some (RInteger 1), \<lparr>a_set = (a_set A)(s := \<lambda>_. False), a_hash = (a_hash A)(s := \<lambda>_. None)\<rparr>)
          else (Some (RError ''ERR''), A)
      | [c, s, m] \<Rightarrow>
          if c = ''SADD'' then
            (Some (RInteger 1), A\<lparr>a_set := (a_set A)(s := (a_set A s)(m := True))\<rparr>)
          else if c = ''SREM'' then
            (Some (RInteger 1), A\<lparr>a_set := (a_set A)(s := (a_set A s)(m := False))\<rparr>)
          else if c = ''SISMEMBER'' then
            (Some (RInteger (if a_set A s m then 1 else 0)), A)
          else if c = ''hget'' then
            (Some (case a_hash A s m of None \<Rightarrow> RNil | Some v \<Rightarrow> RString v), A)
          else (Some (RError ''ERR''), A)
      | [c, h, f, v, g, u] \<Rightarrow>
          if c = ''HMSET'' then
            (Some (RStatus ''OK''), A\<lparr>a_hash := (a_hash A)(h := (a_hash A h)(f \<mapsto> v, g \<mapsto> u))\<rparr>)
          else (Some (RError ''ERR''), A)
      | _ \<Rightarrow> (Some (RError ''ERR''), A))"

definition mini_redis :: "(nat, redis_abs) redis" where
  "mini_redis = \<lparr>time_now = (\<lambda>_. 0), ctx_connect = (\<lambda>A. (CtxOk 0, A)), redis_command = mini_command\<rparr>"

definition mini_empty :: redis_abs where
  "mini_empty = \<lparr>a_set = (\<lambda>_ _. False), a_hash = (\<lambda>_ _. None)\<rparr>"

definition mini_client :: "nat KGRedisClient" where
  "mini_client =
     \<lparr>conType = REDIS_CON_CLUSTER_TYPE, m_clients = [], m_clusterClients = [0], m_beginInvalidTime = 0, cmdBuf = []\<rparr>"

lemma word_ok_space: "word_ok s \<Longrightarrow> CHR '' '' \<notin> set s"
  by (simp add: word_ok_def)

lemma mini_documented: "redis_documented mini_redis (\<lambda>A. A)"
  unfolding redis_documented_def mini_redis_def mini_command_def
  by (simp add: word_ok_space split_char_sep split_char_no_sep)

lemma mini_connected: "connected mini_client"
  by (simp add: connected_def mini_client_def)

lemma mini_registry: "registry_ok mini_empty"
  by (simp add: registry_ok_def mini_empty_def no_hash_def no_set_def)

section \<open>Properties\<close>

text \<open>A sequence of registrations and removals, on the code and on the abstract registry.\<close>

datatype session_op = OpAdd s32 string s32 | OpRemove s32

fun run_sessions ::
  "('x, 'rd) redis \<Rightarrow> string \<Rightarrow> session_op list \<Rightarrow> 'x KGRedisClient \<Rightarrow> 'rd \<Rightarrow> ('x KGRedisClient \<times> 'rd) res" where
  "run_sessions ra pw [] k rd = Inr (k, rd)"
| "run_sessions ra pw (OpAdd i name fd # ops) k rd =
     bind_res (addSessionTalker ra pw i name fd k rd) (\<lambda>(_, k1, rd1). run_sessions ra pw ops k1 rd1)"
| "run_sessions ra pw (OpRemove i # ops) k rd =
     bind_res (removeSessionTalker ra pw i k rd) (\<lambda>(_, k1, rd1). run_sessions ra pw ops k1 rd1)"

fun abs_session :: "session_op \<Rightarrow> redis_abs \<Rightarrow> redis_abs" where
  "abs_session (OpAdd i name fd) A = session_add i name fd A"
| "abs_session (OpRemove i) A = session_remove i A"

fun session_op_ok :: "session_op \<Rightarrow> bool" where
  "session_op_ok (OpAdd i name fd) = (word_ok name \<and> length name \<le> 61)"
| "session_op_ok (OpRemove i) = True"

text \<open>C12: The session registry implements its abstract specification: over a Redis that behaves
  as documented, any sequence of registrations (of names that are single words) and removals
  succeeds and takes the Redis state to the one the abstract operations give.\<close>

theorem registry_refines:
  assumes "redis_documented ra view" and "connected k" and "registry_ok (view rd)"
    and "\<forall>x \<in> set ops. session_op_ok x"
  shows "\<exists>k' rd'. run_sessions ra pw ops k rd = Inr (k', rd') \<and> connected k' \<and>
           registry_ok (view rd') \<and> view rd' = fold abs_session ops (view rd)"
  using assms(2-)
proof (induction ops arbitrary: k rd)
  case Nil
  then show ?case by simp
next
  case (Cons x ops)
  have "\<exists>b k1 rd1. run_sessions ra pw (x # ops) k rd = run_sessions ra pw ops k1 rd1 \<and>
          connected k1 \<and> registry_ok (view rd1) \<and> view rd1 = abs_session x (view rd)"
  proof (cases x)
    case (OpAdd i name fd)
    then show ?thesis
      using add_refines [OF assms(1) Cons.prems(1,2), of name pw i fd] Cons.prems(2,3)
        registry_ok_add [of "view rd" i name fd] by force
  next
    case (OpRemove i)
    then show ?thesis
      using remove_refines [OF assms(1) Cons.prems(1,2), of pw i] Cons.prems(2)
        registry_ok_remove [of "view rd" i] by force
  qed
  with Cons.IH Cons.prems(3) show ?case by fastforce
qed

theorem registry_refines_witness:
  "\<exists>k' rd'. run_sessions mini_redis [] [OpAdd 5 ''bob'' 9] mini_client mini_empty = Inr (k', rd') \<and>
     session_online 5 rd'"
proof -
  have "\<forall>x \<in> set [OpAdd 5 ''bob'' 9]. session_op_ok x"
    by (simp add: word_ok_def percent_free_def NUL_def)
  from registry_refines [OF mini_documented mini_connected mini_registry this, of "[]"]
  show ?thesis by (auto simp: session_online_def session_add_def Let_def)
qed

text \<open>After a user was registered, the registry reports the user online, with exactly the
  registered socket and name, and what it reports of any other user is what it was.\<close>

lemma session_lookup:
  assumes doc: "redis_documented ra view" and con: "connected k" and reg: "registry_ok (view rd)"
    and nm: "word_ok name" "length name \<le> 61"
  shows "\<exists>k1 rd1. addSessionTalker ra pw i name fd k rd = Inr (True, k1, rd1) \<and>
     (\<exists>k2 rd2. isTalkerOnline ra pw i k1 rd1 = Inr (True, k2, rd2)) \<and>
     (\<exists>k2 rd2. getTalkerFd ra pw i k1 rd1 = Inr (fd, k2, rd2)) \<and>
     (\<exists>k2 rd2. getTalkerName ra pw i k1 rd1 = Inr (Some name, k2, rd2)) \<and>
     (\<forall>j. j \<noteq> i \<longrightarrow>
        (\<exists>k2 rd2. isTalkerOnline ra pw j k1 rd1 = Inr (session_online j (view rd), k2, rd2)) \<and>
        (\<exists>k2 rd2. getTalkerFd ra pw j k1 rd1 = Inr (session_fd j (view rd), k2, rd2)))"
  by (rule reg.added [where view = view]) (simp_all add: registry_up_def doc con reg nm)

lemma session_lookup_example:
  "\<exists>k1 rd1. addSessionTalker mini_redis [] 5 ''bob'' 9 mini_client mini_empty = Inr (True, k1, rd1) \<and>
     (\<exists>k2 rd2. getTalkerFd mini_redis [] 5 k1 rd1 = Inr (9, k2, rd2))"
proof -
  have "word_ok ''bob''" by (simp add: word_ok_def percent_free_def NUL_def)
  from session_lookup [OF mini_documented mini_connected mini_registry this, of "[]" 5 9]
  show ?thesis by auto
qed

text \<open>Looking up the socket of a user without a session does not fail: it yields socket 0,
  not the -1 of the error path.\<close>

lemma session_absent_fd:
  assumes doc: "redis_documented ra view" and con: "connected k" and reg: "registry_ok (view rd)"
  shows "\<exists>k1 rd1. removeSessionTalker ra pw i k rd = Inr (True, k1, rd1) \<and>
     (\<exists>k2 rd2. isTalkerOnline ra pw i k1 rd1 = Inr (False, k2, rd2)) \<and>
     (\<exists>k2 rd2. getTalkerFd ra pw i k1 rd1 = Inr (0, k2, rd2))"
  using reg.removed [of ra view k rd pw i] doc con reg by (auto simp: registry_up_def)

end
