(* ===== verification/MysqlPool.thy ===== *)
theory MysqlPool
  imports CLib
begin

text \<open>
  The connection pool of \<^verbatim>\<open>smer/Mysql\<close>. Connections are opaque (type \<open>'c\<close>). MySQL
  Connector/C++ and the server behind it are a parameter: a record of functions over
  the database's state \<open>'db\<close>, each giving None where the call throws. Result sets are
  lists of rows (\<open>'row\<close>), \<open>next\<close> moves along them.
\<close>

section \<open>The connector\<close>

record ('c, 'db, 'row) mysql =
  isClosed :: "'c \<Rightarrow> 'db \<Rightarrow> bool"
  connect :: "'db \<Rightarrow> 'c option \<times> 'db"
  prepare :: "'c \<Rightarrow> 'db \<Rightarrow> bool"
  executeQuery :: "'c \<Rightarrow> string \<Rightarrow> 'db \<Rightarrow> 'row list option"
  executeUpdate :: "'c \<Rightarrow> string \<Rightarrow> 'db \<Rightarrow> int option \<times> 'db"
  getString :: "'row \<Rightarrow> string \<Rightarrow> string option"
  getInt :: "'row \<Rightarrow> string \<Rightarrow> s32 option"

section \<open>The pool\<close>

record 'c MysqlPool =
  connList :: "'c list"
  curSize :: int
  maxSize :: int

text \<open>\<open>CreateConnection\<close> turns every exception of the driver into a null pointer.\<close>

definition CreateConnection :: "('c, 'db, 'row) mysql \<Rightarrow> 'db \<Rightarrow> 'c option \<times> 'db" where
  "CreateConnection api db = connect api db"

fun InitConnection ::
  "('c, 'db, 'row) mysql \<Rightarrow> nat \<Rightarrow> 'c MysqlPool \<Rightarrow> 'db \<Rightarrow> 'c MysqlPool \<times> 'db" where
  "InitConnection api 0 p db = (p, db)"
| "InitConnection api (Suc n) p db =
     (case CreateConnection api db of
        (Some conn, db1) \<Rightarrow>
          InitConnection api n (p\<lparr>connList := connList p @ [conn], curSize := curSize p + 1\<rparr>) db1
      | (None, db1) \<Rightarrow> InitConnection api n p db1)"

definition initPool ::
  "('c, 'db, 'row) mysql \<Rightarrow> int \<Rightarrow> 'c MysqlPool \<Rightarrow> 'db \<Rightarrow> 'c MysqlPool \<times> 'db" where
  "initPool api maxSizeA p db =
     InitConnection api (nat (maxSizeA div 2)) (p\<lparr>maxSize := maxSizeA, curSize := 0\<rparr>) db"

definition GetConnection ::
  "('c, 'db, 'row) mysql \<Rightarrow> 'c MysqlPool \<Rightarrow> 'db \<Rightarrow> 'c option \<times> 'c MysqlPool \<times> 'db" where
  "GetConnection api p db =
     (case connList p of
        conn # rest \<Rightarrow>
          (let p1 = p\<lparr>connList := rest\<rparr>;
               (c, db1) = (if isClosed api conn db then CreateConnection api db else (Some conn, db))
           in (case c of
                 None \<Rightarrow> (None, p1\<lparr>curSize := curSize p1 - 1\<rparr>, db1)
               | Some _ \<Rightarrow> (c, p1, db1)))
      | [] \<Rightarrow>
          if curSize p < maxSize p
          then (case CreateConnection api db of
                  (Some conn, db1) \<Rightarrow> (Some conn, p\<lparr>curSize := curSize p + 1\<rparr>, db1)
                | (None, db1) \<Rightarrow> (None, p, db1))
          else (None, p, db))"

definition ReleaseConnection :: "'c option \<Rightarrow> 'c MysqlPool \<Rightarrow> 'c MysqlPool" where
  "ReleaseConnection conn p =
     (case conn of None \<Rightarrow> p | Some c \<Rightarrow> p\<lparr>connList := connList p @ [c]\<rparr>)"

text \<open>
  Closing a connection is the connector's (\<open>close\<close>); the exceptions it throws are caught,
  and the object is deleted.
\<close>

definition DestoryConnection :: "('c \<Rightarrow> 'db \<Rightarrow> 'db) \<Rightarrow> 'c option \<Rightarrow> 'db \<Rightarrow> 'db" where
  "DestoryConnection close conn db = (case conn of None \<Rightarrow> db | Some c \<Rightarrow> close c db)"

definition DestoryConnPool :: "('c \<Rightarrow> 'db \<Rightarrow> 'db) \<Rightarrow> 'c MysqlPool \<Rightarrow> 'db \<Rightarrow> 'c MysqlPool \<times> 'db" where
  "DestoryConnPool close p db =
     (p\<lparr>curSize := 0, connList := []\<rparr>, fold (\<lambda>c. DestoryConnection close (Some c)) (connList p) db)"

section \<open>Statements\<close>

text \<open>
  A call returns, or lets an exception escape: \<open>setSchema\<close>, \<open>createStatement\<close> and the
  like run outside the \<open>try\<close> block. The command text is cut to 99 characters by
  \<open>vsnprintf(cmdBuf, 100, ...)\<close>. A null result set is None.
\<close>

datatype 'a call = Ret 'a | Thrown

definition sql_text :: "string \<Rightarrow> fmt_arg list \<Rightarrow> string res" where
  "sql_text fmt args = bind_res (snprintf 100 fmt args) (\<lambda>b. Inr (cstr b))"

definition ExecQuery ::
  "('c, 'db, 'row) mysql \<Rightarrow> string \<Rightarrow> fmt_arg list \<Rightarrow> 'c MysqlPool \<Rightarrow> 'db \<Rightarrow>
   ('row list option call \<times> 'c MysqlPool \<times> 'db) res" where
  "ExecQuery api fmt args p db =
     (case GetConnection api p db of
        (None, p1, db1) \<Rightarrow> Inr (Ret None, p1, db1)
      | (Some conn, p1, db1) \<Rightarrow>
          if \<not> prepare api conn db1 then Inr (Thrown, p1, db1)
          else bind_res (sql_text fmt args)
            (\<lambda>cmd. case executeQuery api conn cmd db1 of
                     None \<Rightarrow> Inr (Ret None, ReleaseConnection (Some conn) p1, db1)
                   | Some rows \<Rightarrow> Inr (Ret (Some rows), ReleaseConnection (Some conn) p1, db1)))"

definition ExecInsert ::
  "('c, 'db, 'row) mysql \<Rightarrow> string \<Rightarrow> fmt_arg list \<Rightarrow> 'c MysqlPool \<Rightarrow> 'db \<Rightarrow>
   (bool call \<times> 'c MysqlPool \<times> 'db) res" where
  "ExecInsert api fmt args p db =
     (case GetConnection api p db of
        (None, p1, db1) \<Rightarrow> Inr (Ret False, p1, db1)
      | (Some conn, p1, db1) \<Rightarrow>
          if \<not> prepare api conn db1 then Inr (Thrown, p1, db1)
          else bind_res (sql_text fmt args)
            (\<lambda>cmd. let (updated, db2) = executeUpdate api conn cmd db1;
                         result = (case updated of None \<Rightarrow> False | Some n \<Rightarrow> 0 < n)
                     in Inr (Ret result, ReleaseConnection (Some conn) p1, db2)))"

section \<open>Accounting for connections\<close>

text \<open>
  \<open>out\<close> is the number of connections handed out and not yet returned. The pool counts
  the idle and the handed-out ones and never exceeds its maximum.
\<close>

definition pool_counts :: "'c MysqlPool \<Rightarrow> nat \<Rightarrow> bool" where
  "pool_counts p out \<longleftrightarrow>
     curSize p = int (length (connList p)) + int out \<and> curSize p \<le> maxSize p"

lemma GetConnection_counts:
  assumes "pool_counts p out" and "GetConnection api p db = (c, p', db')"
  shows "pool_counts p' (case c of None \<Rightarrow> out | Some _ \<Rightarrow> Suc out)"
  using assms
  by (auto simp: GetConnection_def pool_counts_def Let_def CreateConnection_def
      split: list.splits if_splits prod.splits option.splits)

lemma ReleaseConnection_counts:
  assumes "pool_counts p (Suc out)"
  shows "pool_counts (ReleaseConnection (Some c) p) out"
  using assms by (simp add: ReleaseConnection_def pool_counts_def)

lemma InitConnection_counts:
  "InitConnection api n p db = (p', db') \<Longrightarrow>
   curSize p = int (length (connList p)) + k \<Longrightarrow>
   curSize p' = int (length (connList p')) + k \<and> maxSize p' = maxSize p \<and>
   curSize p' \<le> curSize p + int n"
proof (induction api n p db rule: InitConnection.induct)
  case (1 api p db)
  then show ?case by simp
next
  case (2 api n p db)
  show ?case
  proof (cases "CreateConnection api db")
    case (Pair c db1)
    with 2 show ?thesis by (cases c) fastforce+
  qed
qed

lemma initPool_counts:
  assumes "initPool api m p db = (p', db')" and "connList p = []" and "0 \<le> m"
  shows "pool_counts p' 0 \<and> curSize p' \<le> m div 2"
proof -
  have "InitConnection api (nat (m div 2)) (p\<lparr>maxSize := m, curSize := 0\<rparr>) db = (p', db')"
    using assms(1) by (simp add: initPool_def)
  from InitConnection_counts [OF this, of 0] assms(2,3) show ?thesis
    by (auto simp: pool_counts_def)
qed

text \<open>A statement gives its connection back on every path but an escaping exception.\<close>

lemma ExecQuery_counts:
  assumes "pool_counts p out" and "ExecQuery api fmt args p db = Inr (r, p', db')"
  shows "pool_counts p' (if r = Thrown then Suc out else out)"
proof -
  obtain c p1 db1 where g: "GetConnection api p db = (c, p1, db1)" by (metis prod_cases3)
  from GetConnection_counts [OF assms(1) g] assms(2) g show ?thesis
    by (auto simp: ExecQuery_def intro: ReleaseConnection_counts
        split: option.splits if_splits)
qed

lemma ExecInsert_counts:
  assumes "pool_counts p out" and "ExecInsert api fmt args p db = Inr (r, p', db')"
  shows "pool_counts p' (if r = Thrown then Suc out else out)"
proof -
  obtain c p1 db1 where g: "GetConnection api p db = (c, p1, db1)" by (metis prod_cases3)
  from GetConnection_counts [OF assms(1) g] assms(2) g show ?thesis
    by (auto simp: ExecInsert_def split_beta Let_def intro: ReleaseConnection_counts
        split: option.splits if_splits)
qed

text \<open>Handing out and returning, in any order a set of callers may choose.\<close>

inductive mysql_reach ::
  "('c, 'db, 'row) mysql \<Rightarrow> int \<Rightarrow> 'c MysqlPool \<Rightarrow> 'c list \<Rightarrow> bool" for api m where
  start: "connList p = [] \<Longrightarrow> 0 \<le> m \<Longrightarrow> initPool api m p db = (p', db') \<Longrightarrow> mysql_reach api m p' []"
| get: "mysql_reach api m p out \<Longrightarrow> GetConnection api p db = (Some c, p', db') \<Longrightarrow>
     mysql_reach api m p' (c # out)"
| get_null: "mysql_reach api m p out \<Longrightarrow> GetConnection api p db = (None, p', db') \<Longrightarrow>
     mysql_reach api m p' out"
| release: "mysql_reach api m p (xs @ c # ys) \<Longrightarrow>
     mysql_reach api m (ReleaseConnection (Some c) p) (xs @ ys)"

lemma GetConnection_max: "GetConnection api p db = (c, p', db') \<Longrightarrow> maxSize p' = maxSize p"
  by (auto simp: GetConnection_def Let_def split: list.splits if_splits prod.splits option.splits)

lemma ReleaseConnection_max [simp]: "maxSize (ReleaseConnection c p) = maxSize p"
  by (simp add: ReleaseConnection_def split: option.split)

lemma initPool_max: "initPool api m p db = (p', db') \<Longrightarrow> maxSize p' = m"
  unfolding initPool_def using InitConnection_counts [where k = "- int (length (connList p))"]
  by fastforce

text \<open>Whatever callers do with the pool after it was set up, its counter is the number of idle
  connections plus the number handed out, and never exceeds the configured maximum.\<close>

lemma mysql_reach_counts:
  assumes "mysql_reach api m p out"
  shows "curSize p = int (length (connList p)) + int (length out) \<and> curSize p \<le> m"
proof -
  have "pool_counts p (length out) \<and> maxSize p = m"
    using assms
proof (induction rule: mysql_reach.induct)
  case (start p db p' db')
  then show ?case using initPool_counts initPool_max by fastforce
next
  case (get p out db c p' db')
  then show ?case using GetConnection_counts [OF _ get.hyps(2), of "length out"]
    by (simp add: GetConnection_max [OF get.hyps(2)])
next
  case (get_null p out db p' db')
  then show ?case using GetConnection_counts [OF _ get_null.hyps(2), of "length out"]
    by (simp add: GetConnection_max [OF get_null.hyps(2)])
next
  case (release p xs c ys)
  then show ?case using ReleaseConnection_counts [of p "length (xs @ ys)" c] by simp
qed
  then show ?thesis by (simp add: pool_counts_def)
qed

text \<open>A connector whose queries find the rows of the database, for concrete runs.\<close>

definition demo_mysql :: "(nat, (string \<times> s32) list, string \<times> s32) mysql" where
  "demo_mysql = \<lparr>isClosed = (\<lambda>_ _. False), connect = (\<lambda>db. (Some 0, db)), prepare = (\<lambda>_ _. True),
     executeQuery = (\<lambda>_ _ db. Some db), executeUpdate = (\<lambda>_ _ db. (Some 1, db)),
     getString = (\<lambda>row c. Some (fst row)), getInt = (\<lambda>row c. Some (snd row))\<rparr>"

lemma mysql_reach_counts_example:
  "\<exists>p. mysql_reach demo_mysql 4 p [0] \<and> curSize p = int (length (connList p)) + 1 \<and> curSize p \<le> 4"
proof -
  let ?p = "\<lparr>connList = [], curSize = 0, maxSize = 0\<rparr> :: nat MysqlPool"
  have "initPool demo_mysql 4 ?p [] = (\<lparr>connList = [0, 0], curSize = 2, maxSize = 4\<rparr>, [])"
    by (simp add: initPool_def CreateConnection_def demo_mysql_def numeral_2_eq_2)
  then have "mysql_reach demo_mysql 4 \<lparr>connList = [0, 0], curSize = 2, maxSize = 4\<rparr> []"
    by (rule mysql_reach.start [rotated 2]) simp_all
  moreover have "GetConnection demo_mysql \<lparr>connList = [0, 0], curSize = 2, maxSize = 4\<rparr> [] =
      (Some 0, \<lparr>connList = [0], curSize = 2, maxSize = 4\<rparr>, [])"
    by (simp add: GetConnection_def demo_mysql_def)
  ultimately have r: "mysql_reach demo_mysql 4 \<lparr>connList = [0], curSize = 2, maxSize = 4\<rparr> [0]"
    by (rule mysql_reach.get)
  from mysql_reach_counts [OF r] r show ?thesis by auto
qed

end
