(* ===== verification/WireFormat.thy ===== *)
theory WireFormat
  imports SeqAbleObj
begin

text \<open>
  The bytes of a \<open>TransObj\<close>. The code sends an object by copying its memory
  (\<open>memcpy(buf, obj, sizeof(TransObj))\<close>) and receives one by casting the buffer to
  \<open>TransObj*\<close>: five 32-bit members at offsets 0, 4, 8, 12, 16 and the message at 20,
  84 bytes in all, each member least significant byte first (both ends are x86).
\<close>

section \<open>32-bit members\<close>

definition le32 :: "u32 \<Rightarrow> bytes" where
  "le32 w = [char_of (unat w), char_of (unat w div 2 ^ 8), char_of (unat w div 2 ^ 16),
             char_of (unat w div 2 ^ 24)]"

definition rd32 :: "bytes \<Rightarrow> u32" where
  "rd32 m = word_of_nat (of_char (m ! 0) + 2 ^ 8 * of_char (m ! 1) +
                         2 ^ 16 * of_char (m ! 2) + 2 ^ 24 * of_char (m ! 3))"

lemma length_le32 [simp]: "length (le32 w) = 4"
  by (simp add: le32_def)

lemma base256:
  fixes n :: nat
  shows "n mod 256 + 2 ^ 8 * (n div 2 ^ 8 mod 256) + 2 ^ 16 * (n div 2 ^ 16 mod 256) +
         2 ^ 24 * (n div 2 ^ 24) = n"
proof -
  define a b c where abc: "a = n div 256" "b = a div 256" "c = b div 256"
  have "n div 2 ^ 8 = a" "n div 2 ^ 16 = b" "n div 2 ^ 24 = c"
    by (simp_all add: abc flip: div_mult2_eq)
  moreover have "n = 256 * a + n mod 256" "a = 256 * b + a mod 256" "b = 256 * c + b mod 256"
    unfolding abc by simp_all
  ultimately show ?thesis by simp
qed

lemma rd32_le32 [mem_simps]: "rd32 (le32 w @ r) = w"
proof -
  have "unat w < 2 ^ LENGTH(32)" by (rule unsigned_less)
  then have "unat w div 2 ^ 24 < 256" by (simp add: less_mult_imp_div_less)
  with base256 [of "unat w"] have e: "of_char ((le32 w @ r) ! 0) + 2 ^ 8 * of_char ((le32 w @ r) ! 1) +
     2 ^ 16 * of_char ((le32 w @ r) ! 2) + 2 ^ 24 * of_char ((le32 w @ r) ! 3) = unat w"
    by (simp add: le32_def)
  show ?thesis unfolding rd32_def e by simp
qed

section \<open>Objects as bytes\<close>

definition sizeof_TransObj :: nat where
  "sizeof_TransObj = 84"

definition obj_bytes :: "TransObj \<Rightarrow> bytes" where
  "obj_bytes obj = le32 (msgType obj) @ le32 (mlen obj) @ le32 (tid obj) @
                   le32 (recverId obj) @ le32 (tfd obj) @ msg obj"

text \<open>The members read through \<open>((TransObj* )buff)->\<close>.\<close>

definition cast_obj :: "bytes \<Rightarrow> TransObj" where
  "cast_obj buff =
     \<lparr>msgType = rd32 buff, mlen = rd32 (drop 4 buff), tid = rd32 (drop 8 buff),
      recverId = rd32 (drop 12 buff), tfd = rd32 (drop 16 buff),
      msg = take MAX_TRANS_MSG_LEN (drop 20 buff)\<rparr>"

text \<open>
  \<open>transBuff2Obj\<close>: the setters in the code's order. \<open>setMsg\<close> gets a pointer into the
  buffer, so its \<open>strlen\<close> may run past the 64 bytes of the message, up to the end of the
  buffer; the \<open>memcpy\<close> after it copies the 64 bytes whatever \<open>setMsg\<close> did.
\<close>

definition transBuff2Obj :: "bytes option \<Rightarrow> TransObj \<Rightarrow> (bool \<times> TransObj) res" where
  "transBuff2Obj buff this =
     (case buff of
        None \<Rightarrow> Inr (False, this)
      | Some b \<Rightarrow>
          (let c = cast_obj b;
               o1 = setrecverId (recverId c) this;
               o2 = setFd (tfd c) o1;
               o3 = setId (tid c) o2;
               o4 = setMsgType (msgType c) o3
           in bind_res (read_cstr (drop 20 b))
                (\<lambda>s. let (_, o5) = setMsg s o4
                     in Inr (True, o5\<lparr>msg := store_at 0 (msg c) (msg o5)\<rparr>))))"

lemma length_obj_bytes: "wf_size obj \<Longrightarrow> length (obj_bytes obj) = sizeof_TransObj"
  by (simp add: obj_bytes_def wf_size_def sizeof_TransObj_def max_len_defs)

lemma drop_obj_bytes:
  "drop 4 (obj_bytes obj @ r) =
     le32 (mlen obj) @ le32 (tid obj) @ le32 (recverId obj) @ le32 (tfd obj) @ msg obj @ r"
  "drop 8 (obj_bytes obj @ r) =
     le32 (tid obj) @ le32 (recverId obj) @ le32 (tfd obj) @ msg obj @ r"
  "drop 12 (obj_bytes obj @ r) = le32 (recverId obj) @ le32 (tfd obj) @ msg obj @ r"
  "drop 16 (obj_bytes obj @ r) = le32 (tfd obj) @ msg obj @ r"
  "drop 20 (obj_bytes obj @ r) = msg obj @ r"
  by (simp_all add: obj_bytes_def)

text \<open>Casting a buffer that starts with an object's bytes gives the object.\<close>

lemma cast_obj_bytes: "wf_size obj \<Longrightarrow> cast_obj (obj_bytes obj @ r) = obj"
  unfolding cast_obj_def drop_obj_bytes
  by (simp add: rd32_le32 wf_size_def)
     (simp add: obj_bytes_def rd32_le32)

text \<open>
  Everything arrives but the length: \<open>transBuff2Obj\<close> never calls \<open>setLen\<close>, so the
  receiving object keeps its own.
\<close>

lemma transBuff2Obj_bytes:
  assumes "wf_size obj" and "wf_size this" and "NUL \<in> set (msg obj) \<or> NUL \<in> set r"
  shows "transBuff2Obj (Some (obj_bytes obj @ r)) this = Inr (True, obj\<lparr>mlen := mlen this\<rparr>)"
proof -
  let ?t = "this\<lparr>recverId := recverId obj, tfd := tfd obj, tid := tid obj,
                 msgType := msgType obj\<rparr>"
  let ?s = "snd (setMsg (cstr (msg obj @ r)) ?t)"
  have "length (msg ?s) = 64"
    using assms(2) length_cstr_le
    by (auto simp: setMsg_def clearMsg_def Let_def wf_size_def max_len_defs)
  moreover have "?s = ?t\<lparr>msg := msg ?s\<rparr>" by (rule setMsg_frame)
  ultimately have "?s\<lparr>msg := store_at 0 (msg obj) (msg ?s)\<rparr> = obj\<lparr>mlen := mlen this\<rparr>"
    using assms(1) by (cases ?s) (auto simp: store_at_0 wf_size_def max_len_defs)
  then show ?thesis
    using assms
    by (simp add: transBuff2Obj_def Let_def cast_obj_bytes drop_obj_bytes setter_defs
        read_cstr_def split_beta del: drop_append)
qed

section \<open>Properties\<close>

text \<open>C30: Every member of a message except its length survives the trip through the 84
  bytes of the wire format; the receiver keeps whatever length its own object had.\<close>

theorem wire_roundtrip:
  assumes "wf_obj obj" and "wf_size this"
  shows "length (obj_bytes obj) = sizeof_TransObj \<and>
         transBuff2Obj (Some (obj_bytes obj @ r)) this = Inr (True, obj\<lparr>mlen := mlen this\<rparr>)"
  using transBuff2Obj_bytes [of obj this r] length_obj_bytes [of obj] assms
  by (simp add: wf_obj_def wf_obj_size)

theorem wire_roundtrip_witness:
  "transBuff2Obj (Some (obj_bytes (TransObj_default\<lparr>mlen := 64, tid := -1\<rparr>) @ [])) TransObj_default =
     Inr (True, TransObj_default\<lparr>tid := -1\<rparr>)"
  using wire_roundtrip [of "TransObj_default\<lparr>mlen := 64, tid := -1\<rparr>" TransObj_default "[]"]
    wf_obj_default wf_obj_size [OF wf_obj_default]
  by (simp add: wf_obj_def TransObj_default_def)

text \<open>The operations a message goes through, in any order.\<close>

datatype obj_op =
    OpMsgType u32 | OpId s32 | OpFd s32 | OpRecverId s32 | OpLen s32
  | OpMsg string | OpName string | OpPasswd string | OpNamePasswd string string
  | OpClearMsg | OpClearName | OpClearPasswd | OpReceive bytes

fun run_op :: "obj_op \<Rightarrow> TransObj \<Rightarrow> TransObj res" where
  "run_op (OpMsgType t) obj = Inr (setMsgType t obj)"
| "run_op (OpId i) obj = Inr (setId i obj)"
| "run_op (OpFd f) obj = Inr (setFd f obj)"
| "run_op (OpRecverId r) obj = Inr (setrecverId r obj)"
| "run_op (OpLen l) obj = Inr (setLen l obj)"
| "run_op (OpMsg m) obj = Inr (snd (setMsg m obj))"
| "run_op (OpName m) obj = bind_res (setName m obj) (\<lambda>(_, obj). Inr obj)"
| "run_op (OpPasswd m) obj = bind_res (setPasswd m obj) (\<lambda>(_, obj). Inr obj)"
| "run_op (OpNamePasswd n p) obj = bind_res (setNamePasswd n p obj) (\<lambda>(_, obj). Inr obj)"
| "run_op OpClearMsg obj = Inr (clearMsg obj)"
| "run_op OpClearName obj = Inr (clearName obj)"
| "run_op OpClearPasswd obj = Inr (clearPasswd obj)"
| "run_op (OpReceive b) obj = bind_res (transBuff2Obj (Some b) obj) (\<lambda>(_, obj). Inr obj)"

fun run_ops :: "obj_op list \<Rightarrow> TransObj \<Rightarrow> TransObj res" where
  "run_ops [] obj = Inr obj"
| "run_ops (op # ops) obj = bind_res (run_op op obj) (run_ops ops)"

text \<open>A buffer that is read holds at least the 84 bytes of an object.\<close>

fun op_buffer_ok :: "obj_op \<Rightarrow> bool" where
  "op_buffer_ok (OpReceive b) = (84 \<le> length b)"
| "op_buffer_ok _ = True"

lemma wf_size_receive:
  assumes "wf_size obj" and "84 \<le> length b" and "transBuff2Obj (Some b) obj = Inr (ok, obj')"
  shows "wf_size obj'"
proof -
  have "length (msg (snd (setMsg s o4))) = 64" if "wf_size o4" for s o4
    using wf_size_setMsg that by (simp add: wf_size_def max_len_defs)
  with assms show ?thesis
    by (auto simp: transBuff2Obj_def Let_def split_beta cast_obj_def wf_size_def setter_defs max_len_defs)
qed

lemma wf_size_plain:
  "wf_size obj \<Longrightarrow> wf_size (setMsgType t obj) \<and> wf_size (setId i obj) \<and> wf_size (setFd i obj) \<and>
     wf_size (setrecverId i obj) \<and> wf_size (setLen i obj)"
  "wf_size obj \<Longrightarrow> wf_size (clearMsg obj) \<and> wf_size (clearName obj) \<and> wf_size (clearPasswd obj)"
  by (simp_all add: setter_defs clearMsg_def clearName_def clearPasswd_def wf_size_def max_len_defs)

lemma wf_size_op: "wf_size obj \<Longrightarrow> op_buffer_ok op \<Longrightarrow> run_op op obj = Inr obj' \<Longrightarrow> wf_size obj'"
  by (cases op)
     (auto simp: wf_size_plain wf_size_setMsg
        dest: wf_size_setName wf_size_setPasswd wf_size_setNamePasswd wf_size_receive)

text \<open>C31: The message array of an object keeps its 64 bytes through every sequence of operations on it:
  no setter, no clearing and no received buffer writes outside it, whatever strings clients give.\<close>

theorem message_array_typed:
  assumes "wf_size obj" and "\<forall>op \<in> set ops. op_buffer_ok op" and "run_ops ops obj = Inr obj'"
  shows "length (msg obj') = 64"
proof -
  have "wf_size obj'"
    using assms
  proof (induction ops arbitrary: obj)
    case (Cons op ops)
    then obtain o1 where o1: "run_op op obj = Inr o1" "run_ops ops o1 = Inr obj'" by auto
    have "wf_size o1" using wf_size_op [OF Cons.prems(1) _ o1(1)] Cons.prems(2) by simp
    with Cons.IH [of o1] Cons.prems(2) o1(2) show ?case by simp
  qed simp
  then show ?thesis by (simp add: wf_size_def max_len_defs)
qed

theorem message_array_typed_witness:
  "\<exists>obj'. run_ops [OpMsgType 3, OpName ''bob'', OpPasswd ''secret'', OpMsg (replicate 70 (CHR ''x''))] TransObj_default =
       Inr obj' \<and> length (msg obj') = 64"
proof -
  have "cformat (cstr ''bob'') [] = Some ''bob''" "cformat (cstr ''secret'') [] = Some ''secret''"
    by (simp_all add: cstr_def NUL_def)
  then obtain obj' where r: "run_ops [OpMsgType 3, OpName ''bob'', OpPasswd ''secret'', OpMsg (replicate 70 (CHR ''x''))]
      TransObj_default = Inr obj'"
    by (simp add: setName_def setPasswd_def snprintf_def cstr_def NUL_def max_len_defs Let_def)
  from message_array_typed [OF wf_obj_size [OF wf_obj_default] _ r] r show ?thesis by auto
qed

end
