(* ===== verification/ConcQueue.thy ===== *)
theory ConcQueue
  imports Prelude
begin

text \<open>
  The concurrent queue of \<^verbatim>\<open>smer/Util/inc/ConcQueue.h\<close>, in two layers. The first is
  what each method does to the queue while it holds the mutex. The second is the
  monitor: several threads calling the methods, with the two condition variables
  \<open>data_cond\<close> and \<open>empty_cond\<close>, their waiters, the notifications and spurious
  wake-ups.
\<close>

section \<open>The methods under the lock\<close>

text \<open>
  A method that would block in \<open>wait\<close> on the given contents yields None. \<open>front\<close> on an
  empty \<open>std::queue\<close> is undefined.
\<close>

type_synonym 'a conc_queue = "'a list"

definition cq_copy :: "'a conc_queue \<Rightarrow> 'a conc_queue" where
  "cq_copy other = other"

definition cq_push :: "'a \<Rightarrow> 'a conc_queue \<Rightarrow> 'a conc_queue" where
  "cq_push new_value q = q @ [new_value]"

definition cq_front :: "'a conc_queue \<Rightarrow> 'a res" where
  "cq_front q = (case q of [] \<Rightarrow> Inl OutOfBounds | x # _ \<Rightarrow> Inr x)"

definition cq_pop :: "'a conc_queue \<Rightarrow> ('a \<times> 'a conc_queue) option" where
  "cq_pop q = (case q of [] \<Rightarrow> None | value # rest \<Rightarrow> Some (value, rest))"

definition cq_tryAndPop :: "'a conc_queue \<Rightarrow> 'a option \<times> 'a conc_queue" where
  "cq_tryAndPop q = (case q of [] \<Rightarrow> (None, q) | value # rest \<Rightarrow> (Some value, rest))"

definition cq_empty :: "'a conc_queue \<Rightarrow> bool" where
  "cq_empty q \<longleftrightarrow> q = []"

definition cq_waitTillNotEmpty :: "'a conc_queue \<Rightarrow> bool option" where
  "cq_waitTillNotEmpty q = (if q = [] then None else Some True)"

definition cq_waitPushTillEmpty :: "'a \<Rightarrow> 'a conc_queue \<Rightarrow> 'a conc_queue option" where
  "cq_waitPushTillEmpty value q = (if q = [] then Some [value] else None)"

lemmas cq_defs = cq_push_def cq_front_def cq_pop_def cq_tryAndPop_def cq_empty_def
  cq_waitTillNotEmpty_def cq_waitPushTillEmpty_def

lemma cq_tryAndPop_eq:
  "cq_tryAndPop q = (case cq_pop q of None \<Rightarrow> (None, q) | Some (x, r) \<Rightarrow> (Some x, r))"
  by (simp add: cq_defs split: list.split)

section \<open>The mailbox interface\<close>

text \<open>
  What the clients of a queue rely on: items go in at the back and come out at the
  front. Both the queue and the list of the program provide it.
\<close>

datatype 'a mb_op = Put 'a | Get

fun mb_run :: "('a \<Rightarrow> 'q \<Rightarrow> 'q) \<Rightarrow> ('q \<Rightarrow> ('a \<times> 'q) option) \<Rightarrow> 'a mb_op list \<Rightarrow> 'q \<Rightarrow> 'a list \<times> 'q" where
  "mb_run put get [] q = ([], q)"
| "mb_run put get (Put x # ops) q = mb_run put get ops (put x q)"
| "mb_run put get (Get # ops) q =
     (case get q of
        None \<Rightarrow> mb_run put get ops q
      | Some (x, q') \<Rightarrow> (case mb_run put get ops q' of (out, q'') \<Rightarrow> (x # out, q'')))"

fun mb_puts :: "'a mb_op list \<Rightarrow> 'a list" where
  "mb_puts [] = []"
| "mb_puts (Put x # ops) = x # mb_puts ops"
| "mb_puts (Get # ops) = mb_puts ops"

locale mailbox =
  fixes put :: "'a \<Rightarrow> 'q \<Rightarrow> 'q"
    and get :: "'q \<Rightarrow> ('a \<times> 'q) option"
    and items :: "'q \<Rightarrow> 'a list"
    and ok :: "'q \<Rightarrow> bool"
  assumes ok_put: "ok q \<Longrightarrow> ok (put x q)"
    and ok_get: "ok q \<Longrightarrow> get q = Some (x, q') \<Longrightarrow> ok q'"
    and items_put: "ok q \<Longrightarrow> items (put x q) = items q @ [x]"
    and get_None: "ok q \<Longrightarrow> get q = None \<longleftrightarrow> items q = []"
    and get_Some: "ok q \<Longrightarrow> get q = Some (x, q') \<Longrightarrow> items q = x # items q'"
begin

text \<open>First in, first out over any sequence of operations, nothing lost or doubled.\<close>

lemma fifo:
  "ok q \<Longrightarrow> mb_run put get ops q = (out, q') \<Longrightarrow> ok q' \<and> items q @ mb_puts ops = out @ items q'"
proof (induction ops arbitrary: q out)
  case Nil
  then show ?case by simp
next
  case (Cons a ops)
  show ?case
  proof (cases a)
    case (Put x)
    with Cons show ?thesis using ok_put [of q x] items_put [of q x] by fastforce
  next
    case Get
    show ?thesis
    proof (cases "get q")
      case None
      with Get Cons show ?thesis by simp
    next
      case (Some p)
      obtain x r where p: "p = (x, r)" by (cases p)
      obtain out' where o: "mb_run put get ops r = (out', q')" "out = x # out'"
        using Cons.prems(2) Get Some p by (auto split: prod.splits)
      have "ok r" "items q = x # items r"
        using Some p Cons.prems(1) ok_get get_Some by blast+
      with Cons.IH [OF _ o(1)] o(2) Get show ?thesis by simp
    qed
  qed
qed

text \<open>A queue that is drained with at least as many reads as it holds items is empty.\<close>

lemma drain: "ok q \<Longrightarrow> mb_run put get (replicate (length (items q)) Get) q = (out, q') \<Longrightarrow>
  out = items q \<and> items q' = []"
proof (induction "length (items q)" arbitrary: q out)
  case 0
  then show ?case by simp
next
  case (Suc n)
  then obtain x r where g: "get q = Some (x, r)"
    using get_None [of q] by fastforce
  have r: "ok r" "items q = x # items r"
    using g Suc.prems(1) ok_get get_Some by blast+
  then have n: "n = length (items r)" using Suc.hyps(2) by simp
  obtain out' where o: "mb_run put get (replicate n Get) r = (out', q')" "out = x # out'"
    using Suc.prems(2) g Suc.hyps(2) [symmetric] by (auto split: prod.splits)
  show ?case using Suc.hyps(1) [OF n r(1)] o r n by simp
qed

end

interpretation cq: mailbox cq_push cq_pop "\<lambda>q. q" "\<lambda>_. True"
  by unfold_locales (auto simp: cq_defs split: list.splits)

section \<open>The monitor\<close>

text \<open>
  The state adds to the contents the threads inside a \<open>wait\<close>. For each of the three
  waiting methods, those that sleep (\<open>popW\<close>, \<open>wneW\<close>, \<open>pushW\<close>) and those that were woken
  and have not yet run again (\<open>popR\<close>, \<open>wneR\<close>, \<open>pushR\<close>); the ones inside
  \<open>waitPushTillEmpty\<close> carry the value they will push. \<open>pushed\<close> and \<open>popped\<close> record the
  history.
\<close>

record 'a monitor =
  data :: "'a conc_queue"
  popW :: nat
  popR :: nat
  wneW :: nat
  wneR :: nat
  pushW :: "'a list"
  pushR :: "'a list"
  pushed :: "'a list"
  popped :: "'a list"

definition monitor_init :: "'a monitor" where
  "monitor_init = \<lparr>data = [], popW = 0, popR = 0, wneW = 0, wneR = 0, pushW = [], pushR = [],
                   pushed = [], popped = []\<rparr>"

text \<open>\<open>data_cond.notify_one()\<close> wakes some waiter of the condition variable, if any.\<close>

inductive notify_data :: "'a monitor \<Rightarrow> 'a monitor \<Rightarrow> bool" where
  nobody: "popW s = 0 \<Longrightarrow> wneW s = 0 \<Longrightarrow> notify_data s s"
| popper: "popW s = Suc n \<Longrightarrow> notify_data s (s\<lparr>popW := n, popR := Suc (popR s)\<rparr>)"
| watcher: "wneW s = Suc n \<Longrightarrow> notify_data s (s\<lparr>wneW := n, wneR := Suc (wneR s)\<rparr>)"

inductive notify_empty :: "'a monitor \<Rightarrow> 'a monitor \<Rightarrow> bool" where
  nobody: "pushW s = [] \<Longrightarrow> notify_empty s s"
| pusher: "pushW s = xs @ v # ys \<Longrightarrow>
     notify_empty s (s\<lparr>pushW := xs @ ys, pushR := v # pushR s\<rparr>)"

text \<open>The critical sections that change the contents.\<close>

inductive put_item :: "'a \<Rightarrow> 'a monitor \<Rightarrow> 'a monitor \<Rightarrow> bool" where
  "notify_data (s\<lparr>data := cq_push x (data s), pushed := pushed s @ [x]\<rparr>) s' \<Longrightarrow> put_item x s s'"

inductive take_item :: "'a monitor \<Rightarrow> 'a monitor \<Rightarrow> bool" where
  more: "cq_pop (data s) = Some (x, rest) \<Longrightarrow> rest \<noteq> [] \<Longrightarrow>
     take_item s (s\<lparr>data := rest, popped := popped s @ [x]\<rparr>)"
| last: "cq_pop (data s) = Some (x, []) \<Longrightarrow>
     notify_empty (s\<lparr>data := [], popped := popped s @ [x]\<rparr>) s' \<Longrightarrow> take_item s s'"

text \<open>
  The steps: a thread entering a method, a woken thread running again, or a spurious
  wake-up. \<open>tryAndPop\<close> on an empty queue changes nothing and is no step.
\<close>

inductive cq_step :: "'a monitor \<Rightarrow> 'a monitor \<Rightarrow> bool" where
  push: "put_item x s s' \<Longrightarrow> cq_step s s'"
| pop: "take_item s s' \<Longrightarrow> cq_step s s'"
| pop_sleep: "data s = [] \<Longrightarrow> cq_step s (s\<lparr>popW := Suc (popW s)\<rparr>)"
| pop_wake: "popR s = Suc n \<Longrightarrow> take_item (s\<lparr>popR := n\<rparr>) s' \<Longrightarrow> cq_step s s'"
| pop_resleep: "popR s = Suc n \<Longrightarrow> data s = [] \<Longrightarrow>
     cq_step s (s\<lparr>popR := n, popW := Suc (popW s)\<rparr>)"
| pop_spurious: "popW s = Suc n \<Longrightarrow> cq_step s (s\<lparr>popW := n, popR := Suc (popR s)\<rparr>)"
| wne_sleep: "cq_waitTillNotEmpty (data s) = None \<Longrightarrow> cq_step s (s\<lparr>wneW := Suc (wneW s)\<rparr>)"
| wne_wake: "wneR s = Suc n \<Longrightarrow> cq_waitTillNotEmpty (data s) = Some True \<Longrightarrow>
     cq_step s (s\<lparr>wneR := n\<rparr>)"
| wne_resleep: "wneR s = Suc n \<Longrightarrow> cq_waitTillNotEmpty (data s) = None \<Longrightarrow>
     cq_step s (s\<lparr>wneR := n, wneW := Suc (wneW s)\<rparr>)"
| wne_spurious: "wneW s = Suc n \<Longrightarrow> cq_step s (s\<lparr>wneW := n, wneR := Suc (wneR s)\<rparr>)"
| wpush: "data s = [] \<Longrightarrow> put_item v s s' \<Longrightarrow> cq_step s s'"
| wpush_sleep: "data s \<noteq> [] \<Longrightarrow> cq_step s (s\<lparr>pushW := v # pushW s\<rparr>)"
| wpush_wake: "pushR s = xs @ v # ys \<Longrightarrow> data s = [] \<Longrightarrow>
     put_item v (s\<lparr>pushR := xs @ ys\<rparr>) s' \<Longrightarrow> cq_step s s'"
| wpush_resleep: "pushR s = xs @ v # ys \<Longrightarrow> data s \<noteq> [] \<Longrightarrow>
     cq_step s (s\<lparr>pushR := xs @ ys, pushW := v # pushW s\<rparr>)"
| wpush_spurious: "pushW s = xs @ v # ys \<Longrightarrow>
     cq_step s (s\<lparr>pushW := xs @ ys, pushR := v # pushR s\<rparr>)"

inductive cq_reachable :: "'a monitor \<Rightarrow> bool" where
  start: "cq_reachable monitor_init"
| step: "cq_reachable s \<Longrightarrow> cq_step s s' \<Longrightarrow> cq_reachable s'"

inductive_cases notify_dataE: "notify_data s s'"
inductive_cases notify_emptyE: "notify_empty s s'"
inductive_cases put_itemE: "put_item x s s'"
inductive_cases take_itemE: "take_item s s'"

lemmas monitor_elims = notify_dataE notify_emptyE put_itemE take_itemE

subsection \<open>History\<close>

definition history_inv :: "'a monitor \<Rightarrow> bool" where
  "history_inv s \<longleftrightarrow> pushed s = popped s @ data s"

lemma put_item_history: "put_item x s s' \<Longrightarrow> history_inv s \<Longrightarrow> history_inv s'"
  by (auto simp: history_inv_def cq_push_def elim!: monitor_elims)

lemma take_item_history: "take_item s s' \<Longrightarrow> history_inv s \<Longrightarrow> history_inv s'"
  by (auto simp: history_inv_def cq_pop_def elim!: monitor_elims split: list.splits)

lemma cq_step_history: "cq_step s s' \<Longrightarrow> history_inv s \<Longrightarrow> history_inv s'"
proof (induction rule: cq_step.induct)
  case (push x s s')
  then show ?case by (rule put_item_history)
next
  case (pop s s')
  then show ?case by (rule take_item_history)
next
  case (pop_wake s n s')
  from pop_wake.prems have "history_inv (s\<lparr>popR := n\<rparr>)" by (simp add: history_inv_def)
  with pop_wake.hyps(2) show ?case by (rule take_item_history)
next
  case (wpush s v s')
  then show ?case by (auto intro: put_item_history)
next
  case (wpush_wake s xs v ys s')
  from wpush_wake.prems have "history_inv (s\<lparr>pushR := xs @ ys\<rparr>)" by (simp add: history_inv_def)
  with wpush_wake.hyps(3) show ?case by (rule put_item_history)
qed (simp_all add: history_inv_def)

text \<open>
  In every reachable state the pushed items are the popped ones, in order, followed by
  the contents: the queue is first in, first out whatever the interleaving.
\<close>

lemma reachable_history: "cq_reachable s \<Longrightarrow> history_inv s"
  by (induction rule: cq_reachable.induct)
     (auto simp: monitor_init_def history_inv_def dest: cq_step_history [unfolded history_inv_def])

subsection \<open>Wake-ups\<close>

text \<open>
  No wake-up is lost: as long as no thread is inside \<open>waitTillNotEmpty\<close>, a thread that
  sleeps in \<open>pop\<close> while the queue has items is covered, because at least as many woken
  threads as there are items are about to run.
\<close>

definition pop_covered :: "'a monitor \<Rightarrow> bool" where
  "pop_covered s \<longleftrightarrow> (popW s = 0 \<or> length (data s) \<le> popR s)"

text \<open>
  A thread that sleeps in \<open>waitPushTillEmpty\<close> while the queue is empty is covered too:
  another one has been woken and is about to push.
\<close>

definition push_covered :: "'a monitor \<Rightarrow> bool" where
  "push_covered s \<longleftrightarrow> (pushW s = [] \<or> data s \<noteq> [] \<or> pushR s \<noteq> [])"

definition no_watcher :: "'a monitor \<Rightarrow> bool" where
  "no_watcher s \<longleftrightarrow> wneW s = 0 \<and> wneR s = 0"

lemma put_item_covered:
  assumes "put_item x s s'" and "no_watcher s" and "pop_covered s"
  shows "pop_covered s' \<and> no_watcher s'"
  using assms
  by (auto simp: pop_covered_def no_watcher_def cq_push_def elim!: monitor_elims)

lemma take_item_covered:
  assumes "take_item s s'" and "no_watcher s"
    and "popW s = 0 \<or> length (data s) \<le> Suc (popR s)"
  shows "pop_covered s' \<and> no_watcher s'"
  using assms
  by (auto simp: pop_covered_def no_watcher_def cq_pop_def elim!: monitor_elims split: list.splits)

lemma put_item_push_covered: "put_item x s s' \<Longrightarrow> push_covered s'"
  by (auto simp: push_covered_def cq_push_def elim!: monitor_elims)

lemma take_item_push_covered: "take_item s s' \<Longrightarrow> push_covered s'"
  by (auto simp: push_covered_def cq_pop_def elim!: monitor_elims split: list.splits)

lemma cq_step_push_covered: "cq_step s s' \<Longrightarrow> push_covered s \<Longrightarrow> push_covered s'"
proof (induction rule: cq_step.induct)
  case (push x s s')
  then show ?case by (auto dest: put_item_push_covered)
next
  case (wpush_wake s xs v ys s')
  then show ?case by (auto dest: put_item_push_covered)
next
  case (wpush s v s')
  then show ?case by (auto dest: put_item_push_covered)
next
  case (pop s s')
  then show ?case by (auto dest: take_item_push_covered)
next
  case (pop_wake s n s')
  then show ?case by (auto dest: take_item_push_covered)
qed (auto simp: push_covered_def)

lemma reachable_push_covered: "cq_reachable s \<Longrightarrow> push_covered s"
  by (induction rule: cq_reachable.induct)
     (auto simp: monitor_init_def push_covered_def
       dest: cq_step_push_covered [unfolded push_covered_def])

text \<open>
  The queues of the program that several threads \<open>pop\<close> (\<open>SeqToBin\<close>'s) have no
  \<open>waitTillNotEmpty\<close> callers: their steps are those that keep \<open>no_watcher\<close>.
\<close>

inductive cq_reachable_nw :: "'a monitor \<Rightarrow> bool" where
  start: "cq_reachable_nw monitor_init"
| step: "cq_reachable_nw s \<Longrightarrow> cq_step s s' \<Longrightarrow> no_watcher s' \<Longrightarrow> cq_reachable_nw s'"

lemma cq_step_covered:
  assumes "cq_step s s'" and "no_watcher s" and "no_watcher s'" and "pop_covered s"
  shows "pop_covered s'"
  using assms
proof (induction rule: cq_step.induct)
  case (push x s s')
  show ?case using put_item_covered [OF push.hyps push.prems(1,3)] by simp
next
  case (pop s s')
  have "popW s = 0 \<or> length (data s) \<le> Suc (popR s)"
    using pop.prems(3) by (auto simp: pop_covered_def)
  from take_item_covered [OF pop.hyps pop.prems(1) this] show ?case by simp
next
  case (pop_wake s n s')
  have "no_watcher (s\<lparr>popR := n\<rparr>)" using pop_wake.prems(1) by (simp add: no_watcher_def)
  moreover have "popW (s\<lparr>popR := n\<rparr>) = 0 \<or>
      length (data (s\<lparr>popR := n\<rparr>)) \<le> Suc (popR (s\<lparr>popR := n\<rparr>))"
    using pop_wake.prems(3) pop_wake.hyps(1) by (simp add: pop_covered_def)
  ultimately show ?case using take_item_covered [OF pop_wake.hyps(2)] by simp
next
  case (wpush s v s')
  show ?case using put_item_covered [OF wpush.hyps(2) wpush.prems(1,3)] by simp
next
  case (wpush_wake s xs v ys s')
  have "no_watcher (s\<lparr>pushR := xs @ ys\<rparr>)" "pop_covered (s\<lparr>pushR := xs @ ys\<rparr>)"
    using wpush_wake.prems by (simp_all add: no_watcher_def pop_covered_def)
  with put_item_covered [OF wpush_wake.hyps(3)] show ?case by simp
qed (auto simp: pop_covered_def no_watcher_def)

lemma cq_nw_invariant: "cq_reachable_nw s \<Longrightarrow> no_watcher s \<and> pop_covered s"
proof (induction rule: cq_reachable_nw.induct)
  case start
  show ?case by (simp add: monitor_init_def no_watcher_def pop_covered_def)
next
  case (step s s')
  then show ?case by (blast intro: cq_step_covered)
qed

lemma cq_reachable_nw_imp: "cq_reachable_nw s \<Longrightarrow> cq_reachable s"
  by (induction rule: cq_reachable_nw.induct) (auto intro: cq_reachable.intros)

section \<open>Properties\<close>

text \<open>C27: Whatever the interleaving of threads inside the methods of the queue, the items
  popped so far are, in order, the first ones pushed, and the rest is the contents: nothing
  is lost, doubled or reordered.\<close>

theorem queue_fifo:
  assumes "cq_reachable s"
  shows "pushed s = popped s @ data s"
  using reachable_history [OF assms] by (simp add: history_inv_def)

theorem queue_fifo_witness:
  "pushed (monitor_init\<lparr>data := [3::nat], pushed := [3]\<rparr>) = popped monitor_init @ [3]"
proof -
  have "put_item 3 monitor_init (monitor_init\<lparr>data := [3::nat], pushed := [3]\<rparr>)"
    by (rule put_item.intros) (simp add: cq_push_def monitor_init_def notify_data.nobody)
  then have "cq_reachable (monitor_init\<lparr>data := [3::nat], pushed := [3]\<rparr>)"
    by (blast intro: cq_reachable.intros cq_step.push)
  from queue_fifo [OF this] show ?thesis by (simp add: monitor_init_def)
qed

text \<open>C28: No wake-up is lost. While nobody waits in \<open>waitTillNotEmpty\<close>, threads sleeping in
  \<open>pop\<close> are outnumbered: as many woken threads as there are items are about to run; and a
  thread sleeping in \<open>waitPushTillEmpty\<close> on an empty queue has a woken one ahead of it.\<close>

theorem no_lost_wakeup:
  assumes "cq_reachable_nw s"
  shows "(0 < popW s \<longrightarrow> length (data s) \<le> popR s) \<and>
         (pushW s \<noteq> [] \<and> data s = [] \<longrightarrow> pushR s \<noteq> [])"
  using cq_nw_invariant [OF assms] reachable_push_covered [OF cq_reachable_nw_imp [OF assms]]
  by (auto simp: pop_covered_def push_covered_def)

text \<open>Two threads asleep in \<open>pop\<close>, one item pushed, one of them woken.\<close>

definition two_waiters :: "nat monitor" where
  "two_waiters = monitor_init\<lparr>popW := 1, popR := 1, data := [3], pushed := [3]\<rparr>"

lemma two_waiters_reachable: "cq_reachable_nw two_waiters"
proof -
  let ?s1 = "monitor_init\<lparr>popW := 1\<rparr> :: nat monitor" and ?s2 = "monitor_init\<lparr>popW := 2\<rparr> :: nat monitor"
  have 1: "cq_reachable_nw ?s1"
    using cq_reachable_nw.step [OF cq_reachable_nw.start cq_step.pop_sleep]
    by (simp add: monitor_init_def no_watcher_def)
  have 2: "cq_reachable_nw ?s2"
    using cq_reachable_nw.step [OF 1 cq_step.pop_sleep]
    by (simp add: monitor_init_def no_watcher_def numeral_2_eq_2)
  have "notify_data (?s2\<lparr>data := cq_push 3 (data ?s2), pushed := pushed ?s2 @ [3]\<rparr>) two_waiters"
    using notify_data.popper [of "?s2\<lparr>data := [3], pushed := [3]\<rparr>" 1]
    by (simp add: two_waiters_def cq_push_def monitor_init_def)
  then have "cq_step ?s2 two_waiters" by (blast intro: cq_step.push put_item.intros)
  with 2 show ?thesis
    by (rule cq_reachable_nw.step) (simp add: two_waiters_def monitor_init_def no_watcher_def)
qed

theorem no_lost_wakeup_witness: "0 < popW two_waiters \<and> length (data two_waiters) \<le> popR two_waiters"
  using no_lost_wakeup [OF two_waiters_reachable] by (simp add: two_waiters_def)

end
