(* ===== verification/SeqToBin.thy ===== *)
theory SeqToBin
  imports WireFormat ConcQueue
begin

text \<open>
  \<^verbatim>\<open>smer/Seqeue/inc/SeqToBin.h\<close>: the three queues that connect the threads of a process,
  messages to send (\<open>buff\<close>), messages received (\<open>rcvBuff\<close>) and system messages
  (\<open>sysBuff\<close>), and the struct \<open>SystemMsgObj\<close>.
\<close>

section \<open>System messages and SeqToBin\<close>

text \<open>A string stream behind a \<open>shared_ptr\<close> is its text; None is the null pointer.\<close>

record SystemMsgObj =
  sysMsgType :: u32
  sysMsgPtr :: "string option"

definition SystemMsgObj_type :: "SysMsgType \<Rightarrow> SystemMsgObj" where
  "SystemMsgObj_type t = \<lparr>sysMsgType = sysMsgCode t, sysMsgPtr = None\<rparr>"

definition SystemMsgObj_text :: "SysMsgType \<Rightarrow> string \<Rightarrow> SystemMsgObj" where
  "SystemMsgObj_text t ss = \<lparr>sysMsgType = sysMsgCode t, sysMsgPtr = Some ss\<rparr>"

definition getSysMsgPtr :: "SystemMsgObj \<Rightarrow> string option" where
  "getSysMsgPtr m = sysMsgPtr m"

definition setSysMsgPtr :: "string option \<Rightarrow> SystemMsgObj \<Rightarrow> SystemMsgObj" where
  "setSysMsgPtr ss m = m\<lparr>sysMsgPtr := ss\<rparr>"

record SeqToBin =
  buff :: "TransObj conc_queue"
  rcvBuff :: "TransObj conc_queue"
  sysBuff :: "SystemMsgObj conc_queue"

definition putSysMsg :: "SystemMsgObj \<Rightarrow> SeqToBin \<Rightarrow> SeqToBin" where
  "putSysMsg m s = s\<lparr>sysBuff := cq_push m (sysBuff s)\<rparr>"

definition tryGetSysMsg :: "SeqToBin \<Rightarrow> SystemMsgObj option \<times> SeqToBin" where
  "tryGetSysMsg s = (case cq_tryAndPop (sysBuff s) of (m, q) \<Rightarrow> (m, s\<lparr>sysBuff := q\<rparr>))"

definition pushBuff :: "TransObj \<Rightarrow> SeqToBin \<Rightarrow> SeqToBin" where
  "pushBuff obj s = s\<lparr>buff := cq_push obj (buff s)\<rparr>"

definition pushRcvBuff :: "TransObj \<Rightarrow> SeqToBin \<Rightarrow> SeqToBin" where
  "pushRcvBuff obj s = s\<lparr>rcvBuff := cq_push obj (rcvBuff s)\<rparr>"

end
