(* ===== verification/ThreadPool.thy ===== *)
theory ThreadPool
  imports Prelude
begin

text \<open>
  The thread pool of \<^verbatim>\<open>smer/Util/inc/ThreadPool.h\<close> as a transition system. A worker is
  asleep in \<open>condition.wait\<close>, ready to look at the queue (just started, woken, or done
  with a task), running a task, or has returned. A task that throws ends like any
  other: \<open>std::packaged_task\<close> catches the exception. \<open>notifs\<close> counts the
  \<open>notify_one\<close> calls that \<open>enqueue\<close>, having released the mutex, has yet to make;
  \<open>submitted\<close> and \<open>started\<close> record the history.
\<close>

section \<open>State and steps\<close>

datatype 'task worker = Ready | Asleep | Running 'task | Returned

datatype dtor = NotCalled | StopSet | Notified

record 'task pool =
  workers :: "'task worker list"
  tasks :: "'task list"
  stop :: bool
  dtor_at :: dtor
  notifs :: nat
  submitted :: "'task list"
  started :: "'task list"

text \<open>\<open>init(threads)\<close> starts that many workers.\<close>

definition pool_init :: "nat \<Rightarrow> 'task pool" where
  "pool_init threads = \<lparr>workers = replicate threads Ready, tasks = [], stop = False,
     dtor_at = NotCalled, notifs = 0, submitted = [], started = []\<rparr>"

text \<open>\<open>enqueue\<close> on a stopped pool throws.\<close>

datatype pool_error = EnqueueOnStopped

definition enqueue :: "'task \<Rightarrow> 'task pool \<Rightarrow> pool_error + 'task pool" where
  "enqueue t p =
     (if stop p then Inl EnqueueOnStopped
      else Inr (p\<lparr>tasks := tasks p @ [t], submitted := submitted p @ [t], notifs := Suc (notifs p)\<rparr>))"

text \<open>What a ready worker does under the mutex: wait, return, or take the first task.\<close>

definition worker_look :: "nat \<Rightarrow> 'task pool \<Rightarrow> 'task pool" where
  "worker_look i p =
     (case tasks p of
        [] \<Rightarrow> if stop p then p\<lparr>workers := (workers p)[i := Returned]\<rparr>
              else p\<lparr>workers := (workers p)[i := Asleep]\<rparr>
      | t # ts \<Rightarrow> p\<lparr>workers := (workers p)[i := Running t], tasks := ts,
                    started := started p @ [t]\<rparr>)"

definition wake_all :: "'task worker list \<Rightarrow> 'task worker list" where
  "wake_all ws = map (\<lambda>w. if w = Asleep then Ready else w) ws"

inductive pool_step :: "'task pool \<Rightarrow> 'task pool \<Rightarrow> bool" where
  enq: "enqueue t p = Inr p' \<Longrightarrow> pool_step p p'"
| notify: "notifs p = Suc n \<Longrightarrow> i < length (workers p) \<Longrightarrow> workers p ! i = Asleep \<Longrightarrow>
     pool_step p (p\<lparr>notifs := n, workers := (workers p)[i := Ready]\<rparr>)"
| notify_none: "notifs p = Suc n \<Longrightarrow> Asleep \<notin> set (workers p) \<Longrightarrow>
     pool_step p (p\<lparr>notifs := n\<rparr>)"
| spurious: "i < length (workers p) \<Longrightarrow> workers p ! i = Asleep \<Longrightarrow>
     pool_step p (p\<lparr>workers := (workers p)[i := Ready]\<rparr>)"
| look: "i < length (workers p) \<Longrightarrow> workers p ! i = Ready \<Longrightarrow> pool_step p (worker_look i p)"
| finish: "i < length (workers p) \<Longrightarrow> workers p ! i = Running t \<Longrightarrow>
     pool_step p (p\<lparr>workers := (workers p)[i := Ready]\<rparr>)"
| dtor_stop: "dtor_at p = NotCalled \<Longrightarrow> pool_step p (p\<lparr>stop := True, dtor_at := StopSet\<rparr>)"
| dtor_notify: "dtor_at p = StopSet \<Longrightarrow>
     pool_step p (p\<lparr>workers := wake_all (workers p), dtor_at := Notified\<rparr>)"

inductive pool_reachable :: "nat \<Rightarrow> 'task pool \<Rightarrow> bool" for threads where
  start: "pool_reachable threads (pool_init threads)"
| step: "pool_reachable threads p \<Longrightarrow> pool_step p p' \<Longrightarrow> pool_reachable threads p'"

section \<open>Invariants\<close>

text \<open>Tasks are started in the order they were submitted, each at most once.\<close>

definition order_inv :: "'task pool \<Rightarrow> bool" where
  "order_inv p \<longleftrightarrow> submitted p = started p @ tasks p"

text \<open>
  The number of ready workers; a sleeping worker while tasks wait is covered by ready
  workers and notifications to come.
\<close>

definition ready_count :: "'task pool \<Rightarrow> nat" where
  "ready_count p = length (filter (\<lambda>w. w = Ready) (workers p))"

definition wake_inv :: "'task pool \<Rightarrow> bool" where
  "wake_inv p \<longleftrightarrow> (Asleep \<in> set (workers p) \<longrightarrow> length (tasks p) \<le> ready_count p + notifs p)"

text \<open>The flags of the shutdown.\<close>

definition stop_inv :: "'task pool \<Rightarrow> bool" where
  "stop_inv p \<longleftrightarrow>
     (stop p \<longleftrightarrow> dtor_at p \<noteq> NotCalled) \<and>
     (Returned \<in> set (workers p) \<longrightarrow> stop p \<and> tasks p = []) \<and>
     (dtor_at p = Notified \<longrightarrow> Asleep \<notin> set (workers p))"

definition pool_inv :: "'task pool \<Rightarrow> bool" where
  "pool_inv p \<longleftrightarrow> order_inv p \<and> wake_inv p \<and> stop_inv p"

lemma length_filter_update:
  assumes "i < length xs"
  shows "length (filter P (xs[i := y])) + (if P (xs ! i) then 1 else 0) =
         length (filter P xs) + (if P y then 1 else 0)"
proof -
  have "length (filter P xs) = length (filter P (take i xs @ xs ! i # drop (Suc i) xs))"
    using id_take_nth_drop [OF assms] by simp
  then show ?thesis
    by (simp add: upd_conv_take_nth_drop [OF assms])
qed

lemma ready_count_update:
  assumes "i < length (workers p)"
  shows "ready_count (p\<lparr>workers := (workers p)[i := w]\<rparr>) + (if workers p ! i = Ready then 1 else 0) =
         ready_count p + (if w = Ready then 1 else 0)"
  using length_filter_update [OF assms, of "\<lambda>w. w = Ready" w] by (simp add: ready_count_def)

lemma set_update_cases: "x \<in> set (xs[i := y]) \<Longrightarrow> x = y \<or> x \<in> set xs"
  using set_update_subset_insert by fastforce

lemma pool_inv_init: "pool_inv (pool_init threads)"
  by (auto simp: pool_inv_def order_inv_def wake_inv_def stop_inv_def pool_init_def)

lemma pool_step_order: "pool_step p p' \<Longrightarrow> order_inv p \<Longrightarrow> order_inv p'"
  by (induction rule: pool_step.induct)
     (auto simp: order_inv_def enqueue_def worker_look_def split: if_splits list.splits)

text \<open>One worker changing its state, the queue and the notifications left alone.\<close>

lemma wake_inv_update:
  assumes "wake_inv p" and "i < length (workers p)" and "workers p ! i \<noteq> Ready"
  shows "wake_inv (p\<lparr>workers := (workers p)[i := Ready]\<rparr>)"
proof -
  have "ready_count (p\<lparr>workers := (workers p)[i := Ready]\<rparr>) = Suc (ready_count p)"
    using ready_count_update [OF assms(2), of Ready] assms(3) by simp
  with assms(1) show ?thesis
    by (auto simp: wake_inv_def dest: set_update_cases)
qed

lemma wake_inv_look:
  assumes inv: "wake_inv p" and i: "i < length (workers p)" "workers p ! i = Ready"
  shows "wake_inv (worker_look i p)"
proof (cases "tasks p")
  case Nil
  then show ?thesis by (auto simp: wake_inv_def worker_look_def)
next
  case (Cons t ts)
  let ?p = "p\<lparr>workers := (workers p)[i := Running t]\<rparr>"
  have "Suc (ready_count ?p) = ready_count p"
    using ready_count_update [OF i(1), of "Running t"] i(2) by simp
  moreover have "ready_count (worker_look i p) = ready_count ?p"
    using Cons by (simp add: ready_count_def worker_look_def)
  ultimately show ?thesis
    using inv Cons by (auto simp: wake_inv_def worker_look_def dest: set_update_cases)
qed

lemma wake_all_no_sleeper [simp]: "Asleep \<notin> set (wake_all ws)"
  by (auto simp: wake_all_def split: if_splits)

lemma pool_step_wake: "pool_step p p' \<Longrightarrow> wake_inv p \<Longrightarrow> wake_inv p'"
proof (induction rule: pool_step.induct)
  case (enq t p p')
  then show ?case by (auto simp: enqueue_def wake_inv_def ready_count_def split: if_splits)
next
  case (notify p n i)
  let ?p = "p\<lparr>workers := (workers p)[i := Ready]\<rparr>"
  have "ready_count ?p = Suc (ready_count p)"
    using ready_count_update [OF notify.hyps(2), of Ready] notify.hyps(3) by simp
  then show ?case
    using notify by (auto simp: wake_inv_def ready_count_def dest: set_update_cases)
next
  case (notify_none p n)
  then show ?case by (simp add: wake_inv_def ready_count_def)
next
  case (spurious i p)
  then show ?case by (simp add: wake_inv_update)
next
  case (look i p)
  then show ?case by (simp add: wake_inv_look)
next
  case (finish i p t)
  then show ?case by (simp add: wake_inv_update)
next
  case (dtor_stop p)
  then show ?case by (simp add: wake_inv_def ready_count_def)
next
  case (dtor_notify p)
  then show ?case by (simp add: wake_inv_def)
qed

lemma pool_step_stop: "pool_step p p' \<Longrightarrow> stop_inv p \<Longrightarrow> stop_inv p'"
proof (induction rule: pool_step.induct)
  case (enq t p p')
  then show ?case by (auto simp: enqueue_def stop_inv_def split: if_splits)
next
  case (look i p)
  then show ?case
    by (auto simp: worker_look_def stop_inv_def split: list.splits dest: set_update_cases)
next
  case (dtor_notify p)
  then show ?case by (auto simp: stop_inv_def wake_all_def split: if_splits)
qed (auto simp: stop_inv_def dest: set_update_cases)

lemma reachable_pool_inv: "pool_reachable threads p \<Longrightarrow> pool_inv p"
proof (induction rule: pool_reachable.induct)
  case start
  show ?case by (rule pool_inv_init)
next
  case (step p p')
  then show ?case
    by (auto simp: pool_inv_def intro: pool_step_order pool_step_wake pool_step_stop)
qed

lemma pool_step_threads: "pool_step p p' \<Longrightarrow> length (workers p') = length (workers p)"
  by (induction rule: pool_step.induct)
     (auto simp: enqueue_def worker_look_def wake_all_def split: if_splits list.splits)

lemma reachable_threads: "pool_reachable threads p \<Longrightarrow> length (workers p) = threads"
  by (induction rule: pool_reachable.induct) (simp_all add: pool_init_def pool_step_threads)

inductive_cases pool_stepE: "pool_step p p'"

text \<open>A stopped pool stays stopped.\<close>

lemma pool_step_stopped: "pool_step p p' \<Longrightarrow> stop p \<Longrightarrow> stop p'"
  by (erule pool_stepE) (auto simp: enqueue_def worker_look_def split: list.splits)

section \<open>What the pool guarantees\<close>

text \<open>A pool of one thread that was given a task, ran it and was shut down.\<close>

definition one_waiting :: "nat pool" where
  "one_waiting = (pool_init 1)\<lparr>tasks := [5], submitted := [5]\<rparr>"

definition one_done :: "nat pool" where
  "one_done = (pool_init 1)\<lparr>workers := [Returned], stop := True, dtor_at := StopSet,
     submitted := [5], started := [5]\<rparr>"

lemma one_waiting_reachable: "pool_reachable 1 one_waiting"
proof -
  let ?p = "(pool_init 1)\<lparr>tasks := [5], submitted := [5], notifs := 1\<rparr> :: nat pool"
  have "pool_reachable 1 ?p"
    by (rule pool_reachable.step [OF pool_reachable.start pool_step.enq [where t = 5]])
       (simp add: enqueue_def pool_init_def)
  moreover have "pool_step ?p (?p\<lparr>notifs := 0\<rparr>)"
    by (rule pool_step.notify_none) (simp_all add: pool_init_def)
  ultimately have "pool_reachable 1 (?p\<lparr>notifs := 0\<rparr>)" by (rule pool_reachable.step)
  then show ?thesis by (simp add: one_waiting_def pool_init_def)
qed

lemma one_done_reachable: "pool_reachable 1 one_done"
proof -
  let ?r = "one_waiting\<lparr>workers := [Running 5], tasks := [], started := [5]\<rparr>"
  let ?f = "?r\<lparr>workers := [Ready]\<rparr>" and ?d = "?r\<lparr>workers := [Ready], stop := True, dtor_at := StopSet\<rparr>"
  have "pool_step one_waiting ?r"
    using pool_step.look [of 0 one_waiting]
    by (simp add: one_waiting_def pool_init_def worker_look_def)
  with one_waiting_reachable have "pool_reachable 1 ?r" by (rule pool_reachable.step)
  moreover have "pool_step ?r ?f"
    using pool_step.finish [of 0 ?r 5] by simp
  ultimately have "pool_reachable 1 ?f" by (rule pool_reachable.step)
  moreover have "pool_step ?f ?d"
    using pool_step.dtor_stop [of ?f] by (simp add: one_waiting_def pool_init_def)
  ultimately have "pool_reachable 1 ?d" by (rule pool_reachable.step)
  moreover have "pool_step ?d one_done"
    using pool_step.look [of 0 ?d]
    by (simp add: one_waiting_def one_done_def pool_init_def worker_look_def)
  ultimately show ?thesis by (rule pool_reachable.step)
qed

text \<open>
  The pool never gets stuck: while tasks wait, no notification is outstanding and no
  worker runs a task, some worker is ready to take the next one.
\<close>

lemma pool_progress:
  assumes "pool_reachable threads p" and "0 < threads" and "tasks p \<noteq> []"
    and "notifs p = 0" and "\<forall>t. Running t \<notin> set (workers p)"
  shows "\<exists>i < length (workers p). workers p ! i = Ready \<and>
           (\<exists>t ts. tasks p = t # ts \<and> workers (worker_look i p) ! i = Running t \<and>
                   tasks (worker_look i p) = ts)"
proof -
  have inv: "pool_inv p" using assms(1) by (rule reachable_pool_inv)
  have "workers p \<noteq> []" using reachable_threads [OF assms(1)] assms(2) by auto
  then obtain w where w: "w \<in> set (workers p)" by (cases "workers p") auto
  have "Returned \<notin> set (workers p)"
    using inv assms(3) by (auto simp: pool_inv_def stop_inv_def)
  with w assms(5) have "w \<noteq> Returned" "w \<noteq> Running t" for t by auto
  then have "w = Ready \<or> w = Asleep" by (cases w) auto
  moreover have "0 < ready_count p" if "Asleep \<in> set (workers p)"
    using that inv assms(3,4) by (cases "tasks p") (auto simp: pool_inv_def wake_inv_def)
  ultimately have "\<exists>w \<in> set (workers p). w = Ready"
    using w by (auto simp: ready_count_def filter_empty_conv)
  then obtain i where i: "i < length (workers p)" "workers p ! i = Ready"
    by (auto simp: in_set_conv_nth)
  obtain t ts where "tasks p = t # ts" using assms(3) by (cases "tasks p") auto
  with i show ?thesis by (intro exI [of _ i]) (simp add: worker_look_def)
qed

lemma pool_progress_example:
  "\<exists>i < length (workers one_waiting). workers one_waiting ! i = Ready"
proof -
  have "tasks one_waiting \<noteq> []" "notifs one_waiting = 0" "\<forall>t. Running t \<notin> set (workers one_waiting)"
    by (simp_all add: one_waiting_def pool_init_def)
  from pool_progress [OF one_waiting_reachable _ this] show ?thesis by auto
qed

text \<open>When the destructor has joined every worker, every submitted task was started.\<close>

lemma pool_drained:
  assumes "pool_reachable threads p" and "0 < threads"
    and "\<forall>w \<in> set (workers p). w = Returned"
  shows "started p = submitted p"
proof -
  have "workers p \<noteq> []" using reachable_threads [OF assms(1)] assms(2) by auto
  then have "Returned \<in> set (workers p)" using assms(3) by (cases "workers p") auto
  with reachable_pool_inv [OF assms(1)] show ?thesis
    by (simp add: pool_inv_def stop_inv_def order_inv_def)
qed

section \<open>Shutting down\<close>

text \<open>
  The pool's own work: every step but a new task and a spurious wake-up. Each lowers a
  weight, so the work ends.
\<close>

definition pool_work :: "'task pool \<Rightarrow> 'task pool \<Rightarrow> bool" where
  "pool_work p p' \<longleftrightarrow>
     (\<exists>n i. notifs p = Suc n \<and> i < length (workers p) \<and> workers p ! i = Asleep \<and>
        p' = p\<lparr>notifs := n, workers := (workers p)[i := Ready]\<rparr>) \<or>
     (\<exists>n. notifs p = Suc n \<and> Asleep \<notin> set (workers p) \<and> p' = p\<lparr>notifs := n\<rparr>) \<or>
     (\<exists>i. i < length (workers p) \<and> workers p ! i = Ready \<and> p' = worker_look i p) \<or>
     (\<exists>i t. i < length (workers p) \<and> workers p ! i = Running t \<and>
        p' = p\<lparr>workers := (workers p)[i := Ready]\<rparr>) \<or>
     (dtor_at p = NotCalled \<and> p' = p\<lparr>stop := True, dtor_at := StopSet\<rparr>) \<or>
     (dtor_at p = StopSet \<and> p' = p\<lparr>workers := wake_all (workers p), dtor_at := Notified\<rparr>)"

lemma pool_work_step: "pool_work p p' \<Longrightarrow> pool_step p p'"
  unfolding pool_work_def by (blast intro: pool_step.intros)

fun worker_weight :: "'task worker \<Rightarrow> nat" where
  "worker_weight Returned = 0"
| "worker_weight Asleep = 1"
| "worker_weight Ready = 2"
| "worker_weight (Running t) = 3"

definition pool_weight :: "'task pool \<Rightarrow> nat" where
  "pool_weight p =
     3 * length (tasks p) + sum_list (map worker_weight (workers p)) + 2 * notifs p +
     (case dtor_at p of NotCalled \<Rightarrow> length (workers p) + 2 | StopSet \<Rightarrow> length (workers p) + 1 | Notified \<Rightarrow> 0)"

lemma weight_update:
  "i < length ws \<Longrightarrow> sum_list (map worker_weight (ws[i := w])) + worker_weight (ws ! i) =
     sum_list (map worker_weight ws) + worker_weight w"
  by (induction ws arbitrary: i) (auto split: nat.splits simp: nth_Cons')

lemma weight_wake_all:
  "sum_list (map worker_weight (wake_all ws)) \<le> sum_list (map worker_weight ws) + length ws"
  by (induction ws) (auto simp: wake_all_def)

lemma length_wake_all [simp]: "length (wake_all ws) = length ws"
  by (simp add: wake_all_def)

lemma pool_work_weight:
  assumes "pool_work p p'"
  shows "pool_weight p' < pool_weight p"
  using assms unfolding pool_work_def
proof (elim disjE exE conjE)
  fix n i assume "notifs p = Suc n" "i < length (workers p)" "workers p ! i = Asleep"
    "p' = p\<lparr>notifs := n, workers := (workers p)[i := Ready]\<rparr>"
  with weight_update [of i "workers p" Ready] show ?thesis by (cases "dtor_at p") (simp_all add: pool_weight_def)
next
  fix n assume "notifs p = Suc n" "p' = p\<lparr>notifs := n\<rparr>"
  then show ?thesis by (cases "dtor_at p") (simp_all add: pool_weight_def)
next
  fix i assume "i < length (workers p)" "workers p ! i = Ready" "p' = worker_look i p"
  with weight_update [of i "workers p" Returned] weight_update [of i "workers p" Asleep]
    weight_update [of i "workers p" "Running (hd (tasks p))"] show ?thesis
    by (cases "dtor_at p"; cases "tasks p") (auto simp: pool_weight_def worker_look_def)
next
  fix i t assume "i < length (workers p)" "workers p ! i = Running t" "p' = p\<lparr>workers := (workers p)[i := Ready]\<rparr>"
  with weight_update [of i "workers p" Ready] show ?thesis by (cases "dtor_at p") (simp_all add: pool_weight_def)
next
  assume "dtor_at p = NotCalled" "p' = p\<lparr>stop := True, dtor_at := StopSet\<rparr>"
  then show ?thesis by (simp add: pool_weight_def)
next
  assume "dtor_at p = StopSet" "p' = p\<lparr>workers := wake_all (workers p), dtor_at := Notified\<rparr>"
  with weight_wake_all [of "workers p"] show ?thesis by (simp add: pool_weight_def)
qed

interpretation pw: weighted pool_work pool_weight
  by unfold_locales (rule pool_work_weight)

lemma pool_work_reachable: "(pool_work ^^ n) p p' \<Longrightarrow> pool_reachable threads p \<Longrightarrow> pool_reachable threads p'"
  by (induction n arbitrary: p') (auto intro: pool_reachable.step pool_work_step)

text \<open>A pool with nothing left to do has been shut down and its workers have returned.\<close>

lemma no_work_returned:
  assumes "stop_inv p" and "\<forall>q. \<not> pool_work p q"
  shows "\<forall>w \<in> set (workers p). w = Returned"
proof
  fix w assume "w \<in> set (workers p)"
  then obtain i where i: "i < length (workers p)" "workers p ! i = w" by (auto simp: in_set_conv_nth)
  have "dtor_at p = Notified" using assms(2) by (cases "dtor_at p") (auto simp: pool_work_def)
  then have "Asleep \<notin> set (workers p)" using assms(1) by (simp add: stop_inv_def)
  with i \<open>w \<in> set (workers p)\<close> assms(2) show "w = Returned" by (cases w) (auto simp: pool_work_def)
qed

section \<open>Properties\<close>

text \<open>C29: Shutting the pool down ends: from any reachable state its own work is at most so many
  steps, however the steps are chosen, it can always be carried to its end, and at the end the
  destructor can join every worker, and every task ever submitted was started. (A task itself is
  one step: it is taken to return.)\<close>

theorem pool_shutdown_ends:
  assumes "pool_reachable threads p" and "0 < threads" and "(pool_work ^^ n) p p'"
  shows "n \<le> pool_weight p \<and> (\<exists>r. pool_work\<^sup>*\<^sup>* p' r \<and> (\<forall>q. \<not> pool_work r q)) \<and>
         ((\<forall>q. \<not> pool_work p' q) \<longrightarrow>
            (\<forall>w \<in> set (workers p'). w = Returned) \<and> started p' = submitted p')"
proof -
  have r: "pool_reachable threads p'" using pool_work_reachable [OF assms(3,1)] .
  then have "stop_inv p'" using reachable_pool_inv by (auto simp: pool_inv_def)
  then have "(\<forall>q. \<not> pool_work p' q) \<longrightarrow> (\<forall>w \<in> set (workers p'). w = Returned) \<and> started p' = submitted p'"
    using no_work_returned pool_drained [OF r assms(2)] by blast
  moreover have "n \<le> pool_weight p" using pw.steps_bounded [OF assms(3)] by simp
  ultimately show ?thesis using pw.reaches_end by blast
qed

definition one_left :: "nat pool" where
  "one_left = one_done\<lparr>dtor_at := Notified\<rparr>"

theorem pool_shutdown_ends_witness:
  "(1::nat) \<le> pool_weight one_done \<and> set (workers one_left) \<subseteq> {Returned} \<and>
   started one_left = submitted one_left"
proof -
  have "pool_work one_done one_left"
    by (simp add: pool_work_def one_left_def one_done_def wake_all_def)
  then have "(pool_work ^^ 1) one_done one_left" by (simp only: relpowp_1)
  from pool_shutdown_ends [OF one_done_reachable _ this]
  show ?thesis by (simp add: pool_work_def one_left_def one_done_def)
qed

text \<open>Workers start the tasks in the order they were submitted, each at most once, however
  many workers there are and whatever the wake-ups.\<close>

lemma pool_order:
  assumes "pool_reachable threads p"
  shows "submitted p = started p @ tasks p"
  using reachable_pool_inv [OF assms] by (simp add: pool_inv_def order_inv_def)

lemma pool_order_example: "submitted one_waiting = started one_waiting @ [5]"
  using pool_order [OF one_waiting_reachable] by (simp add: one_waiting_def pool_init_def)

end
