(* ===== verification/MsgTable.thy ===== *)
theory MsgTable
  imports MyEnum
begin

text \<open>
  The dispatch table \<open>g_msgHandle\<close> of \<^verbatim>\<open>smer/HandleMsg/src/HandleMsg.cpp\<close>, shared by the
  client and the server build: which handler a message type is given to.
\<close>

datatype MsgHandlerId =
    H_MsgCmd | H_UserSendMsg | H_UserRegMsg | H_UserRegRefusedMsg | H_UserRegAcceptedMsg
  | H_UserLogMsg | H_UserLogRefusedMsg | H_UserLogAcceptedMsg | H_AskForFriendMsg
  | H_AskForFriendNotFoundMsg | H_AskForFriendAcceptMsg

definition g_msgHandle :: "(u32 \<times> MsgHandlerId) list" where
  "g_msgHandle =
     [(msgCode MSG_CMD, H_MsgCmd),
      (msgCode MSG_TALK, H_UserSendMsg),
      (msgCode MSG_REG, H_UserRegMsg),
      (msgCode MSG_REG_REFUSE, H_UserRegRefusedMsg),
      (msgCode MSG_REG_ACCEPT, H_UserRegAcceptedMsg),
      (msgCode MSG_LOGIN, H_UserLogMsg),
      (msgCode MSG_LOGIN_REFUSE, H_UserLogRefusedMsg),
      (msgCode MSG_LOGIN_ACCEPT, H_UserLogAcceptedMsg),
      (msgCode MSG_ASK_FOR_FRIEND, H_AskForFriendMsg),
      (msgCode MSG_ASK_FOR_FRIEND_NOT_FOUND, H_AskForFriendNotFoundMsg),
      (msgCode MSG_ASK_FOR_FRIEND_ACCEPT, H_AskForFriendAcceptMsg)]"

text \<open>The loop of \<open>MsgHandler::handle\<close> stops at the first entry with the type.\<close>

fun find_handler :: "(u32 \<times> MsgHandlerId) list \<Rightarrow> u32 \<Rightarrow> MsgHandlerId option" where
  "find_handler [] t = None"
| "find_handler ((ty, h) # table) t = (if ty = t then Some h else find_handler table t)"

lemma find_handler_map_of: "find_handler table t = map_of table t"
  by (induction table) auto

text \<open>Types without an entry: their messages are dropped.\<close>

definition unhandled :: "MsgType \<Rightarrow> bool" where
  "unhandled t \<longleftrightarrow> t \<in> {MSG_ACK, MSG_LOGOUT, MSG_ASK_FOR_FRIEND_REFUSE, MSG_BUTTON}"

lemma find_handler_unhandled: "find_handler g_msgHandle (msgCode t) = None \<longleftrightarrow> unhandled t"
  by (cases t) (simp_all add: g_msgHandle_def unhandled_def)

lemma find_handler_simps [simp]:
  "find_handler g_msgHandle 0 = Some H_MsgCmd"
  "find_handler g_msgHandle 1 = Some H_UserSendMsg"
  "find_handler g_msgHandle 3 = Some H_UserRegMsg"
  "find_handler g_msgHandle 4 = Some H_UserRegAcceptedMsg"
  "find_handler g_msgHandle 5 = Some H_UserRegRefusedMsg"
  "find_handler g_msgHandle 6 = Some H_UserLogMsg"
  "find_handler g_msgHandle 7 = Some H_UserLogAcceptedMsg"
  "find_handler g_msgHandle 8 = Some H_UserLogRefusedMsg"
  "find_handler g_msgHandle 10 = Some H_AskForFriendMsg"
  "find_handler g_msgHandle 11 = Some H_AskForFriendNotFoundMsg"
  "find_handler g_msgHandle 12 = Some H_AskForFriendAcceptMsg"
  by (simp_all add: g_msgHandle_def)

end
