(* ===== verification/HandleMsgServer.thy ===== *)
theory HandleMsgServer
  imports ComManger MysqlPool SeqToBin ThreadPool MsgTable
begin

text \<open>
  The message handlers of \<^verbatim>\<open>smer/HandleMsg/src/HandleMsg.cpp\<close> as compiled into the
  server (\<^verbatim>\<open>SERVER_COMPARE\<close>). A handler only queues a task on the thread pool; a worker
  runs the task later, on the MySQL pool, the session registry and the queue of objects
  to send. A task is the lambda with what it captured.
\<close>

section \<open>State and tasks\<close>

record ('c, 'db, 'x, 'rd) ServerWorld =
  sseq :: SeqToBin
  mpool :: "'c MysqlPool"
  mdb :: 'db
  rclient :: "'x KGRedisClient"
  rworld :: 'rd

datatype ServerTask =
    SendMsgTask TransObj
  | RegTask TransObj s32
  | LogTask TransObj s32
  | LogOutTask TransObj
  | AskFriendTask TransObj s32
  | AcceptFriendTask TransObj

text \<open>A task returns, or an exception escapes and is kept in its future.\<close>

datatype task_end = Done int | Escaped

type_synonym ('c, 'db, 'x, 'rd) task_res = "(task_end \<times> ('c, 'db, 'x, 'rd) ServerWorld) res"

definition reply_obj :: "TransObj \<Rightarrow> ('c, 'db, 'x, 'rd) ServerWorld \<Rightarrow> ('c, 'db, 'x, 'rd) ServerWorld" where
  "reply_obj obj w = w\<lparr>sseq := pushBuff obj (sseq w)\<rparr>"

text \<open>A statement and a registry call, on the parts of the state they use.\<close>

definition s_query ::
  "('c, 'db, 'row) mysql \<Rightarrow> string \<Rightarrow> fmt_arg list \<Rightarrow> ('c, 'db, 'x, 'rd) ServerWorld \<Rightarrow>
   ('row list option call \<times> ('c, 'db, 'x, 'rd) ServerWorld) res" where
  "s_query m fmt args w =
     bind_res (ExecQuery m fmt args (mpool w) (mdb w))
       (\<lambda>(r, p, db). Inr (r, w\<lparr>mpool := p, mdb := db\<rparr>))"

definition s_insert ::
  "('c, 'db, 'row) mysql \<Rightarrow> string \<Rightarrow> fmt_arg list \<Rightarrow> ('c, 'db, 'x, 'rd) ServerWorld \<Rightarrow>
   (bool call \<times> ('c, 'db, 'x, 'rd) ServerWorld) res" where
  "s_insert m fmt args w =
     bind_res (ExecInsert m fmt args (mpool w) (mdb w))
       (\<lambda>(r, p, db). Inr (r, w\<lparr>mpool := p, mdb := db\<rparr>))"

definition s_com ::
  "('x KGRedisClient \<Rightarrow> 'rd \<Rightarrow> ('a, 'x, 'rd) com_result) \<Rightarrow> ('c, 'db, 'x, 'rd) ServerWorld \<Rightarrow>
   ('a \<times> ('c, 'db, 'x, 'rd) ServerWorld) res" where
  "s_com f w =
     bind_res (f (rclient w) (rworld w)) (\<lambda>(a, k, rd). Inr (a, w\<lparr>rclient := k, rworld := rd\<rparr>))"

section \<open>The tasks\<close>

definition send_task where
  "send_task ra pw obj w =
     bind_res (s_com (isTalkerOnline ra pw (recverId obj)) w)
       (\<lambda>(online, w1). Inr (Done 0, if online then reply_obj obj w1 else w1))"

definition sql_password :: string where
  "sql_password = ''select password from userinfo where username = '%s';''"

definition sql_insert :: string where
  "sql_insert = ''insert into userinfo (username, fd, password) values('%s', %d, '%s');''"

definition sql_max :: string where
  "sql_max = ''select max(userid) as id from userinfo;''"

definition sql_login :: string where
  "sql_login = ''select password, userid from userinfo where username = '%s';''"

definition sql_userid :: string where
  "sql_userid = ''select userid from userinfo where username = '%s';''"

text \<open>
  Registration. The second query runs after a successful insert; a null result set of
  either query is dereferenced. The name is read when the statement is formatted; the
  model reads it, and reports a missing terminator, as soon as the pointer is taken.
\<close>

definition reg_finish where
  "reg_finish m obj w =
     bind_res (s_query m sql_max [] w)
       (\<lambda>(r, w1). case r of
          Thrown \<Rightarrow> Inr (Escaped, w1)
        | Ret None \<Rightarrow> Inl NullDeref
        | Ret (Some []) \<Rightarrow>
            Inr (Done 1, reply_obj (snd (setMsg (''regin err no found current id! '' @ [CHR 0x0A])
                                      (setMsgType (msgCode MSG_REG_REFUSE) obj))) w1)
        | Ret (Some (row # _)) \<Rightarrow>
            (case getInt m row ''id'' of
               None \<Rightarrow> Inr (Escaped, w1)
             | Some i \<Rightarrow>
                 Inr (Done 1, reply_obj (snd (setMsg (''regin accepted! '' @ [CHR 0x0A])
                                (setId i (setMsgType (msgCode MSG_REG_ACCEPT) obj)))) w1)))"

definition reg_task where
  "reg_task m obj fd w =
     (let obj1 = setFd fd obj
      in bind_res (getName obj1) (\<lambda>name.
         bind_res (s_query m sql_password [ArgS name] w) (\<lambda>(r, w1).
           case r of
             Thrown \<Rightarrow> Inr (Escaped, w1)
           | Ret None \<Rightarrow> Inl NullDeref
           | Ret (Some (_ # _)) \<Rightarrow>
               Inr (Done 0, reply_obj (snd (setMsg ''regin err! name reg exists already!''
                                         (setMsgType (msgCode MSG_REG_REFUSE) obj1))) w1)
           | Ret (Some []) \<Rightarrow>
               bind_res (getPasswd obj1) (\<lambda>passwd.
               bind_res (s_insert m sql_insert [ArgS name, ArgD (sint fd), ArgS passwd] w1) (\<lambda>(res, w2).
                 case res of
                   Thrown \<Rightarrow> Inr (Escaped, w2)
                 | Ret True \<Rightarrow> reg_finish m obj1 w2
                 | Ret False \<Rightarrow>
                     Inr (Done 0, reply_obj (snd (setMsg (''regin err! insert error!'' @ [CHR 0x0A])
                                               (setMsgType (msgCode MSG_REG_REFUSE) obj1))) w2))))))"

text \<open>Login. The result of \<open>addSessionTalker\<close> is ignored.\<close>

definition login_refuse where
  "login_refuse text obj w =
     Inr (Done 0, reply_obj (snd (setMsg (text @ [CHR 0x0A])
                               (setMsgType (msgCode MSG_LOGIN_REFUSE) obj))) w)"

definition login_accept where
  "login_accept obj w = Inr (Done 1, reply_obj (setMsgType (msgCode MSG_LOGIN_ACCEPT) obj) w)"

definition login_task ::
  "('c, 'db, 'row) mysql \<Rightarrow> ('x, 'rd) redis \<Rightarrow> string \<Rightarrow> TransObj \<Rightarrow> s32 \<Rightarrow>
   ('c, 'db, 'x, 'rd) ServerWorld \<Rightarrow> ('c, 'db, 'x, 'rd) task_res" where
  "login_task m ra pw obj fd w =
     (if MAX_TRANS_MSG_LEN < unat (mlen obj) then
        login_refuse ''Login err! msg len too long! '' obj w
      else bind_res (getName obj) (\<lambda>name.
           bind_res (s_query m sql_login [ArgS name] w) (\<lambda>(r, w1).
             case r of
               Thrown \<Rightarrow> Inr (Escaped, w1)
             | Ret None \<Rightarrow> login_refuse ''Login err! not found name'' obj w1
             | Ret (Some []) \<Rightarrow> login_accept obj w1
             | Ret (Some (row # _)) \<Rightarrow>
                 (case getString m row ''password'' of
                    None \<Rightarrow> Inr (Escaped, w1)
                  | Some relPasswd \<Rightarrow>
                      bind_res (getPasswd obj) (\<lambda>tansPasswd.
                        if tansPasswd \<noteq> cstr relPasswd then
                          login_refuse ''Login err! password not equal!'' obj w1
                        else (case getInt m row ''userid'' of
                                None \<Rightarrow> login_refuse ''Login err! id not found!'' obj w1
                              | Some i \<Rightarrow>
                                  (let obj1 = setFd fd (setId i obj)
                                   in bind_res (s_com (addSessionTalker ra pw (tid obj1) name fd) w1)
                                        (\<lambda>(_, w2). login_accept obj1 w2))))))))"

definition logout_task where
  "logout_task ra pw obj w =
     bind_res (s_com (removeSessionTalker ra pw (tid obj)) w) (\<lambda>(_, w1). Inr (Done 0, w1))"

definition ask_task ::
  "('c, 'db, 'row) mysql \<Rightarrow> ('x, 'rd) redis \<Rightarrow> string \<Rightarrow> TransObj \<Rightarrow> s32 \<Rightarrow>
   ('c, 'db, 'x, 'rd) ServerWorld \<Rightarrow> ('c, 'db, 'x, 'rd) task_res" where
  "ask_task m ra pw obj fd w =
     bind_res (read_cstr (msg obj)) (\<lambda>name.
     bind_res (s_query m sql_userid [ArgS name] w) (\<lambda>(r, w1).
       case r of
         Thrown \<Rightarrow> Inr (Escaped, w1)
       | Ret None \<Rightarrow> Inl NullDeref
       | Ret (Some []) \<Rightarrow>
           Inr (Done 0, reply_obj (setFd fd (setMsgType (msgCode MSG_ASK_FOR_FRIEND_NOT_FOUND) obj)) w1)
       | Ret (Some (row # _)) \<Rightarrow>
           (case getInt m row ''userid'' of
              None \<Rightarrow> Inr (Escaped, w1)
            | Some i \<Rightarrow>
                (let obj1 = obj\<lparr>recverId := i\<rparr>
                 in bind_res (s_com (isTalkerOnline ra pw (recverId obj1)) w1) (\<lambda>(online, w2).
                      if online then
                        bind_res (s_com (getTalkerFd ra pw (recverId obj1)) w2)
                          (\<lambda>(f, w3). Inr (Done 1, reply_obj (obj1\<lparr>tfd := f\<rparr>) w3))
                      else Inr (Done 0, w2))))))"

definition accept_task where
  "accept_task ra pw obj w =
     bind_res (s_com (isTalkerOnline ra pw (recverId obj)) w) (\<lambda>(online, w1).
       if online then
         bind_res (s_com (getTalkerFd ra pw (recverId obj)) w1) (\<lambda>(f, w2).
           let obj1 = setFd f obj
           in bind_res (s_com (getTalkerName ra pw (tid obj1)) w2) (\<lambda>(n, w3).
                case n of
                  None \<Rightarrow> Inr (Done 1, reply_obj obj1 w3)
                | Some name \<Rightarrow>
                    if NAME_MAX_LEN \<le> length name then Inr (Done (-1), w3)
                    else Inr (Done 1, reply_obj (snd (setMsg name obj1)) w3)))
       else Inr (Done (-1), w1))"

fun run_task ::
  "('c, 'db, 'row) mysql \<Rightarrow> ('x, 'rd) redis \<Rightarrow> string \<Rightarrow> ServerTask \<Rightarrow>
   ('c, 'db, 'x, 'rd) ServerWorld \<Rightarrow> ('c, 'db, 'x, 'rd) task_res" where
  "run_task m ra pw (SendMsgTask obj) w = send_task ra pw obj w"
| "run_task m ra pw (RegTask obj fd) w = reg_task m obj fd w"
| "run_task m ra pw (LogTask obj fd) w = login_task m ra pw obj fd w"
| "run_task m ra pw (LogOutTask obj) w = logout_task ra pw obj w"
| "run_task m ra pw (AskFriendTask obj fd) w = ask_task m ra pw obj fd w"
| "run_task m ra pw (AcceptFriendTask obj) w = accept_task ra pw obj w"

section \<open>The handlers\<close>

type_synonym handler_res = "pool_error + ServerTask pool"

definition handleUserConnectMsg :: "TransObj option \<Rightarrow> s32 \<Rightarrow> ServerTask pool \<Rightarrow> handler_res" where
  "handleUserConnectMsg obj fd p = Inr p"

definition s_handleUserSendMsg :: "TransObj \<Rightarrow> ServerTask pool \<Rightarrow> handler_res" where
  "s_handleUserSendMsg obj p = enqueue (SendMsgTask obj) p"

definition s_handleUserRegMsg :: "TransObj \<Rightarrow> s32 \<Rightarrow> ServerTask pool \<Rightarrow> handler_res" where
  "s_handleUserRegMsg obj fd p =
     (if NAME_MAX_LEN + PASSWORD_MAX_LEN < unat (mlen obj) then Inr p else enqueue (RegTask obj fd) p)"

definition s_handleUserLogMsg :: "TransObj \<Rightarrow> s32 \<Rightarrow> ServerTask pool \<Rightarrow> handler_res" where
  "s_handleUserLogMsg obj fd p = enqueue (LogTask obj fd) p"

definition s_handleUserLogOutMsg :: "TransObj \<Rightarrow> ServerTask pool \<Rightarrow> handler_res" where
  "s_handleUserLogOutMsg obj p = enqueue (LogOutTask obj) p"

definition s_handleAskForFriendMsg :: "TransObj \<Rightarrow> s32 \<Rightarrow> ServerTask pool \<Rightarrow> handler_res" where
  "s_handleAskForFriendMsg obj fd p = enqueue (AskFriendTask obj fd) p"

definition s_handleAskForFriendAcceptMsg :: "TransObj \<Rightarrow> ServerTask pool \<Rightarrow> handler_res" where
  "s_handleAskForFriendAcceptMsg obj p = enqueue (AcceptFriendTask obj) p"

fun server_handler :: "MsgHandlerId \<Rightarrow> TransObj \<Rightarrow> s32 \<Rightarrow> ServerTask pool \<Rightarrow> handler_res" where
  "server_handler H_MsgCmd obj fd p = Inr p"
| "server_handler H_UserSendMsg obj fd p = s_handleUserSendMsg obj p"
| "server_handler H_UserRegMsg obj fd p = s_handleUserRegMsg obj fd p"
| "server_handler H_UserRegRefusedMsg obj fd p = Inr p"
| "server_handler H_UserRegAcceptedMsg obj fd p = Inr p"
| "server_handler H_UserLogMsg obj fd p = s_handleUserLogMsg obj fd p"
| "server_handler H_UserLogRefusedMsg obj fd p = Inr p"
| "server_handler H_UserLogAcceptedMsg obj fd p = Inr p"
| "server_handler H_AskForFriendMsg obj fd p = s_handleAskForFriendMsg obj fd p"
| "server_handler H_AskForFriendNotFoundMsg obj fd p = Inr p"
| "server_handler H_AskForFriendAcceptMsg obj fd p = s_handleAskForFriendAcceptMsg obj p"

definition server_handle :: "TransObj option \<Rightarrow> s32 \<Rightarrow> ServerTask pool \<Rightarrow> handler_res" where
  "server_handle obj fd p =
     (case obj of
        None \<Rightarrow> Inr p
      | Some ob \<Rightarrow> (case find_handler g_msgHandle (msgType ob) of
                      None \<Rightarrow> Inr p
                    | Some h \<Rightarrow> server_handler h ob fd p))"

lemmas s_handler_defs = s_handleUserSendMsg_def s_handleUserRegMsg_def s_handleUserLogMsg_def
  s_handleUserLogOutMsg_def s_handleAskForFriendMsg_def s_handleAskForFriendAcceptMsg_def

section \<open>Resources and replies\<close>

lemma s_query_frame:
  assumes "s_query m fmt args w = Inr (r, w')"
  shows "sseq w' = sseq w" "rclient w' = rclient w" "rworld w' = rworld w"
    and "pool_counts (mpool w) out \<Longrightarrow> pool_counts (mpool w') (if r = Thrown then Suc out else out)"
  using assms by (auto simp: s_query_def dest: ExecQuery_counts)

lemma s_insert_frame:
  assumes "s_insert m fmt args w = Inr (r, w')"
  shows "sseq w' = sseq w" "rclient w' = rclient w" "rworld w' = rworld w"
    and "pool_counts (mpool w) out \<Longrightarrow> pool_counts (mpool w') (if r = Thrown then Suc out else out)"
  using assms by (auto simp: s_insert_def dest: ExecInsert_counts)

lemma s_com_frame:
  assumes "s_com f w = Inr (a, w')"
  shows "sseq w' = sseq w" "mpool w' = mpool w" "mdb w' = mdb w"
  using assms by (auto simp: s_com_def)

lemma reply_obj_fields [simp]:
  "mpool (reply_obj obj w) = mpool w" "mdb (reply_obj obj w) = mdb w"
  "rclient (reply_obj obj w) = rclient w" "rworld (reply_obj obj w) = rworld w"
  "sseq (reply_obj obj w) = pushBuff obj (sseq w)"
  by (simp_all add: reply_obj_def)

text \<open>
  What a task does to the shared resources: it pushes at most one object, one the sender
  sends (of full size, and not the object that ends the sender), and a task that returns has
  given its MySQL connection back.
\<close>

definition sendable :: "TransObj \<Rightarrow> bool" where
  "sendable obj \<longleftrightarrow> wf_size obj \<and> msgType obj \<noteq> msgCode MSG_BUTTON"

definition task_effect ::
  "task_end \<Rightarrow> ('c, 'db, 'x, 'rd) ServerWorld \<Rightarrow> ('c, 'db, 'x, 'rd) ServerWorld \<Rightarrow> bool" where
  "task_effect e w w' \<longleftrightarrow>
     (sseq w' = sseq w \<or> (e \<noteq> Escaped \<and> (\<exists>obj'. sendable obj' \<and> sseq w' = pushBuff obj' (sseq w)))) \<and>
     (\<forall>out. pool_counts (mpool w) out \<longrightarrow>
        pool_counts (mpool w') out \<or> e = Escaped \<and> pool_counts (mpool w') (Suc out))"

text \<open>
  The effect of a program over the state, with one rule for each form a task has, so
  that the effect of a task follows its text.
\<close>

definition effects :: "('c, 'db, 'x, 'rd) ServerWorld \<Rightarrow> ('c, 'db, 'x, 'rd) task_res \<Rightarrow> bool" where
  "effects w prog \<longleftrightarrow> (\<forall>e w'. prog = Inr (e, w') \<longrightarrow> task_effect e w w')"

lemma effects_quiet: "effects w (Inr (e, w))"
  by (simp add: effects_def task_effect_def)

lemma effects_reply: "sendable obj \<Longrightarrow> effects w (Inr (Done n, reply_obj obj w))"
  by (auto simp: effects_def task_effect_def)

lemma effects_undefined: "effects w (Inl e)"
  by (simp add: effects_def)

lemma effects_com:
  assumes "\<And>a w1. effects w1 (g a w1)"
  shows "effects w (bind_res (s_com f w) (\<lambda>(a, w1). g a w1))"
proof -
  have "task_effect e w w'" if "s_com f w = Inr (a, w1)" "g a w1 = Inr (e, w')" for a w1 e w'
    using assms [of w1 a] that(2) s_com_frame [OF that(1)] by (simp add: effects_def task_effect_def)
  then show ?thesis by (auto simp: effects_def)
qed

lemma effects_pure:
  assumes "\<And>x. effects w (g x)"
  shows "effects w (bind_res m (\<lambda>x. g x))"
  using assms by (auto simp: effects_def)

lemma effects_after_call:
  assumes "sseq w1 = sseq w" "\<And>out. pool_counts (mpool w) out \<Longrightarrow>
      pool_counts (mpool w1) (if r = Thrown then Suc out else out)"
    and "\<And>w2. g Thrown w2 = Inr (Escaped, w2)" and "\<And>x w2. effects w2 (g (Ret x) w2)"
  shows "g r w1 = Inr (e, w') \<longrightarrow> task_effect e w w'"
  using assms(1,2) assms(3) [of w1] assms(4) [of w1]
  by (cases r) (auto simp: effects_def task_effect_def)

lemma effects_query:
  assumes "\<And>w1. g Thrown w1 = Inr (Escaped, w1)" and "\<And>x w1. effects w1 (g (Ret x) w1)"
  shows "effects w (bind_res (s_query m fmt args w) (\<lambda>(r, w1). g r w1))"
  using effects_after_call [OF s_query_frame(1) s_query_frame(4) assms]
  by (fastforce simp: effects_def)

lemma effects_insert:
  assumes "\<And>w1. g Thrown w1 = Inr (Escaped, w1)" and "\<And>x w1. effects w1 (g (Ret x) w1)"
  shows "effects w (bind_res (s_insert m fmt args w) (\<lambda>(r, w1). g r w1))"
  using effects_after_call [OF s_insert_frame(1) s_insert_frame(4) assms]
  by (fastforce simp: effects_def)

lemma effects_ret: "effects w (f x) \<Longrightarrow> effects w (case Ret x of Ret x \<Rightarrow> f x | Thrown \<Rightarrow> a)"
  by simp

lemma effects_option:
  "effects w a \<Longrightarrow> (\<And>y. effects w (f y)) \<Longrightarrow> effects w (case x of None \<Rightarrow> a | Some y \<Rightarrow> f y)"
  by (simp split: option.split)

lemma effects_list:
  "effects w a \<Longrightarrow> (\<And>y ys. effects w (f y ys)) \<Longrightarrow> effects w (case x of [] \<Rightarrow> a | y # ys \<Rightarrow> f y ys)"
  by (simp split: list.split)

lemma effects_bool: "effects w a \<Longrightarrow> effects w b \<Longrightarrow> effects w (case x of True \<Rightarrow> a | False \<Rightarrow> b)"
  by (simp split: bool.split)

lemma effects_if: "effects w a \<Longrightarrow> effects w b \<Longrightarrow> effects w (if x then a else b)"
  by simp

lemmas effects_rules = effects_quiet effects_reply effects_undefined effects_ret effects_query
  effects_insert effects_com effects_pure effects_option effects_list effects_bool effects_if

lemma sendable_setters [simp]:
  "sendable (setFd f obj) = sendable obj" "sendable (setId i obj) = sendable obj"
  "sendable (obj\<lparr>recverId := i\<rparr>) = sendable obj" "sendable (obj\<lparr>tfd := f\<rparr>) = sendable obj"
  "sendable obj \<Longrightarrow> sendable (snd (setMsg s obj))"
  "sendable obj \<Longrightarrow> t \<noteq> msgCode MSG_BUTTON \<Longrightarrow> sendable (setMsgType t obj)"
  by (auto simp: sendable_def wf_size_def setter_defs setMsg_def clearMsg_def max_len_defs)

lemma effects_send:
  assumes "sendable obj"
  shows "effects w (send_task ra pw obj w)"
proof -
  have "effects w1 (Inr (Done 0, if b then reply_obj obj w1 else w1))" for w1 b
    using assms by (simp add: effects_reply effects_quiet)
  then show ?thesis unfolding send_task_def by (rule effects_com)
qed

lemma effects_logout: "effects w (logout_task ra pw obj w)"
  unfolding logout_task_def by (intro effects_rules)

lemma effects_accept: "sendable obj \<Longrightarrow> effects w (accept_task ra pw obj w)"
  unfolding accept_task_def Let_def by (intro effects_rules) simp_all

lemma effects_ask: "sendable obj \<Longrightarrow> effects w (ask_task m ra pw obj fd w)"
  unfolding ask_task_def Let_def by (intro effects_rules) simp_all

lemma effects_login: "sendable obj \<Longrightarrow> effects w (login_task m ra pw obj fd w)"
  unfolding login_task_def Let_def login_refuse_def login_accept_def
  by (intro effects_rules) simp_all

lemma effects_reg_finish: "sendable obj \<Longrightarrow> effects w (reg_finish m obj w)"
  unfolding reg_finish_def by (intro effects_rules) simp_all

lemma effects_reg: "sendable obj \<Longrightarrow> effects w (reg_task m obj fd w)"
  unfolding reg_task_def Let_def by (intro effects_rules effects_reg_finish) simp_all

fun task_obj :: "ServerTask \<Rightarrow> TransObj" where
  "task_obj (SendMsgTask obj) = obj"
| "task_obj (RegTask obj fd) = obj"
| "task_obj (LogTask obj fd) = obj"
| "task_obj (LogOutTask obj) = obj"
| "task_obj (AskFriendTask obj fd) = obj"
| "task_obj (AcceptFriendTask obj) = obj"

lemma effects_run_task: "sendable (task_obj t) \<Longrightarrow> effects w (run_task m ra pw t w)"
  by (cases t) (simp_all add: effects_send effects_logout effects_accept effects_ask
      effects_login effects_reg)

lemma run_task_effect:
  assumes "run_task m ra pw t w = Inr (e, w')" and "sendable (task_obj t)"
  shows "task_effect e w w'"
  using effects_run_task [OF assms(2), of w m ra pw] assms(1) by (simp add: effects_def)

text \<open>A handler queues at most one task, for a message that the dispatch table knows.\<close>

lemma server_handle_enqueues:
  assumes "server_handle (Some obj) fd p = Inr p'"
  shows "p' = p \<or> (\<exists>t. enqueue t p = Inr p' \<and> task_obj t = obj \<and> msgType obj \<noteq> msgCode MSG_BUTTON \<and>
           (\<forall>ob. t \<noteq> LogOutTask ob))"
proof (cases "find_handler g_msgHandle (msgType obj)")
  case None
  with assms show ?thesis by (simp add: server_handle_def)
next
  case (Some h)
  then have "msgType obj \<noteq> msgCode MSG_BUTTON"
    using find_handler_unhandled [of MSG_BUTTON] by (auto simp: unhandled_def simp del: msgCode.simps)
  moreover have "server_handler h obj fd p = Inr p'" using assms Some by (simp add: server_handle_def)
  then have "p' = p \<or> (\<exists>t. enqueue t p = Inr p' \<and> task_obj t = obj \<and> (\<forall>ob. t \<noteq> LogOutTask ob))"
    by (cases h) (force simp: s_handler_defs split: if_splits)+
  ultimately show ?thesis by blast
qed

section \<open>Outcomes of the tasks\<close>

text \<open>The parts of the state that go with a documented Redis, a connection and a sound registry.\<close>

definition redis_up ::
  "('x, 'rd) redis \<Rightarrow> ('rd \<Rightarrow> redis_abs) \<Rightarrow> ('c, 'db, 'x, 'rd) ServerWorld \<Rightarrow> bool" where
  "redis_up ra view w \<longleftrightarrow>
     redis_documented ra view \<and> connected (rclient w) \<and> registry_ok (view (rworld w))"

lemma s_com_online:
  assumes "redis_up ra view w"
  shows "\<exists>w'. s_com (isTalkerOnline ra pw i) w = Inr (session_online i (view (rworld w)), w') \<and>
           redis_up ra view w' \<and> view (rworld w') = view (rworld w) \<and> sseq w' = sseq w \<and>
           mpool w' = mpool w \<and> mdb w' = mdb w"
proof -
  obtain k' rd' where "isTalkerOnline ra pw i (rclient w) (rworld w) =
      Inr (session_online i (view (rworld w)), k', rd')" "connected k'" "view rd' = view (rworld w)"
    using assms online_refines [of ra view "rclient w" "rworld w" pw i] by (auto simp: redis_up_def)
  with assms show ?thesis by (simp add: s_com_def redis_up_def)
qed

lemma s_com_fd:
  assumes "redis_up ra view w" and "a_hash (view (rworld w)) (to_string (sint i)) ''fd'' = Some v"
  shows "\<exists>w'. s_com (getTalkerFd ra pw i) w = Inr (atoi v, w') \<and>
           redis_up ra view w' \<and> view (rworld w') = view (rworld w) \<and> sseq w' = sseq w \<and>
           mpool w' = mpool w \<and> mdb w' = mdb w"
proof -
  obtain k' rd' where "getTalkerFd ra pw i (rclient w) (rworld w) = Inr (atoi v, k', rd')"
      "connected k'" "view rd' = view (rworld w)"
    using assms fd_refines [of ra view "rclient w" "rworld w" pw i] by (auto simp: redis_up_def)
  with assms show ?thesis by (simp add: s_com_def redis_up_def)
qed

lemma s_com_name:
  assumes "redis_up ra view w" and "a_hash (view (rworld w)) (to_string (sint i)) ''name'' = Some v"
  shows "\<exists>w'. s_com (getTalkerName ra pw i) w = Inr (Some v, w') \<and>
           redis_up ra view w' \<and> view (rworld w') = view (rworld w) \<and> sseq w' = sseq w \<and>
           mpool w' = mpool w \<and> mdb w' = mdb w"
proof -
  obtain k' rd' where "getTalkerName ra pw i (rclient w) (rworld w) = Inr (Some v, k', rd')"
      "connected k'" "view rd' = view (rworld w)"
    using assms name_refines [of ra view "rclient w" "rworld w" pw i] by (auto simp: redis_up_def)
  with assms show ?thesis by (simp add: s_com_def redis_up_def)
qed

lemma s_com_add:
  assumes "redis_up ra view w" and "word_ok name" and "length name \<le> 61"
  shows "\<exists>w'. s_com (addSessionTalker ra pw i name fd) w = Inr (True, w') \<and>
           redis_up ra view w' \<and> view (rworld w') = session_add i name fd (view (rworld w)) \<and>
           sseq w' = sseq w \<and> mpool w' = mpool w \<and> mdb w' = mdb w"
proof -
  obtain k' rd' where "addSessionTalker ra pw i name fd (rclient w) (rworld w) = Inr (True, k', rd')"
      "connected k'" "view rd' = session_add i name fd (view (rworld w))"
    using assms add_refines [of ra view "rclient w" "rworld w" name pw i fd]
    by (auto simp: redis_up_def)
  with assms show ?thesis by (simp add: s_com_def redis_up_def registry_ok_add)
qed

lemma s_com_remove:
  assumes "redis_up ra view w"
  shows "\<exists>w'. s_com (removeSessionTalker ra pw i) w = Inr (True, w') \<and>
           redis_up ra view w' \<and> view (rworld w') = session_remove i (view (rworld w)) \<and>
           sseq w' = sseq w \<and> mpool w' = mpool w \<and> mdb w' = mdb w"
proof -
  obtain k' rd' where "removeSessionTalker ra pw i (rclient w) (rworld w) = Inr (True, k', rd')"
      "connected k'" "view rd' = session_remove i (view (rworld w))"
    using assms remove_refines [of ra view "rclient w" "rworld w" pw i]
    by (auto simp: redis_up_def)
  with assms show ?thesis by (simp add: s_com_def redis_up_def registry_ok_remove)
qed

lemma login_outcome:
  assumes up: "redis_up ra view w" and len: "unat (mlen obj) \<le> 64"
    and name: "getName obj = Inr name" "word_ok name" "length name \<le> 61"
    and passwd: "getPasswd obj = Inr pwd"
    and q: "ExecQuery m sql_login [ArgS name] (mpool w) (mdb w) = Inr (Ret (Some (row # rows)), p1, db1)"
    and stored: "getString m row ''password'' = Some st" "cstr st = pwd"
    and i: "getInt m row ''userid'' = Some i"
  shows "\<exists>w'. login_task m ra pw obj fd w = Inr (Done 1, w') \<and> redis_up ra view w' \<and>
           sseq w' = pushBuff (obj\<lparr>tid := i, tfd := fd, msgType := msgCode MSG_LOGIN_ACCEPT\<rparr>) (sseq w) \<and>
           view (rworld w') = session_add i name fd (view (rworld w)) \<and> mpool w' = p1 \<and> mdb w' = db1"
proof -
  let ?w1 = "w\<lparr>mpool := p1, mdb := db1\<rparr>"
  have "redis_up ra view ?w1" using up by (simp add: redis_up_def)
  from s_com_add [OF this name(2,3), of pw i fd] obtain w2
    where "s_com (addSessionTalker ra pw i name fd) ?w1 = Inr (True, w2)"
    and "redis_up ra view w2" "view (rworld w2) = session_add i name fd (view (rworld w))"
    and "sseq w2 = sseq w" "mpool w2 = p1" "mdb w2 = db1" by auto
  with len name passwd q stored i show ?thesis
    by (simp add: login_task_def s_query_def MAX_TRANS_MSG_LEN_def Let_def login_accept_def
        setter_defs redis_up_def)
qed

lemma ask_outcome:
  assumes up: "redis_up ra view w" and name: "read_cstr (msg obj) = Inr name"
    and q: "ExecQuery m sql_userid [ArgS name] (mpool w) (mdb w) = Inr (Ret (Some (row # rows)), p1, db1)"
    and i: "getInt m row ''userid'' = Some i"
    and on: "session_online i (view (rworld w))"
    and fd: "a_hash (view (rworld w)) (to_string (sint i)) ''fd'' = Some v"
  shows "\<exists>w'. ask_task m ra pw obj fd0 w = Inr (Done 1, w') \<and> redis_up ra view w' \<and>
           sseq w' = pushBuff (obj\<lparr>recverId := i, tfd := atoi v\<rparr>) (sseq w)"
proof -
  let ?w1 = "w\<lparr>mpool := p1, mdb := db1\<rparr>"
  have up1: "redis_up ra view ?w1" using up by (simp add: redis_up_def)
  from s_com_online [OF this, of pw i] on obtain w2
    where 2: "s_com (isTalkerOnline ra pw i) ?w1 = Inr (True, w2)" "redis_up ra view w2"
      "view (rworld w2) = view (rworld w)" "sseq w2 = sseq w" by auto
  from s_com_fd [OF this(2), of i v pw] fd 2(3) obtain w3
    where 3: "s_com (getTalkerFd ra pw i) w2 = Inr (atoi v, w3)" "redis_up ra view w3"
      "sseq w3 = sseq w2" by auto
  with name q i 2 show ?thesis
    by (simp add: ask_task_def s_query_def Let_def redis_up_def)
qed

lemma login_refused:
  assumes "unat (mlen obj) \<le> 64" "getName obj = Inr name" "getPasswd obj = Inr pwd"
    and "ExecQuery m sql_login [ArgS name] (mpool w) (mdb w) = Inr (Ret (Some (row # rows)), p1, db1)"
    and "getString m row ''password'' = Some st" "cstr st \<noteq> pwd"
  shows "\<exists>w' obj'. login_task m ra pw obj fd w = Inr (Done 0, w') \<and>
           sseq w' = pushBuff obj' (sseq w) \<and> msgType obj' = msgCode MSG_LOGIN_REFUSE \<and>
           tid obj' = tid obj \<and> tfd obj' = tfd obj \<and> rworld w' = rworld w \<and> rclient w' = rclient w"
proof -
  have "login_task m ra pw obj fd w =
      login_refuse ''Login err! password not equal!'' obj (w\<lparr>mpool := p1, mdb := db1\<rparr>)"
    using assms by (simp add: login_task_def s_query_def MAX_TRANS_MSG_LEN_def)
  then show ?thesis by (auto simp: login_refuse_def setMsgType_def intro!: exI)
qed

lemma send_outcome:
  assumes "redis_up ra view w"
  shows "\<exists>w'. send_task ra pw obj w = Inr (Done 0, w') \<and> redis_up ra view w' \<and>
           view (rworld w') = view (rworld w) \<and>
           sseq w' = (if session_online (recverId obj) (view (rworld w))
                      then pushBuff obj (sseq w) else sseq w)"
proof -
  obtain w1 where "s_com (isTalkerOnline ra pw (recverId obj)) w =
      Inr (session_online (recverId obj) (view (rworld w)), w1)"
    "redis_up ra view w1" "view (rworld w1) = view (rworld w)" "sseq w1 = sseq w"
    using s_com_online [OF assms] by blast
  then show ?thesis by (simp add: send_task_def redis_up_def)
qed

lemma logout_outcome:
  assumes "redis_up ra view w"
  shows "\<exists>w'. logout_task ra pw obj w = Inr (Done 0, w') \<and> redis_up ra view w' \<and>
           view (rworld w') = session_remove (tid obj) (view (rworld w)) \<and> sseq w' = sseq w"
proof -
  obtain w1 where "s_com (removeSessionTalker ra pw (tid obj)) w = Inr (True, w1)"
    "redis_up ra view w1" "view (rworld w1) = session_remove (tid obj) (view (rworld w))"
    "sseq w1 = sseq w"
    using s_com_remove [OF assms] by blast
  then show ?thesis by (simp add: logout_task_def)
qed

lemma session_add_lookup [simp]:
  "session_online i (session_add i name fd A)"
  "a_hash (session_add i name fd A) (to_string (sint i)) ''fd'' = Some (to_string (sint fd))"
  "a_hash (session_add i name fd A) (to_string (sint i)) ''name'' = Some name"
  by (simp_all add: session_online_def session_add_def Let_def)

lemma session_remove_lookup [simp]: "\<not> session_online i (session_remove i A)"
  by (simp add: session_online_def session_remove_def Let_def)

section \<open>Properties\<close>

text \<open>A server with one idle connection, one known user and an empty registry; a login.\<close>

definition demo_server :: "(string \<times> s32) list \<Rightarrow> redis_abs \<Rightarrow>
    (nat, (string \<times> s32) list, nat, redis_abs) ServerWorld" where
  "demo_server rows A = \<lparr>sseq = \<lparr>buff = [], rcvBuff = [], sysBuff = []\<rparr>,
     mpool = \<lparr>connList = [0], curSize = 1, maxSize = 1\<rparr>, mdb = rows,
     rclient = mini_client, rworld = A\<rparr>"

definition demo_login :: TransObj where
  "demo_login = TransObj_default\<lparr>msgType := 6, tid := -1, tfd := -1,
     msg := ''bob'' @ replicate 21 NUL @ ''secret'' @ replicate 34 NUL\<rparr>"

lemma demo_up: "registry_ok A \<Longrightarrow> redis_up mini_redis (\<lambda>A. A) (demo_server rows A)"
  by (simp add: redis_up_def mini_documented demo_server_def mini_connected)

lemma demo_login_fields:
  "getName demo_login = Inr ''bob''" "getPasswd demo_login = Inr ''secret''"
  "wf_size demo_login" "unat (mlen demo_login) \<le> 64"
  by (simp_all add: demo_login_def getName_def getPasswd_def read_cstr_def cstr_def NUL_def
      wf_size_def max_len_defs TransObj_default_def)

lemma demo_query:
  assumes "cformat fmt args \<noteq> None"
  shows "ExecQuery demo_mysql fmt args (mpool (demo_server rows A)) rows =
           Inr (Ret (Some rows), mpool (demo_server rows A), rows)"
  using assms
  by (auto simp: ExecQuery_def GetConnection_def demo_mysql_def demo_server_def sql_text_def
      snprintf_def ReleaseConnection_def)

lemma demo_mdb [simp]: "mdb (demo_server rows A) = rows" "rworld (demo_server rows A) = A"
  "sseq (demo_server rows A) = \<lparr>buff = [], rcvBuff = [], sysBuff = []\<rparr>"
  by (simp_all add: demo_server_def)

lemma demo_sql: "cformat sql_login [ArgS s] \<noteq> None" "cformat sql_userid [ArgS s] \<noteq> None"
  "cformat sql_password [ArgS s] \<noteq> None"
  by (simp_all add: sql_login_def sql_userid_def sql_password_def)

lemma demo_word_ok: "word_ok ''bob''"
  by (simp add: word_ok_def percent_free_def NUL_def)

text \<open>C11: A login of a known user is decided by the password. If it is the stored one, the reply is an
  acceptance with the user's id and the connection's socket, and the registry has the session;
  otherwise the reply is a refusal that keeps the id and socket the client supplied, and the
  registry is untouched.\<close>

theorem login_decides:
  assumes "redis_up ra view w" and "unat (mlen obj) \<le> 64"
    and "getName obj = Inr name" "word_ok name" "length name \<le> 61" and "getPasswd obj = Inr pwd"
    and "ExecQuery m sql_login [ArgS name] (mpool w) (mdb w) = Inr (Ret (Some (row # rows)), p1, db1)"
    and "getString m row ''password'' = Some st" and "getInt m row ''userid'' = Some i"
  shows "if cstr st = pwd
         then \<exists>w'. login_task m ra pw obj fd w = Inr (Done 1, w') \<and>
                sseq w' = pushBuff (obj\<lparr>tid := i, tfd := fd, msgType := msgCode MSG_LOGIN_ACCEPT\<rparr>) (sseq w) \<and>
                view (rworld w') = session_add i name fd (view (rworld w))
         else \<exists>w' obj'. login_task m ra pw obj fd w = Inr (Done 0, w') \<and>
                sseq w' = pushBuff obj' (sseq w) \<and> msgType obj' = msgCode MSG_LOGIN_REFUSE \<and>
                tid obj' = tid obj \<and> tfd obj' = tfd obj \<and> rworld w' = rworld w"
proof (cases "cstr st = pwd")
  case True
  then show ?thesis using login_outcome [OF assms(1-8) True assms(9), of pw fd] by auto
next
  case False
  then show ?thesis
    using login_refused [OF assms(2,3,6,7,8) False, of ra pw fd] by auto
qed

theorem login_decides_witness:
  "\<exists>w'. login_task demo_mysql mini_redis [] demo_login 9 (demo_server [(''secret'', 5)] mini_empty) =
          Inr (Done 1, w') \<and>
        buff (sseq w') = [demo_login\<lparr>tid := 5, tfd := 9, msgType := 7\<rparr>]"
proof -
  let ?w = "demo_server [(''secret'', 5)] mini_empty"
  have q: "ExecQuery demo_mysql sql_login [ArgS ''bob''] (mpool ?w) (mdb ?w) =
      Inr (Ret (Some [(''secret'', 5)]), mpool ?w, [(''secret'', 5)])"
    using demo_query [OF demo_sql(1), of "''bob''" "[(''secret'', 5)]" mini_empty] by simp
  have g: "getString demo_mysql (''secret'', 5) ''password'' = Some ''secret''"
    "getInt demo_mysql (''secret'', 5) ''userid'' = Some 5"
    by (simp_all add: demo_mysql_def)
  have "length ''bob'' \<le> 61" "cstr ''secret'' = ''secret''" by (simp_all add: cstr_def NUL_def)
  with login_decides [OF demo_up [OF mini_registry] demo_login_fields(4,1) demo_word_ok _
      demo_login_fields(2) q g, of "[]" 9]
  show ?thesis by (auto simp: pushBuff_def cq_push_def)
qed

text \<open>A login under a name the database does not know is accepted, whatever the password: the reply
  is an acceptance with the id and socket the client supplied, and no session is registered.\<close>

lemma unknown_login_accepted:
  assumes "unat (mlen obj) \<le> 64" and "getName obj = Inr name"
    and "ExecQuery m sql_login [ArgS name] (mpool w) (mdb w) = Inr (Ret (Some []), p1, db1)"
  shows "\<exists>w'. login_task m ra pw obj fd w = Inr (Done 1, w') \<and>
           sseq w' = pushBuff (obj\<lparr>msgType := msgCode MSG_LOGIN_ACCEPT\<rparr>) (sseq w) \<and>
           rworld w' = rworld w"
  using assms
  by (simp add: login_task_def s_query_def MAX_TRANS_MSG_LEN_def login_accept_def setMsgType_def)

lemma unknown_login_accepted_example:
  "\<exists>w'. login_task demo_mysql mini_redis [] demo_login 9 (demo_server [] mini_empty) = Inr (Done 1, w') \<and>
        buff (sseq w') = [demo_login\<lparr>msgType := 7\<rparr>]"
proof -
  have "ExecQuery demo_mysql sql_login [ArgS ''bob''] (mpool (demo_server [] mini_empty))
      (mdb (demo_server [] mini_empty)) = Inr (Ret (Some []), mpool (demo_server [] mini_empty), [])"
    using demo_query [OF demo_sql(1), of "''bob''" "[]" mini_empty] by simp
  from unknown_login_accepted [OF demo_login_fields(4,1) this, of mini_redis "[]" 9]
  show ?thesis by (auto simp: pushBuff_def cq_push_def)
qed

text \<open>Without a database connection the query gives a null result set. A login is then refused,
  but a registration and a friend request dereference the null pointer.\<close>

lemma no_connection_outcome:
  assumes "getName obj = Inr name" and "unat (mlen obj) \<le> 64"
    and "\<And>fmt args. ExecQuery m fmt args (mpool w) (mdb w) = Inr (Ret None, p1, db1)"
  shows "reg_task m obj fd w = Inl NullDeref \<and> ask_task m ra pw obj fd w = Inl NullDeref \<and>
         (\<exists>w'. login_task m ra pw obj fd w = Inr (Done 0, w'))"
proof -
  have "read_cstr (msg obj) = Inr name" "getName (setFd fd obj) = Inr name"
    using assms(1) by (simp_all add: getName_def setFd_def)
  then show ?thesis
    using assms
    by (simp add: reg_task_def ask_task_def login_task_def s_query_def login_refuse_def
        MAX_TRANS_MSG_LEN_def Let_def)
qed

lemma no_connection_outcome_example:
  "reg_task demo_mysql demo_login 9
     ((demo_server [] mini_empty)\<lparr>mpool := \<lparr>connList = [], curSize = 1, maxSize = 1\<rparr>\<rparr>) = Inl NullDeref"
proof -
  let ?w = "(demo_server [] mini_empty)\<lparr>mpool := \<lparr>connList = [], curSize = 1, maxSize = 1\<rparr>\<rparr>"
  have "ExecQuery demo_mysql fmt args (mpool ?w) (mdb ?w) = Inr (Ret None, mpool ?w, mdb ?w)" for fmt args
    by (simp add: ExecQuery_def GetConnection_def)
  from no_connection_outcome [OF demo_login_fields(1,4) this] show ?thesis by blast
qed

text \<open>C17: A registration is decided by the database. A known name is refused; an unknown one whose
  insertion succeeds is accepted with the id the database reports; one whose insertion fails is
  refused. Every reply goes to the socket the request came from.\<close>

theorem registration_decides:
  assumes "getName obj = Inr name" and "getPasswd obj = Inr passwd"
    and "ExecQuery m sql_password [ArgS name] (mpool w) (mdb w) = Inr (Ret (Some known), p1, db1)"
    and "ExecInsert m sql_insert [ArgS name, ArgD (sint fd), ArgS passwd] p1 db1 = Inr (Ret ok, p2, db2)"
    and "ExecQuery m sql_max [] p2 db2 = Inr (Ret (Some (row # rows)), p3, db3)"
    and "getInt m row ''id'' = Some i"
  shows "\<exists>n w' obj'. reg_task m obj fd w = Inr (Done n, w') \<and> sseq w' = pushBuff obj' (sseq w) \<and>
           tfd obj' = fd \<and>
           msgType obj' = msgCode (if known = [] \<and> ok then MSG_REG_ACCEPT else MSG_REG_REFUSE) \<and>
           tid obj' = (if known = [] \<and> ok then i else tid obj)"
proof -
  have n: "getName (setFd fd obj) = Inr name" "getPasswd (setFd fd obj) = Inr passwd"
    using assms(1,2) by (simp_all add: getName_def getPasswd_def setFd_def)
  show ?thesis
  proof (cases known)
    case (Cons x xs)
    then show ?thesis
      using n assms(3) by (auto simp: reg_task_def s_query_def setter_defs intro!: exI)
  next
    case Nil
    then show ?thesis
      using n assms(3-)
      by (cases ok)
         (auto simp: reg_task_def reg_finish_def s_query_def s_insert_def setter_defs intro!: exI)
  qed
qed

theorem registration_decides_witness:
  "\<exists>n w' obj'. reg_task demo_mysql demo_login 9 (demo_server [(''secret'', 5)] mini_empty) = Inr (Done n, w') \<and>
     buff (sseq w') = [obj'] \<and> tfd obj' = 9 \<and> msgType obj' = 5"
proof -
  let ?w = "demo_server [(''secret'', 5)] mini_empty"
  have i: "ExecInsert demo_mysql sql_insert [ArgS ''bob'', ArgD (sint (9::s32)), ArgS ''secret'']
      (mpool ?w) [(''secret'', 5)] = Inr (Ret True, mpool ?w, [(''secret'', 5)])"
    by (simp add: ExecInsert_def GetConnection_def demo_mysql_def demo_server_def sql_text_def
        snprintf_def ReleaseConnection_def sql_insert_def)
  have m: "ExecQuery demo_mysql sql_max [] (mpool ?w) [(''secret'', 5)] =
      Inr (Ret (Some [(''secret'', 5)]), mpool ?w, [(''secret'', 5)])"
    by (rule demo_query) (simp add: sql_max_def)
  have q: "ExecQuery demo_mysql sql_password [ArgS ''bob''] (mpool ?w) (mdb ?w) =
      Inr (Ret (Some [(''secret'', 5)]), mpool ?w, [(''secret'', 5)])"
    using demo_query [OF demo_sql(3), of "''bob''" "[(''secret'', 5)]" mini_empty] by simp
  have "getInt demo_mysql (''secret'', 5) ''id'' = Some 5" by (simp add: demo_mysql_def)
  from registration_decides [OF demo_login_fields(1,2) q i m this] show ?thesis
    by (fastforce simp: pushBuff_def cq_push_def)
qed

text \<open>The statement that registers a user is cut to 99 characters: it reaches the database whole
  only when name, password and socket number together have at most 36.\<close>

lemma insert_statement_cut:
  assumes "NUL \<notin> set name" and "NUL \<notin> set passwd"
  shows "sql_text sql_insert [ArgS name, ArgD (sint fd), ArgS passwd] =
     Inr (take 99 (''insert into userinfo (username, fd, password) values('' @ [CHR 0x27] @ name @ [CHR 0x27] @
       '', '' @ to_string (sint (fd::s32)) @ '', '' @ [CHR 0x27] @ passwd @ [CHR 0x27] @ '');''))"
proof -
  let ?s = "''insert into userinfo (username, fd, password) values('' @ [CHR 0x27] @ name @ [CHR 0x27] @
       '', '' @ to_string (sint fd) @ '', '' @ [CHR 0x27] @ passwd @ [CHR 0x27] @ '');''"
  have f: "cformat sql_insert [ArgS name, ArgD (sint fd), ArgS passwd] = Some ?s"
    by (simp add: sql_insert_def)
  have "NUL \<notin> set ?s"
    using assms word_ok_NUL [OF word_ok_to_string, of "sint fd"] by simp
  then have n: "NUL \<notin> set (take 99 ?s)" using in_set_takeD by fast
  show ?thesis
    unfolding sql_text_def snprintf_def f
    using cstr_append_NUL [OF n, of "[]"] by (simp del: append.simps append_assoc take_Cons_numeral)
qed

lemma insert_statement_cut_example:
  "\<exists>t. sql_text sql_insert [ArgS ''bob'', ArgD (sint (9::s32)), ArgS (replicate 39 (CHR ''p''))] = Inr t \<and>
     length t = 99 \<and> last t = CHR ''p''"
  using insert_statement_cut [of "''bob''" "replicate 39 (CHR ''p'')" 9]
  by (simp add: to_string_def digits.simps NUL_def numeral_eq_Suc)

text \<open>The dispatch table has no entry for logout messages: no message from a client ever queues the
  task that ends a session.\<close>

lemma logout_never_queued:
  assumes "server_handle obj fd p = Inr p'"
  shows "LogOutTask ob \<in> set (tasks p') \<longleftrightarrow> LogOutTask ob \<in> set (tasks p)"
proof -
  have "LogOutTask ob \<in> set (tasks p') \<longleftrightarrow> LogOutTask ob \<in> set (tasks p)"
    if "server_handler h ob1 fd p = Inr p'" for h ob1
    using that by (cases h) (auto simp: s_handler_defs enqueue_def split: if_splits)
  with assms show ?thesis by (auto simp: server_handle_def split: option.splits)
qed

lemma logout_never_queued_example:
  "LogOutTask demo_login \<in> set (tasks (pool_init 2)) \<longleftrightarrow> LogOutTask demo_login \<in> set (tasks (pool_init 2))"
proof -
  have "server_handle (Some (demo_login\<lparr>msgType := msgCode MSG_LOGOUT\<rparr>)) 9 (pool_init 2) = Inr (pool_init 2)"
    by (simp add: server_handle_def g_msgHandle_def)
  from logout_never_queued [OF this, of demo_login] show ?thesis .
qed

text \<open>Accepting a friendship reaches the user who asked: the object goes to that user's registered
  socket, with the name under which the accepting user is registered as its message.\<close>

lemma accept_outcome:
  assumes up: "redis_up ra view w" and on: "session_online (recverId obj) (view (rworld w))"
    and fd: "a_hash (view (rworld w)) (to_string (sint (recverId obj))) ''fd'' = Some v"
    and name: "a_hash (view (rworld w)) (to_string (sint (tid obj))) ''name'' = Some n"
    and len: "length n < 24"
  shows "\<exists>w'. accept_task ra pw obj w = Inr (Done 1, w') \<and> redis_up ra view w' \<and>
           sseq w' = pushBuff (snd (setMsg n (obj\<lparr>tfd := atoi v\<rparr>))) (sseq w)"
proof -
  from s_com_online [OF up, of pw "recverId obj"] on obtain w1
    where 1: "s_com (isTalkerOnline ra pw (recverId obj)) w = Inr (True, w1)" "redis_up ra view w1"
      "view (rworld w1) = view (rworld w)" "sseq w1 = sseq w" by auto
  from s_com_fd [OF 1(2), of "recverId obj" v pw] fd 1(3) obtain w2
    where 2: "s_com (getTalkerFd ra pw (recverId obj)) w1 = Inr (atoi v, w2)" "redis_up ra view w2"
      "view (rworld w2) = view (rworld w)" "sseq w2 = sseq w" using 1(4) by auto
  from s_com_name [OF 2(2), of "tid obj" n pw] name 2(3) obtain w3
    where "s_com (getTalkerName ra pw (tid obj)) w2 = Inr (Some n, w3)" "redis_up ra view w3"
      "sseq w3 = sseq w" using 2(4) by auto
  with 1 2 len show ?thesis
    by (simp add: accept_task_def Let_def setFd_def NAME_MAX_LEN_def redis_up_def)
qed

lemma accept_outcome_example:
  "\<exists>w'. accept_task mini_redis [] (TransObj_default\<lparr>tid := 5, recverId := 6\<rparr>)
          (demo_server [] (session_add 6 ''amy'' 8 (session_add 5 ''bob'' 9 mini_empty))) = Inr (Done 1, w') \<and>
        (\<exists>obj'. buff (sseq w') = [obj'] \<and> tfd obj' = 8)"
proof -
  let ?A = "session_add 6 ''amy'' 8 (session_add 5 ''bob'' 9 mini_empty)"
  have "to_string (sint (5::s32)) \<noteq> to_string (sint (6::s32))"
    using inj_to_string [of 5 6] by fastforce
  then have n: "a_hash ?A (to_string (sint (5::s32))) ''name'' = Some ''bob''"
    by (simp add: session_add_def Let_def)
  have up: "redis_up mini_redis (\<lambda>A. A) (demo_server [] ?A)"
    by (intro demo_up registry_ok_add mini_registry)
  let ?obj = "TransObj_default\<lparr>tid := 5, recverId := 6\<rparr>" and ?w = "demo_server [] ?A"
  have "session_online (recverId ?obj) (rworld ?w)" "length ''bob'' < 24"
    "a_hash (rworld ?w) (to_string (sint (recverId ?obj))) ''fd'' = Some (to_string (sint (8::s32)))"
    "a_hash (rworld ?w) (to_string (sint (tid ?obj))) ''name'' = Some ''bob''"
    using n session_add_lookup(1,2) [of 6 "''amy''" 8 "session_add 5 ''bob'' 9 mini_empty"] by simp_all
  from accept_outcome [OF up this(1,3,4,2), of "[]"] show ?thesis
    using atoi_to_string [of 8] by (auto simp: pushBuff_def cq_push_def)
qed

end
