(* ===== verification/NetClient.thy ===== *)
theory NetClient
  imports SeqToBin
begin

text \<open>
  The sender and receiver threads of \<^verbatim>\<open>smer/Client/src/Client.cpp\<close>. Both programs run
  \<open>run\<close>: the client build sends 512-byte packets on its one socket, the server build 84
  bytes on the socket named in the object. \<open>recvMsg\<close> is the client's; what successive
  calls of \<open>recv\<close> deliver, and what successive calls of \<open>send\<close> return, are arguments.
\<close>

section \<open>The socket\<close>

text \<open>
  The object: its socket and the address of the server. The default constructor leaves
  the address uninitialised (\<open>g\<close>), the other one the socket.
\<close>

record Client =
  client_fd :: s32
  client_ip :: string
  client_port :: s32

definition Client_default :: "string \<Rightarrow> Client" where
  "Client_default g = \<lparr>client_fd = 0, client_ip = g, client_port = 0\<rparr>"

definition Client_args :: "s32 \<Rightarrow> string \<Rightarrow> s32 \<Rightarrow> Client" where
  "Client_args g ip port = \<lparr>client_fd = g, client_ip = ip, client_port = port\<rparr>"

text \<open>\<open>init\<close>: \<open>sock\<close> and \<open>conn\<close> are the results of \<open>socket\<close> and \<open>connect\<close>.\<close>

definition Client_init :: "s32 \<Rightarrow> s32 \<Rightarrow> Client \<Rightarrow> bool \<times> Client" where
  "Client_init sock conn c =
     (let c1 = c\<lparr>client_fd := sock\<rparr>
      in if sock = -1 then (False, c1)
         else if sint conn < 0 then (False, c1)
         else (True, c1))"

section \<open>Sending\<close>

definition MAX_LEN_OF_SEND_BUFF :: nat where
  "MAX_LEN_OF_SEND_BUFF = 512"

text \<open>The buffer after \<open>memset\<close> and \<open>memcpy\<close> of one object.\<close>

definition packet :: "TransObj \<Rightarrow> bytes" where
  "packet obj = store_at 0 (obj_bytes obj) (replicate MAX_LEN_OF_SEND_BUFF NUL)"

text \<open>
  What \<open>send\<close> comes back with: it took the bytes, it returned an error, or the peer has gone and
  the signal \<open>SIGPIPE\<close>, which the program neither handles nor turns off, ends the process.
\<close>

datatype send_result = Taken | Refused | Broken

datatype run_end = Waiting | Quit | Killed

text \<open>
  One pass over a queue, where \<open>rs\<close> are the results of the successive sends (\<open>Taken\<close> when the list
  is at its end): the packets handed to \<open>send\<close>, in which state the thread is after it (blocked in
  \<open>pop\<close>, out of its loop, or ended with its process), and the objects left in the queue. A refused
  packet is logged and the loop goes on.
\<close>

fun client_run :: "send_result list \<Rightarrow> TransObj conc_queue \<Rightarrow> bytes list \<times> run_end \<times> TransObj conc_queue" where
  "client_run rs [] = ([], Waiting, [])"
| "client_run rs (obj # q) =
     (if msgType obj = msgCode MSG_BUTTON then ([], Quit, q)
      else (case rs of
              Broken # _ \<Rightarrow> ([packet obj], Killed, q)
            | _ \<Rightarrow> (case client_run (tl rs) q of (ps, e, r) \<Rightarrow> (packet obj # ps, e, r))))"

fun server_run ::
  "send_result list \<Rightarrow> TransObj conc_queue \<Rightarrow> (s32 \<times> bytes) list \<times> run_end \<times> TransObj conc_queue" where
  "server_run rs [] = ([], Waiting, [])"
| "server_run rs (obj # q) =
     (if msgType obj = msgCode MSG_BUTTON then ([], Quit, q)
      else (case rs of
              Broken # _ \<Rightarrow> ([(tfd obj, take sizeof_TransObj (packet obj))], Killed, q)
            | _ \<Rightarrow> (case server_run (tl rs) q of
                    (ps, e, r) \<Rightarrow> ((tfd obj, take sizeof_TransObj (packet obj)) # ps, e, r))))"

text \<open>\<open>sendMsgOnce\<close>: object and buffer are not initialised (\<open>g\<close>, \<open>b\<close>).\<close>

definition sendMsgOnce :: "TransObj \<Rightarrow> bytes \<Rightarrow> s32 \<Rightarrow> u32 \<Rightarrow> string \<Rightarrow> bytes" where
  "sendMsgOnce g b i type str =
     (let obj = snd (setMsg str (TransObj_id_type_len g i type (of_nat (length str))))
      in store_at 0 (obj_bytes obj) b)"

section \<open>Receiving\<close>

definition RECV_SIZE :: nat where
  "RECV_SIZE = 512"

text \<open>
  The receive buffer is cleared once, before the loop: a short chunk leaves the bytes of
  the previous ones behind it.
\<close>

fun recv_loop :: "bytes list \<Rightarrow> bytes \<Rightarrow> SeqToBin \<Rightarrow> SeqToBin res" where
  "recv_loop [] rcvBuf s = Inr s"
| "recv_loop (chunk # chunks) rcvBuf s =
     (let buf = store_at 0 chunk rcvBuf
      in bind_res (transBuff2Obj (Some buf) TransObj_default)
           (\<lambda>(ok, obj). recv_loop chunks buf (if ok then pushRcvBuff obj s else s)))"

definition recvMsg :: "bytes list \<Rightarrow> SeqToBin \<Rightarrow> SeqToBin res" where
  "recvMsg chunks s = recv_loop chunks (replicate RECV_SIZE NUL) s"

section \<open>Packets\<close>

lemma packet_bytes: "wf_size obj \<Longrightarrow> packet obj = obj_bytes obj @ replicate 428 NUL"
  by (simp add: packet_def store_at_0 length_obj_bytes MAX_LEN_OF_SEND_BUFF_def sizeof_TransObj_def)

lemma length_packet: "wf_size obj \<Longrightarrow> length (packet obj) = 512"
  by (simp add: packet_bytes length_obj_bytes sizeof_TransObj_def)

lemma server_packet: "wf_size obj \<Longrightarrow> take sizeof_TransObj (packet obj) = obj_bytes obj"
  by (simp add: packet_bytes length_obj_bytes)

lemma wf_size_default [simp]: "wf_size TransObj_default"
  by (simp add: wf_size_def TransObj_default_def)

lemma transBuff2Obj_default:
  assumes "wf_size obj" and "NUL \<in> set (msg obj) \<or> NUL \<in> set r"
  shows "transBuff2Obj (Some (obj_bytes obj @ r)) TransObj_default = Inr (True, obj\<lparr>mlen := 0\<rparr>)"
  using transBuff2Obj_bytes [OF assms(1) wf_size_default assms(2)]
  by (simp add: TransObj_default_def)

text \<open>An object read from a large enough buffer has a message of full size.\<close>

lemma transBuff2Obj_size:
  assumes "transBuff2Obj (Some b) TransObj_default = Inr (ok, obj)" and "84 \<le> length b"
  shows "wf_size obj"
proof -
  have "length (msg (snd (setMsg s o4))) = 64" if "wf_size o4" for s o4
    using wf_size_setMsg that by (simp add: wf_size_def max_len_defs)
  with assms show ?thesis
    by (auto simp: transBuff2Obj_def Let_def split_beta cast_obj_def wf_size_def setter_defs
        TransObj_default_def max_len_defs)
qed

text \<open>
  As long as no connection breaks, everything before the first object of type \<open>MSG_BUTTON\<close> is handed
  to \<open>send\<close>, in order, whether it is taken or refused.
\<close>

lemma next_result:
  assumes "Broken \<notin> set rs"
  shows "(case rs of Broken # _ \<Rightarrow> x | _ \<Rightarrow> y) = y" and "Broken \<notin> set (tl rs)"
proof -
  show "(case rs of Broken # _ \<Rightarrow> x | _ \<Rightarrow> y) = y"
    using assms by (auto split: list.split send_result.split)
  show "Broken \<notin> set (tl rs)" using assms by (cases rs) auto
qed

lemma client_run_sends:
  assumes "Broken \<notin> set rs" and "\<forall>obj \<in> set objs. msgType obj \<noteq> msgCode MSG_BUTTON"
  shows "client_run rs (objs @ q) =
     (case client_run (drop (length objs) rs) q of (ps, e, r) \<Rightarrow> (map packet objs @ ps, e, r))"
  using assms
  by (induction objs arbitrary: rs) (simp_all add: next_result drop_Suc split: prod.split)

lemma server_run_sends:
  assumes "Broken \<notin> set rs" and "\<forall>obj \<in> set objs. msgType obj \<noteq> msgCode MSG_BUTTON \<and> wf_size obj"
  shows "server_run rs (objs @ q) =
     (case server_run (drop (length objs) rs) q of
        (ps, e, r) \<Rightarrow> (map (\<lambda>obj. (tfd obj, obj_bytes obj)) objs @ ps, e, r))"
  using assms
  by (induction objs arbitrary: rs) (simp_all add: next_result drop_Suc server_packet split: prod.split)

lemma client_run_one:
  "x \<noteq> Broken \<Longrightarrow> msgType obj \<noteq> msgCode MSG_BUTTON \<Longrightarrow> client_run [x] [obj] = ([packet obj], Waiting, [])"
  by (cases x) simp_all

lemma server_run_one:
  "x \<noteq> Broken \<Longrightarrow> msgType obj \<noteq> msgCode MSG_BUTTON \<Longrightarrow> wf_size obj \<Longrightarrow>
   server_run [x] [obj] = ([(tfd obj, obj_bytes obj)], Waiting, [])"
  by (cases x) (simp_all add: server_packet)

text \<open>A connection that breaks ends the process in the middle of the queue.\<close>

lemma server_run_broken:
  assumes "Broken \<notin> set rs" and "length rs = length objs"
    and "\<forall>obj \<in> set (objs @ [o1]). msgType obj \<noteq> msgCode MSG_BUTTON \<and> wf_size obj"
  shows "server_run (rs @ [Broken]) (objs @ o1 # q) =
     (map (\<lambda>obj. (tfd obj, obj_bytes obj)) (objs @ [o1]), Killed, q)"
  using assms
proof (induction rs objs rule: list_induct2')
  case (4 x rs obj objs)
  then show ?case by (cases x) (auto simp: server_packet)
qed (simp_all add: server_packet)

text \<open>One object per chunk: every object arrives, in order, without its length.\<close>

lemma recv_loop_objects:
  assumes "\<forall>obj \<in> set objs. wf_obj obj" and "length rcvBuf = 512"
  shows "recv_loop (map obj_bytes objs) rcvBuf s =
           Inr (s\<lparr>rcvBuff := rcvBuff s @ map (\<lambda>obj. obj\<lparr>mlen := 0\<rparr>) objs\<rparr>)"
  using assms
proof (induction objs arbitrary: rcvBuf s)
  case Nil
  then show ?case by simp
next
  case (Cons obj objs)
  then have wf: "wf_size obj" and nul: "NUL \<in> set (msg obj)"
    by (simp_all add: wf_obj_def wf_size_def)
  let ?buf = "obj_bytes obj @ drop 84 rcvBuf"
  have buf: "store_at 0 (obj_bytes obj) rcvBuf = ?buf"
    by (simp add: store_at_0 length_obj_bytes wf sizeof_TransObj_def)
  have len: "length ?buf = 512"
    using Cons.prems(2) by (simp add: length_obj_bytes wf sizeof_TransObj_def)
  have "transBuff2Obj (Some ?buf) TransObj_default = Inr (True, obj\<lparr>mlen := 0\<rparr>)"
    by (rule transBuff2Obj_default) (simp_all add: wf nul)
  with Cons.IH [OF _ len] Cons.prems(1) show ?case
    by (simp add: buf pushRcvBuff_def cq_push_def)
qed

section \<open>Properties\<close>

text \<open>What the server's sender thread takes from its queue goes, in order, to the
  sockets named in the objects, and a client that receives those bytes one object at a time
  queues the same objects, without their lengths.\<close>

lemma server_to_client:
  assumes "\<forall>obj \<in> set objs. wf_obj obj \<and> msgType obj \<noteq> msgCode MSG_BUTTON" and "Broken \<notin> set rs"
  shows "\<exists>packets. server_run rs objs = (packets, Waiting, []) \<and> map fst packets = map tfd objs \<and>
           recvMsg (map snd packets) s =
             Inr (s\<lparr>rcvBuff := rcvBuff s @ map (\<lambda>obj. obj\<lparr>mlen := 0\<rparr>) objs\<rparr>)"
proof -
  have "server_run rs (objs @ []) = (map (\<lambda>obj. (tfd obj, obj_bytes obj)) objs, Waiting, [])"
    using server_run_sends [OF assms(2), of objs "[]"] assms(1) by (simp add: wf_obj_size)
  moreover have "map snd (map (\<lambda>obj. (tfd obj, obj_bytes obj)) objs) = map obj_bytes objs"
    by simp
  moreover have "recvMsg (map obj_bytes objs) s =
      Inr (s\<lparr>rcvBuff := rcvBuff s @ map (\<lambda>obj. obj\<lparr>mlen := 0\<rparr>) objs\<rparr>)"
    unfolding recvMsg_def using assms(1) by (intro recv_loop_objects) (auto simp: RECV_SIZE_def)
  ultimately show ?thesis by (auto simp: comp_def)
qed

lemma server_to_client_example:
  "\<exists>packets. server_run [Taken] [TransObj_default\<lparr>tfd := 5\<rparr>] = (packets, Waiting, []) \<and>
     map fst packets = [5] \<and>
     recvMsg (map snd packets) \<lparr>buff = [], rcvBuff = [], sysBuff = []\<rparr> =
       Inr \<lparr>buff = [], rcvBuff = [TransObj_default\<lparr>tfd := 5\<rparr>], sysBuff = []\<rparr>"
  using server_to_client [of "[TransObj_default\<lparr>tfd := 5\<rparr>]" "[Taken]" "\<lparr>buff = [], rcvBuff = [], sysBuff = []\<rparr>"]
    wf_obj_default
  by (simp add: wf_obj_def TransObj_default_def)

text \<open>When one \<open>recv\<close> delivers two objects (TCP keeps no packet boundaries), the client
  takes the first and loses the second.\<close>

lemma recv_loop_coalesced:
  assumes "wf_obj a" and "wf_size b" and "length rcvBuf = 512"
  shows "recv_loop [obj_bytes a @ obj_bytes b] rcvBuf s =
           Inr (s\<lparr>rcvBuff := rcvBuff s @ [a\<lparr>mlen := 0\<rparr>]\<rparr>)"
proof -
  have wf: "wf_size a" "NUL \<in> set (msg a)" using assms(1) by (simp_all add: wf_obj_def wf_size_def)
  have "transBuff2Obj (Some (obj_bytes a @ (obj_bytes b @ drop 168 rcvBuf))) TransObj_default =
          Inr (True, a\<lparr>mlen := 0\<rparr>)"
    by (rule transBuff2Obj_default) (simp_all add: wf)
  then show ?thesis
    using assms(2) wf
    by (simp add: store_at_0 length_obj_bytes sizeof_TransObj_def pushRcvBuff_def cq_push_def)
qed

lemma recv_loop_coalesced_example:
  "recv_loop [obj_bytes TransObj_default @ obj_bytes (TransObj_default\<lparr>tid := 7\<rparr>)]
     (replicate 512 NUL) \<lparr>buff = [], rcvBuff = [], sysBuff = []\<rparr> =
     Inr \<lparr>buff = [], rcvBuff = [TransObj_default], sysBuff = []\<rparr>"
  using recv_loop_coalesced [of TransObj_default "TransObj_default\<lparr>tid := 7\<rparr>" "replicate 512 NUL"
      "\<lparr>buff = [], rcvBuff = [], sysBuff = []\<rparr>"] wf_obj_default
  by (simp add: wf_size_def wf_obj_def TransObj_default_def)

end
