(* ===== verification/Zepoll.thy ===== *)
theory Zepoll
  imports HandleMsgServer NetClient
begin

unbundle bit_operations_syntax

text \<open>
  The server's event loop of \<^verbatim>\<open>smer/Server/inc/Zepoll.h\<close>: the table of handlers by
  socket, \<open>EchoHandler\<close> (one per connection) and \<open>ServerHandler\<close> (the listening socket).
  The epoll set of the kernel maps a registered socket to its events and the socket in
  its user data, None where that was never initialised. What \<open>accept\<close> and \<open>recv\<close> return
  comes with the event.
\<close>

section \<open>State\<close>

definition EPOLLIN :: u32 where "EPOLLIN = 1"
definition EPOLLOUT :: u32 where "EPOLLOUT = 4"
definition EPOLLERR :: u32 where "EPOLLERR = 8"
definition EPOLLHUP :: u32 where "EPOLLHUP = 16"

lemmas epoll_flags = EPOLLIN_def EPOLLOUT_def EPOLLERR_def EPOLLHUP_def

definition BUFFER_SIZE :: nat where
  "BUFFER_SIZE = 512"

record EchoHandler =
  received :: int
  ebuffer :: bytes

datatype handler = Echo EchoHandler | Listener

text \<open>\<open>handlers_\<close> maps a socket to a pointer, the inner None being null.\<close>

record EpollWorld =
  handlers_map :: "s32 \<Rightarrow> handler option option"
  epoll :: "s32 \<Rightarrow> (u32 \<times> s32 option) option"
  written :: "(s32 \<times> bytes) list"
  jobs :: "ServerTask pool"

text \<open>Bytes of the new object's buffer are not initialised (\<open>g\<close>).\<close>

definition EchoHandler_new :: "bytes \<Rightarrow> EchoHandler" where
  "EchoHandler_new g = \<lparr>received = 0, ebuffer = g\<rparr>"

section \<open>The handler table\<close>

definition addHandler :: "s32 \<Rightarrow> handler option \<Rightarrow> u32 \<Rightarrow> EpollWorld \<Rightarrow> EpollWorld" where
  "addHandler fd h events w =
     w\<lparr>handlers_map := (handlers_map w)(fd \<mapsto> h),
       epoll := (if epoll w fd = None then (epoll w)(fd \<mapsto> (events, Some fd)) else epoll w)\<rparr>"

definition modifyHandler :: "s32 \<Rightarrow> u32 \<Rightarrow> EpollWorld \<Rightarrow> EpollWorld" where
  "modifyHandler fd events w =
     w\<lparr>epoll := (if epoll w fd = None then epoll w else (epoll w)(fd \<mapsto> (events, None)))\<rparr>"

definition removeHandler :: "s32 \<Rightarrow> EpollWorld \<Rightarrow> EpollWorld" where
  "removeHandler fd w =
     w\<lparr>handlers_map := (handlers_map w)(fd := None), epoll := (epoll w)(fd := None)\<rparr>"

section \<open>Events\<close>

text \<open>An exception thrown by \<open>enqueue\<close> leaves the loop.\<close>

type_synonym loop_res = "(pool_error + int \<times> EpollWorld) res"

text \<open>
  \<open>EchoHandler::handle\<close> for the handler \<open>h\<close> of \<open>fd\<close>. \<open>rcv\<close> is what \<open>recv\<close> returns: its
  count when that is not positive (left), or the bytes. The parse result of the message
  is not looked at.
\<close>

definition put_echo :: "s32 \<Rightarrow> EchoHandler \<Rightarrow> EpollWorld \<Rightarrow> EpollWorld" where
  "put_echo fd h w = w\<lparr>handlers_map := (handlers_map w)(fd \<mapsto> Some (Echo h))\<rparr>"

definition echo_out :: "s32 \<Rightarrow> EchoHandler \<Rightarrow> EpollWorld \<Rightarrow> EpollWorld" where
  "echo_out fd h w =
     modifyHandler fd EPOLLIN
       (if 0 < received h then w\<lparr>written := written w @ [(fd, take (nat (received h)) (ebuffer h))]\<rparr>
        else w)"

definition echo_deliver :: "s32 \<Rightarrow> EchoHandler \<Rightarrow> TransObj \<Rightarrow> EpollWorld \<Rightarrow> loop_res" where
  "echo_deliver fd h1 obj w =
     (case server_handle (Some obj) fd (jobs w) of
        Inl e \<Rightarrow> Inr (Inl e)
      | Inr p \<Rightarrow> Inr (Inr (0, (put_echo fd h1 w)\<lparr>jobs := p\<rparr>)))"

definition echo_in :: "s32 \<Rightarrow> EchoHandler \<Rightarrow> int + bytes \<Rightarrow> EpollWorld \<Rightarrow> loop_res" where
  "echo_in fd h rcv w =
     (case rcv of
        Inl n \<Rightarrow> Inr (Inr (0, removeHandler fd w))
      | Inr chunk \<Rightarrow>
          (let h1 = h\<lparr>received := int (length chunk), ebuffer := store_at 0 chunk (ebuffer h)\<rparr>
           in bind_res (transBuff2Obj (Some (ebuffer h1)) TransObj_default)
                (\<lambda>(_, obj). echo_deliver fd h1 obj w)))"

definition EchoHandler_handle ::
  "s32 \<Rightarrow> u32 \<Rightarrow> EchoHandler \<Rightarrow> int + bytes \<Rightarrow> EpollWorld \<Rightarrow> loop_res" where
  "EchoHandler_handle fd events h rcv w =
     (if events AND EPOLLHUP \<noteq> 0 then Inr (Inr (-1, removeHandler fd w))
      else if events AND EPOLLERR \<noteq> 0 then Inr (Inr (-1, w))
      else (let w1 = (if events AND EPOLLOUT \<noteq> 0 then echo_out fd h w else w)
            in if events AND EPOLLIN \<noteq> 0 then echo_in fd h rcv w1 else Inr (Inr (0, w1))))"

text \<open>\<open>ServerHandler::handle\<close>: \<open>client\<close> is the result of \<open>accept\<close>.\<close>

definition ServerHandler_handle :: "bytes \<Rightarrow> s32 \<Rightarrow> EpollWorld \<Rightarrow> int \<times> EpollWorld" where
  "ServerHandler_handle g client w =
     (if sint client < 0 then (-1, w)
      else (0, addHandler client (Some (Echo (EchoHandler_new g))) EPOLLIN w))"

text \<open>
  The constructor of \<open>ServerHandler\<close> registers the listening socket, unless \<open>socket\<close>,
  \<open>bind\<close> or \<open>listen\<close> fails, which ends the process (None), as a failing
  \<open>epoll_create1\<close> does in the constructor of \<open>IOLoop\<close>.
\<close>

definition ServerHandler_new :: "s32 \<Rightarrow> EpollWorld \<Rightarrow> EpollWorld" where
  "ServerHandler_new fd w = addHandler fd (Some Listener) EPOLLIN w"

definition ServerHandler_open :: "s32 \<Rightarrow> s32 \<Rightarrow> s32 \<Rightarrow> EpollWorld \<Rightarrow> EpollWorld option" where
  "ServerHandler_open fd bound listening w =
     (if sint fd < 0 then None
      else if sint bound < 0 then None
      else if sint listening < 0 then None
      else Some (ServerHandler_new fd w))"

definition IOLoop_new :: "s32 \<Rightarrow> ServerTask pool \<Rightarrow> EpollWorld option" where
  "IOLoop_new epfd p =
     (if sint epfd < 0 then None
      else Some \<lparr>handlers_map = (\<lambda>_. None), epoll = (\<lambda>_. None), written = [], jobs = p\<rparr>)"

text \<open>
  One event as \<open>epoll_wait\<close> reports it, and the body of the loop of \<open>start\<close>.
  \<open>operator[]\<close> inserts a null pointer for a socket without handler, which is then
  dereferenced.
\<close>

record io_event =
  ev_fd :: s32
  ev_flags :: u32
  ev_rcv :: "int + bytes"
  ev_client :: s32
  ev_fresh :: bytes

definition dispatch_event :: "io_event \<Rightarrow> EpollWorld \<Rightarrow> loop_res" where
  "dispatch_event e w =
     (case handlers_map w (ev_fd e) of
        Some (Some (Echo h)) \<Rightarrow> EchoHandler_handle (ev_fd e) (ev_flags e) h (ev_rcv e) w
      | Some (Some Listener) \<Rightarrow> Inr (Inr (ServerHandler_handle (ev_fresh e) (ev_client e) w))
      | _ \<Rightarrow> Inl NullDeref)"

fun dispatch_all :: "io_event list \<Rightarrow> EpollWorld \<Rightarrow> (pool_error + EpollWorld) res" where
  "dispatch_all [] w = Inr (Inr w)"
| "dispatch_all (e # es) w =
     bind_res (dispatch_event e w)
       (\<lambda>r. case r of Inl x \<Rightarrow> Inr (Inl x) | Inr (_, w1) \<Rightarrow> dispatch_all es w1)"

text \<open>\<open>IOLoop::start\<close>: each call of \<open>epoll_wait\<close> gives a batch of at most 32 events.\<close>

fun loop_run :: "io_event list list \<Rightarrow> EpollWorld \<Rightarrow> (pool_error + EpollWorld) res" where
  "loop_run [] w = Inr (Inr w)"
| "loop_run (es # batches) w =
     bind_res (dispatch_all es w) (\<lambda>r. case r of Inl x \<Rightarrow> Inr (Inl x) | Inr w1 \<Rightarrow> loop_run batches w1)"

section \<open>Invariant\<close>

text \<open>
  A socket is in the epoll set exactly when it has a handler, which is not null; every
  connection has a buffer of 512 bytes and waits for input only, and the user data of
  the set is right.
\<close>

definition loop_ok :: "EpollWorld \<Rightarrow> bool" where
  "loop_ok w \<longleftrightarrow>
     (\<forall>fd. (handlers_map w fd = None \<longleftrightarrow> epoll w fd = None) \<and>
           handlers_map w fd \<noteq> Some None \<and>
           (\<forall>h. handlers_map w fd = Some (Some (Echo h)) \<longrightarrow> length (ebuffer h) = BUFFER_SIZE) \<and>
           (\<forall>ev d. epoll w fd = Some (ev, d) \<longrightarrow> ev = EPOLLIN \<and> d = Some fd))"

text \<open>
  What the kernel may report: a registered socket, flags among those asked for besides
  errors and hang-ups, at most a buffer full of bytes, and from \<open>accept\<close> a socket not in
  use.
\<close>

definition event_ok :: "EpollWorld \<Rightarrow> io_event \<Rightarrow> bool" where
  "event_ok w e \<longleftrightarrow>
     epoll w (ev_fd e) \<noteq> None \<and> ev_flags e AND EPOLLOUT = 0 \<and>
     (\<forall>chunk. ev_rcv e = Inr chunk \<longrightarrow> 0 < length chunk \<and> length chunk \<le> BUFFER_SIZE) \<and>
     (0 \<le> sint (ev_client e) \<longrightarrow> handlers_map w (ev_client e) = None) \<and>
     length (ev_fresh e) = BUFFER_SIZE"

lemma loop_ok_registered:
  "loop_ok w \<Longrightarrow> handlers_map w fd = Some h \<Longrightarrow> epoll w fd \<noteq> None"
  unfolding loop_ok_def by (metis option.distinct(1))

lemma loop_ok_buffer:
  "loop_ok w \<Longrightarrow> handlers_map w fd = Some (Some (Echo h)) \<Longrightarrow> length (ebuffer h) = BUFFER_SIZE"
  by (simp add: loop_ok_def)

lemma loop_ok_remove: "loop_ok w \<Longrightarrow> loop_ok (removeHandler fd w)"
  by (simp add: loop_ok_def removeHandler_def)

lemma loop_ok_add:
  assumes "loop_ok w" and "handlers_map w fd = None" and "length g = BUFFER_SIZE"
  shows "loop_ok (addHandler fd (Some (Echo (EchoHandler_new g))) EPOLLIN w)"
  using assms by (auto simp: loop_ok_def addHandler_def EchoHandler_new_def)

lemma loop_ok_listen:
  assumes "loop_ok w" and "handlers_map w fd = None"
  shows "loop_ok (ServerHandler_new fd w)"
  using assms by (auto simp: loop_ok_def addHandler_def ServerHandler_new_def)

lemma loop_ok_echo:
  assumes "loop_ok w" and "handlers_map w fd = Some (Some (Echo h))" and "length (ebuffer h1) = BUFFER_SIZE"
  shows "loop_ok ((put_echo fd h1 w)\<lparr>jobs := p\<rparr>)"
proof -
  have "epoll w fd \<noteq> None" using assms(1,2) unfolding loop_ok_def by fastforce
  with assms show ?thesis by (auto simp: loop_ok_def put_echo_def)
qed

lemma echo_deliver_result:
  "echo_deliver fd h1 obj w = Inr (Inr (n, w')) \<Longrightarrow> \<exists>p. w' = (put_echo fd h1 w)\<lparr>jobs := p\<rparr>"
  by (auto simp: echo_deliver_def split: sum.splits)

lemma echo_deliver_defined: "echo_deliver fd h1 obj w \<noteq> Inl x"
  by (simp add: echo_deliver_def split: sum.split)

lemma echo_in_result:
  assumes "echo_in fd h rcv w = Inr (Inr (n, w'))"
  shows "w' = removeHandler fd w \<or>
    (\<exists>chunk p. rcv = Inr chunk \<and> w' = (put_echo fd
       (h\<lparr>received := int (length chunk), ebuffer := store_at 0 chunk (ebuffer h)\<rparr>) w)\<lparr>jobs := p\<rparr>)"
proof (cases rcv)
  case (Inr chunk)
  with assms show ?thesis by (auto simp: echo_in_def Let_def dest: echo_deliver_result)
qed (use assms in \<open>simp add: echo_in_def\<close>)

text \<open>What an event leads to.\<close>

lemma dispatch_event_result:
  assumes ok: "loop_ok w" and ev: "event_ok w e" and run: "dispatch_event e w = Inr (Inr (n, w'))"
  obtains (same) "w' = w" | (removed) "w' = removeHandler (ev_fd e) w"
  | (accepted) "0 \<le> sint (ev_client e)"
      "w' = addHandler (ev_client e) (Some (Echo (EchoHandler_new (ev_fresh e)))) EPOLLIN w"
  | (received) h h1 p where "handlers_map w (ev_fd e) = Some (Some (Echo h))"
      "length (ebuffer h1) = BUFFER_SIZE" "w' = (put_echo (ev_fd e) h1 w)\<lparr>jobs := p\<rparr>"
proof -
  have "handlers_map w (ev_fd e) \<noteq> None" "handlers_map w (ev_fd e) \<noteq> Some None"
    using ok ev by (auto simp: loop_ok_def event_ok_def)
  then obtain h where h: "handlers_map w (ev_fd e) = Some (Some h)" by auto
  show ?thesis
  proof (cases h)
    case Listener
    with run h show ?thesis
      by (auto simp: dispatch_event_def ServerHandler_handle_def intro: same accepted split: if_splits)
  next
    case (Echo eh)
    let ?fd = "ev_fd e"
    have len: "length (ebuffer eh) = BUFFER_SIZE" using loop_ok_buffer [OF ok] h Echo by simp
    have buf: "length (store_at 0 chunk (ebuffer eh)) = BUFFER_SIZE" if "ev_rcv e = Inr chunk" for chunk
      using that ev len by (simp add: event_ok_def)
    have eh: "EchoHandler_handle ?fd (ev_flags e) eh (ev_rcv e) w = Inr (Inr (n, w'))"
      using run h Echo by (simp add: dispatch_event_def)
    then consider "w' = removeHandler ?fd w" | "w' = w"
      | chunk p where "ev_rcv e = Inr chunk" "w' = (put_echo ?fd
          (eh\<lparr>received := int (length chunk), ebuffer := store_at 0 chunk (ebuffer eh)\<rparr>) w)\<lparr>jobs := p\<rparr>"
      using ev echo_in_result [of ?fd eh "ev_rcv e" w n w']
      by (auto simp: EchoHandler_handle_def event_ok_def split: if_splits)
    then show ?thesis
    proof cases
      case (3 chunk p)
      with h Echo buf show ?thesis by (intro received [of eh _ p]) simp_all
    qed (use same removed in simp_all)
  qed
qed

lemma dispatch_event_ok:
  assumes ok: "loop_ok w" and ev: "event_ok w e" and run: "dispatch_event e w = Inr (Inr (n, w'))"
  shows "loop_ok w'"
  using assms
proof (cases rule: dispatch_event_result)
  case accepted
  with ok ev show ?thesis by (simp add: event_ok_def loop_ok_add)
qed (use ok in \<open>auto intro: loop_ok_remove loop_ok_echo\<close>)

text \<open>An event leaves what was reported of other sockets true.\<close>

lemma event_ok_after:
  assumes ok: "loop_ok w" and ev: "event_ok w e" and run: "dispatch_event e w = Inr (Inr (n, w'))"
    and e2: "event_ok w e2" "ev_fd e2 \<noteq> ev_fd e"
    and new: "0 \<le> sint (ev_client e) \<Longrightarrow> 0 \<le> sint (ev_client e2) \<Longrightarrow> ev_client e2 \<noteq> ev_client e"
  shows "event_ok w' e2"
  using ok ev run
proof (cases rule: dispatch_event_result)
  case accepted
  then have "handlers_map w (ev_client e) = None" using ev by (simp add: event_ok_def)
  with accepted e2 new show ?thesis by (auto simp: event_ok_def addHandler_def)
next
  case (received h h1 p)
  moreover have "ev_client e2 \<noteq> ev_fd e" if "0 \<le> sint (ev_client e2)"
    using that e2(1) received(1) by (auto simp: event_ok_def)
  ultimately show ?thesis using e2 by (auto simp: event_ok_def put_echo_def)
qed (use e2 in \<open>auto simp: event_ok_def removeHandler_def\<close>)

text \<open>The pointer looked up for a reported event is never null.\<close>

lemma dispatch_event_defined:
  assumes "loop_ok w" and "event_ok w e"
  shows "dispatch_event e w \<noteq> Inl NullDeref"
proof -
  have "handlers_map w (ev_fd e) \<noteq> None" "handlers_map w (ev_fd e) \<noteq> Some None"
    using assms by (auto simp: loop_ok_def event_ok_def)
  then obtain h where "handlers_map w (ev_fd e) = Some (Some h)" by auto
  moreover have "transBuff2Obj b TransObj_default \<noteq> Inl NullDeref" for b
    by (auto simp: transBuff2Obj_def Let_def bind_res_Inl_iff read_cstr_def split_beta
        split: option.splits if_splits)
  ultimately show ?thesis
    by (cases h) (auto simp: dispatch_event_def EchoHandler_handle_def echo_in_def Let_def
        bind_res_Inl_iff echo_deliver_defined split: sum.splits)
qed

text \<open>A packet from a client is handed to the message handlers with the socket it came from.\<close>

lemma echo_chunk:
  assumes "handlers_map w fd = Some (Some (Echo h))"
    and "transBuff2Obj (Some (store_at 0 chunk (ebuffer h))) TransObj_default = Inr (True, obj)"
    and "server_handle (Some obj) fd (jobs w) = Inr p"
    and "ev_fd e = fd" and "ev_flags e = EPOLLIN" and "ev_rcv e = Inr chunk"
  shows "\<exists>w' h'. dispatch_event e w = Inr (Inr (0, w')) \<and> jobs w' = p \<and> written w' = written w \<and>
           (\<forall>f. f \<noteq> fd \<longrightarrow> handlers_map w' f = handlers_map w f) \<and>
           handlers_map w' fd = Some (Some (Echo h')) \<and> ebuffer h' = store_at 0 chunk (ebuffer h)"
  using assms by (simp add: dispatch_event_def EchoHandler_handle_def echo_in_def epoll_flags Let_def put_echo_def
      echo_deliver_def)

lemma echo_packet:
  assumes "wf_size obj" and "handlers_map w fd = Some (Some (Echo h))"
    and "length (ebuffer h) = BUFFER_SIZE" and "server_handle (Some (obj\<lparr>mlen := 0\<rparr>)) fd (jobs w) = Inr p"
    and "ev_fd e = fd" and "ev_flags e = EPOLLIN" and "ev_rcv e = Inr (packet obj)"
  shows "\<exists>w'. dispatch_event e w = Inr (Inr (0, w')) \<and> jobs w' = p \<and> written w' = written w \<and>
           (\<forall>f. f \<noteq> fd \<longrightarrow> handlers_map w' f = handlers_map w f) \<and>
           (\<exists>h'. handlers_map w' fd = Some (Some (Echo h')) \<and> length (ebuffer h') = BUFFER_SIZE)"
proof -
  have b: "store_at 0 (packet obj) (ebuffer h) = packet obj"
    using assms(1,3) by (simp add: store_at_0 length_packet BUFFER_SIZE_def)
  have "transBuff2Obj (Some (packet obj)) TransObj_default = Inr (True, obj\<lparr>mlen := 0\<rparr>)"
    using transBuff2Obj_default [of obj "replicate 428 NUL"] assms(1) by (simp add: packet_bytes)
  from echo_chunk [OF assms(2) _ assms(4-), unfolded b, OF this]
  show ?thesis using length_packet [OF assms(1)] by (auto simp: BUFFER_SIZE_def)
qed

section \<open>Properties\<close>

text \<open>
  A batch as \<open>epoll_wait\<close> reports it: each socket once, each new connection a socket of
  its own.
\<close>

definition batch_ok :: "EpollWorld \<Rightarrow> io_event list \<Rightarrow> bool" where
  "batch_ok w es \<longleftrightarrow>
     (\<forall>e \<in> set es. event_ok w e) \<and> distinct (map ev_fd es) \<and>
     distinct (map ev_client (filter (\<lambda>e. 0 \<le> sint (ev_client e)) es))"

lemma batch_ok_after:
  assumes "loop_ok w" and "batch_ok w (e # es)" and "dispatch_event e w = Inr (Inr (n, w'))"
  shows "batch_ok w' es"
proof -
  have "event_ok w' e2" if "e2 \<in> set es" for e2
  proof (rule event_ok_after [OF assms(1) _ assms(3)])
    show "event_ok w e" "event_ok w e2" using assms(2) that by (simp_all add: batch_ok_def)
    have "ev_fd e \<notin> ev_fd ` set es" using assms(2) by (simp add: batch_ok_def)
    with that show "ev_fd e2 \<noteq> ev_fd e" by (metis imageI)
    assume "0 \<le> sint (ev_client e)" "0 \<le> sint (ev_client e2)"
    then have "ev_client e \<notin> ev_client ` {e \<in> set es. 0 \<le> sint (ev_client e)}"
      using assms(2) by (simp add: batch_ok_def)
    moreover have "e2 \<in> {e \<in> set es. 0 \<le> sint (ev_client e)}" using that \<open>0 \<le> sint (ev_client e2)\<close> by simp
    ultimately show "ev_client e2 \<noteq> ev_client e" by (metis imageI)
  qed
  moreover have "distinct (map ev_fd es)"
    "distinct (map ev_client (filter (\<lambda>e. 0 \<le> sint (ev_client e)) es))"
    using assms(2) unfolding batch_ok_def by (cases "0 \<le> sint (ev_client e)"; simp)+
  ultimately show ?thesis by (simp add: batch_ok_def)
qed

lemma dispatch_all_safe:
  "loop_ok w \<Longrightarrow> batch_ok w es \<Longrightarrow>
   dispatch_all es w \<noteq> Inl NullDeref \<and> (\<forall>w'. dispatch_all es w = Inr (Inr w') \<longrightarrow> loop_ok w')"
proof (induction es arbitrary: w)
  case (Cons e es)
  have ev: "event_ok w e" using Cons.prems(2) by (simp add: batch_ok_def)
  show ?case
  proof (cases "dispatch_event e w")
    case (Inl u)
    then show ?thesis using dispatch_event_defined [OF Cons.prems(1) ev] by simp
  next
    case (Inr x)
    show ?thesis
    proof (cases x)
      case (Inr y)
      then obtain n w1 where run: "dispatch_event e w = Inr (Inr (n, w1))"
        using \<open>dispatch_event e w = Inr x\<close> by (cases y) auto
      from Cons.IH [OF dispatch_event_ok [OF Cons.prems(1) ev run] batch_ok_after [OF Cons.prems run]] run
      show ?thesis by simp
    qed (simp add: \<open>dispatch_event e w = Inr x\<close>)
  qed
qed simp

text \<open>C34: The event loop keeps its table and the epoll set in step: for every batch of events the
  kernel can report in such a state, no handler looked up along the batch is null, whatever the
  events before it accepted, read or closed, and the batch leads to such a state again, with every
  connection's buffer at 512 bytes.\<close>

theorem event_batch_safe:
  assumes "loop_ok w" and "batch_ok w es"
  shows "dispatch_all es w \<noteq> Inl NullDeref \<and>
         (\<forall>w'. dispatch_all es w = Inr (Inr w') \<longrightarrow> loop_ok w')"
  using dispatch_all_safe [OF assms] .

definition empty_loop :: EpollWorld where
  "empty_loop = \<lparr>handlers_map = (\<lambda>_. None), epoll = (\<lambda>_. None), written = [], jobs = pool_init 4\<rparr>"

definition one_connection :: EpollWorld where
  "one_connection = addHandler 9 (Some (Echo (EchoHandler_new (replicate 512 NUL)))) EPOLLIN
     (ServerHandler_new 3 empty_loop)"

lemma one_connection_ok: "loop_ok one_connection"
  unfolding one_connection_def
  by (intro loop_ok_add loop_ok_listen)
     (simp_all add: loop_ok_def empty_loop_def ServerHandler_new_def addHandler_def BUFFER_SIZE_def)

theorem event_batch_safe_witness:
  "\<exists>w'. dispatch_all
       [\<lparr>ev_fd = 9, ev_flags = EPOLLHUP, ev_rcv = Inl 0, ev_client = -1, ev_fresh = replicate 512 NUL\<rparr>,
        \<lparr>ev_fd = 3, ev_flags = EPOLLIN, ev_rcv = Inl 0, ev_client = 10, ev_fresh = replicate 512 NUL\<rparr>]
       one_connection = Inr (Inr w') \<and> handlers_map w' 9 = None \<and> handlers_map w' 10 \<noteq> None \<and> loop_ok w'"
proof -
  let ?e1 = "\<lparr>ev_fd = 9, ev_flags = EPOLLHUP, ev_rcv = Inl 0, ev_client = -1, ev_fresh = replicate 512 NUL\<rparr>"
  let ?e2 = "\<lparr>ev_fd = 3, ev_flags = EPOLLIN, ev_rcv = Inl 0, ev_client = 10, ev_fresh = replicate 512 NUL\<rparr>"
  have b: "batch_ok one_connection [?e1, ?e2]"
    by (simp add: batch_ok_def event_ok_def one_connection_def addHandler_def BUFFER_SIZE_def epoll_flags
        ServerHandler_new_def empty_loop_def)
  obtain w' where "dispatch_all [?e1, ?e2] one_connection = Inr (Inr w')" "handlers_map w' 9 = None"
    "handlers_map w' 10 \<noteq> None"
    by (simp add: dispatch_event_def one_connection_def addHandler_def EchoHandler_handle_def epoll_flags
        ServerHandler_new_def empty_loop_def ServerHandler_handle_def removeHandler_def)
  with event_batch_safe [OF one_connection_ok b] show ?thesis by blast
qed

end
