(* ===== verification/TaskSteps.thy ===== *)
theory TaskSteps
  imports HandleMsgServer
begin

text \<open>
  The server's tasks call by call. A task is a program: a tree of the calls it makes, each
  with what the task does with the result. Between two calls of a task the other workers
  may run, so the shared state can change there; the calls are the critical sections of the
  MySQL pool (\<open>GetConnection\<close>, the statement, \<open>ReleaseConnection\<close>), the two halves of a Redis
  command (writing the client's buffer, sending it), and the push into the sender's queue. Run
  without interference, a program is the task of \<^verbatim>\<open>HandleMsgServer\<close>. The client's buffer has no
  lock: how writing and sending by several workers overlap there is in \<^verbatim>\<open>ServerSystem\<close>.
\<close>

section \<open>Calls\<close>

text \<open>The Redis commands the tasks use, with the response vector they are given.\<close>

datatype redis_op =
    OpSadd "string list" string string
  | OpSremove "string list" string string
  | OpScontain "string list" string string
  | OpHMset "string list" string "(string \<times> string) list"
  | OpHget "string list" string string
  | OpDel "string list" string

fun redis_call :: "('x, 'rd) redis \<Rightarrow> string \<Rightarrow> redis_op \<Rightarrow> 'x KGRedisClient \<Rightarrow> 'rd \<Rightarrow> ('x, 'rd) redis_result" where
  "redis_call ra pw (OpSadd r s v) k rd = ExecSadd ra pw r s v k rd"
| "redis_call ra pw (OpSremove r s v) k rd = ExecSremove ra pw r s v k rd"
| "redis_call ra pw (OpScontain r s v) k rd = ExecScontain ra pw r s v k rd"
| "redis_call ra pw (OpHMset r h kvs) k rd = ExecHMset ra pw r h kvs k rd"
| "redis_call ra pw (OpHget r h f) k rd = ExecHget ra pw r h f k rd"
| "redis_call ra pw (OpDel r key) k rd = ExecDel ra pw r key k rd"

text \<open>The two halves of a command: formatting it into \<open>cmdBuf\<close>, and sending what is there.\<close>

fun redis_format :: "redis_op \<Rightarrow> 'x KGRedisClient \<Rightarrow> 'x KGRedisClient res" where
  "redis_format (OpSadd r s v) = ExecuteCmd_format ''SADD %s %s'' [ArgS (cstr s), ArgS (cstr v)]"
| "redis_format (OpSremove r s v) = ExecuteCmd_format ''SREM %s %s'' [ArgS (cstr s), ArgS (cstr v)]"
| "redis_format (OpScontain r s v) = ExecuteCmd_format ''SISMEMBER %s %s'' [ArgS (cstr s), ArgS (cstr v)]"
| "redis_format (OpHMset r h kvs) = ExecuteCmd_format (cstr (hmset_text h kvs)) []"
| "redis_format (OpHget r h f) = ExecuteCmd_format ''hget %s %s'' [ArgS (cstr h), ArgS (cstr f)]"
| "redis_format (OpDel r key) = ExecuteCmd_format ''DEL %s'' [ArgS (cstr key)]"

fun redis_send :: "('x, 'rd) redis \<Rightarrow> string \<Rightarrow> redis_op \<Rightarrow> 'x KGRedisClient \<Rightarrow> 'rd \<Rightarrow> ('x, 'rd) redis_result" where
  "redis_send ra pw (OpSadd r s v) k rd = ExecuteCmd_send ra pw r k rd"
| "redis_send ra pw (OpSremove r s v) k rd = ExecuteCmd_send ra pw r k rd"
| "redis_send ra pw (OpScontain r s v) k rd = bind_res (ExecuteCmd_send ra pw r k rd) scontain_result"
| "redis_send ra pw (OpHMset r h kvs) k rd = ExecuteCmd_send ra pw r k rd"
| "redis_send ra pw (OpHget r h f) k rd = ExecuteCmd_send ra pw r k rd"
| "redis_send ra pw (OpDel r key) k rd = ExecuteCmd_send ra pw r k rd"

lemma redis_call_halves:
  "redis_call ra pw op k rd = bind_res (redis_format op k) (\<lambda>k1. redis_send ra pw op k1 rd)"
  by (cases op) (simp_all add: ExecSadd_def ExecSremove_def ExecScontain_def ExecHMset_def ExecHget_def
      ExecDel_def ExecuteCmd_spop_def bind_res_assoc)

lemma redis_call_split:
  "redis_call ra pw op k rd = Inr x \<Longrightarrow> \<exists>c. redis_format op k = Inr c \<and> redis_send ra pw op c rd = Inr x"
  unfolding redis_call_halves by (cases "redis_format op k") auto

text \<open>A statement on the connection \<open>conn\<close>; an exception that escapes keeps the connection.\<close>

definition query_on ::
  "('c, 'db, 'row) mysql \<Rightarrow> 'c \<Rightarrow> string \<Rightarrow> fmt_arg list \<Rightarrow> 'db \<Rightarrow> 'row list option call res" where
  "query_on m conn fmt args db =
     (if \<not> prepare m conn db then Inr Thrown
      else bind_res (sql_text fmt args) (\<lambda>cmd. Inr (Ret (executeQuery m conn cmd db))))"

definition insert_on ::
  "('c, 'db, 'row) mysql \<Rightarrow> 'c \<Rightarrow> string \<Rightarrow> fmt_arg list \<Rightarrow> 'db \<Rightarrow> (bool call \<times> 'db) res" where
  "insert_on m conn fmt args db =
     (if \<not> prepare m conn db then Inr (Thrown, db)
      else bind_res (sql_text fmt args)
        (\<lambda>cmd. let (updated, db2) = executeUpdate m conn cmd db;
                     result = (case updated of None \<Rightarrow> False | Some n \<Rightarrow> 0 < n)
                 in Inr (Ret result, db2)))"

section \<open>Programs\<close>

text \<open>
  \<open>Query\<close> and \<open>Insert\<close> are about to take a connection, \<open>QueryOn\<close> and \<open>InsertOn\<close> hold one,
  \<open>Release\<close> is about to return it; \<open>Redis\<close> is about to format its command, \<open>RedisSend\<close> to
  send it.
\<close>

datatype ('c, 'row) prog =
    Finish task_end
  | Undefined ub
  | Query string "fmt_arg list" "'row list option call \<Rightarrow> ('c, 'row) prog"
  | QueryOn 'c string "fmt_arg list" "'row list option call \<Rightarrow> ('c, 'row) prog"
  | Insert string "fmt_arg list" "bool call \<Rightarrow> ('c, 'row) prog"
  | InsertOn 'c string "fmt_arg list" "bool call \<Rightarrow> ('c, 'row) prog"
  | Release 'c "('c, 'row) prog"
  | Redis redis_op "bool \<times> string list \<Rightarrow> ('c, 'row) prog"
  | RedisSend redis_op "bool \<times> string list \<Rightarrow> ('c, 'row) prog"
  | Reply TransObj "('c, 'row) prog"

text \<open>One call; None when the program is finished.\<close>

fun call_step ::
  "('c, 'db, 'row) mysql \<Rightarrow> ('x, 'rd) redis \<Rightarrow> string \<Rightarrow> ('c, 'row) prog \<Rightarrow>
   ('c, 'db, 'x, 'rd) ServerWorld \<Rightarrow> (('c, 'row) prog \<times> ('c, 'db, 'x, 'rd) ServerWorld) res option" where
  "call_step m ra pw (Finish e) w = None"
| "call_step m ra pw (Undefined u) w = Some (Inl u)"
| "call_step m ra pw (Query fmt args k) w =
     Some (case GetConnection m (mpool w) (mdb w) of
             (None, p, db) \<Rightarrow> Inr (k (Ret None), w\<lparr>mpool := p, mdb := db\<rparr>)
           | (Some conn, p, db) \<Rightarrow> Inr (QueryOn conn fmt args k, w\<lparr>mpool := p, mdb := db\<rparr>))"
| "call_step m ra pw (QueryOn conn fmt args k) w =
     Some (bind_res (query_on m conn fmt args (mdb w))
             (\<lambda>r. Inr (case r of Thrown \<Rightarrow> k Thrown | Ret _ \<Rightarrow> Release conn (k r), w)))"
| "call_step m ra pw (Insert fmt args k) w =
     Some (case GetConnection m (mpool w) (mdb w) of
             (None, p, db) \<Rightarrow> Inr (k (Ret False), w\<lparr>mpool := p, mdb := db\<rparr>)
           | (Some conn, p, db) \<Rightarrow> Inr (InsertOn conn fmt args k, w\<lparr>mpool := p, mdb := db\<rparr>))"
| "call_step m ra pw (InsertOn conn fmt args k) w =
     Some (bind_res (insert_on m conn fmt args (mdb w))
             (\<lambda>(r, db). Inr (case r of Thrown \<Rightarrow> k Thrown | Ret _ \<Rightarrow> Release conn (k r), w\<lparr>mdb := db\<rparr>)))"
| "call_step m ra pw (Release conn q) w =
     Some (Inr (q, w\<lparr>mpool := ReleaseConnection (Some conn) (mpool w)\<rparr>))"
| "call_step m ra pw (Redis op k) w =
     Some (bind_res (redis_format op (rclient w)) (\<lambda>c. Inr (RedisSend op k, w\<lparr>rclient := c\<rparr>)))"
| "call_step m ra pw (RedisSend op k) w =
     Some (bind_res (redis_send ra pw op (rclient w) (rworld w))
             (\<lambda>(b, resp, c, rd). Inr (k (b, resp), w\<lparr>rclient := c, rworld := rd\<rparr>)))"
| "call_step m ra pw (Reply obj q) w = Some (Inr (q, reply_obj obj w))"

lemma call_step_send:
  "redis_send ra pw op (rclient w) (rworld w) = Inr (b, resp, c, rd) \<Longrightarrow>
   call_step m ra pw (RedisSend op k) w = Some (Inr (k (b, resp), w\<lparr>rclient := c, rworld := rd\<rparr>))"
  by simp

section \<open>The registry and the tasks as programs\<close>

definition online_prog :: "s32 \<Rightarrow> (bool \<Rightarrow> ('c, 'row) prog) \<Rightarrow> ('c, 'row) prog" where
  "online_prog i q = Redis (OpScontain [] ''userSession'' (to_string (sint i))) (\<lambda>(b, _). q b)"

definition add_prog :: "s32 \<Rightarrow> string \<Rightarrow> s32 \<Rightarrow> (bool \<Rightarrow> ('c, 'row) prog) \<Rightarrow> ('c, 'row) prog" where
  "add_prog i name fd q =
     (let idStr = to_string (sint i); fdStr = to_string (sint fd)
      in Redis (OpSadd [] ''userSession'' idStr)
           (\<lambda>(b, response).
              if b then Redis (OpHMset response idStr [(''name'', name), (''fd'', fdStr)]) (\<lambda>(b2, _). q b2)
              else q False))"

definition remove_prog :: "s32 \<Rightarrow> (bool \<Rightarrow> ('c, 'row) prog) \<Rightarrow> ('c, 'row) prog" where
  "remove_prog i q =
     Redis (OpSremove [] ''userSession'' (to_string (sint i)))
       (\<lambda>(b, response). if b then Redis (OpDel response (to_string (sint i))) (\<lambda>(b2, _). q b2) else q False)"

definition fd_prog :: "s32 \<Rightarrow> (s32 \<Rightarrow> ('c, 'row) prog) \<Rightarrow> ('c, 'row) prog" where
  "fd_prog i q =
     Redis (OpHget [] (to_string (sint i)) ''fd'')
       (\<lambda>(b, response). if b then (case response of [] \<Rightarrow> Undefined OutOfBounds | r # _ \<Rightarrow> q (atoi r)) else q (-1))"

definition name_prog :: "s32 \<Rightarrow> (string option \<Rightarrow> ('c, 'row) prog) \<Rightarrow> ('c, 'row) prog" where
  "name_prog i q =
     Redis (OpHget [] (to_string (sint i)) ''name'')
       (\<lambda>(b, response). if b then (case response of [] \<Rightarrow> Undefined OutOfBounds | r # _ \<Rightarrow> q (Some r)) else q None)"

definition read_prog :: "'a res \<Rightarrow> ('a \<Rightarrow> ('c, 'row) prog) \<Rightarrow> ('c, 'row) prog" where
  "read_prog r q = (case r of Inl u \<Rightarrow> Undefined u | Inr x \<Rightarrow> q x)"

definition send_prog :: "TransObj \<Rightarrow> ('c, 'row) prog" where
  "send_prog obj =
     online_prog (recverId obj) (\<lambda>online. if online then Reply obj (Finish (Done 0)) else Finish (Done 0))"

definition reg_finish_prog :: "('c, 'db, 'row) mysql \<Rightarrow> TransObj \<Rightarrow> ('c, 'row) prog" where
  "reg_finish_prog m obj =
     Query sql_max [] (\<lambda>r. case r of
         Thrown \<Rightarrow> Finish Escaped
       | Ret None \<Rightarrow> Undefined NullDeref
       | Ret (Some []) \<Rightarrow>
           Reply (snd (setMsg (''regin err no found current id! '' @ [CHR 0x0A])
                    (setMsgType (msgCode MSG_REG_REFUSE) obj))) (Finish (Done 1))
       | Ret (Some (row # _)) \<Rightarrow>
           (case getInt m row ''id'' of
              None \<Rightarrow> Finish Escaped
            | Some i \<Rightarrow>
                Reply (snd (setMsg (''regin accepted! '' @ [CHR 0x0A])
                         (setId i (setMsgType (msgCode MSG_REG_ACCEPT) obj)))) (Finish (Done 1))))"

definition reg_prog :: "('c, 'db, 'row) mysql \<Rightarrow> TransObj \<Rightarrow> s32 \<Rightarrow> ('c, 'row) prog" where
  "reg_prog m obj fd =
     (let obj1 = setFd fd obj
      in read_prog (getName obj1) (\<lambda>name.
         Query sql_password [ArgS name] (\<lambda>r. case r of
             Thrown \<Rightarrow> Finish Escaped
           | Ret None \<Rightarrow> Undefined NullDeref
           | Ret (Some (_ # _)) \<Rightarrow>
               Reply (snd (setMsg ''regin err! name reg exists already!''
                        (setMsgType (msgCode MSG_REG_REFUSE) obj1))) (Finish (Done 0))
           | Ret (Some []) \<Rightarrow>
               read_prog (getPasswd obj1) (\<lambda>passwd.
               Insert sql_insert [ArgS name, ArgD (sint fd), ArgS passwd] (\<lambda>res. case res of
                   Thrown \<Rightarrow> Finish Escaped
                 | Ret True \<Rightarrow> reg_finish_prog m obj1
                 | Ret False \<Rightarrow>
                     Reply (snd (setMsg (''regin err! insert error!'' @ [CHR 0x0A])
                              (setMsgType (msgCode MSG_REG_REFUSE) obj1))) (Finish (Done 0)))))))"

definition refuse_prog :: "string \<Rightarrow> TransObj \<Rightarrow> ('c, 'row) prog" where
  "refuse_prog text obj =
     Reply (snd (setMsg (text @ [CHR 0x0A]) (setMsgType (msgCode MSG_LOGIN_REFUSE) obj))) (Finish (Done 0))"

definition accept_login_prog :: "TransObj \<Rightarrow> ('c, 'row) prog" where
  "accept_login_prog obj = Reply (setMsgType (msgCode MSG_LOGIN_ACCEPT) obj) (Finish (Done 1))"

definition login_prog :: "('c, 'db, 'row) mysql \<Rightarrow> TransObj \<Rightarrow> s32 \<Rightarrow> ('c, 'row) prog" where
  "login_prog m obj fd =
     (if MAX_TRANS_MSG_LEN < unat (mlen obj) then refuse_prog ''Login err! msg len too long! '' obj
      else read_prog (getName obj) (\<lambda>name.
           Query sql_login [ArgS name] (\<lambda>r. case r of
               Thrown \<Rightarrow> Finish Escaped
             | Ret None \<Rightarrow> refuse_prog ''Login err! not found name'' obj
             | Ret (Some []) \<Rightarrow> accept_login_prog obj
             | Ret (Some (row # _)) \<Rightarrow>
                 (case getString m row ''password'' of
                    None \<Rightarrow> Finish Escaped
                  | Some relPasswd \<Rightarrow>
                      read_prog (getPasswd obj) (\<lambda>tansPasswd.
                        if tansPasswd \<noteq> cstr relPasswd then refuse_prog ''Login err! password not equal!'' obj
                        else (case getInt m row ''userid'' of
                                None \<Rightarrow> refuse_prog ''Login err! id not found!'' obj
                              | Some i \<Rightarrow>
                                  (let obj1 = setFd fd (setId i obj)
                                   in add_prog (tid obj1) name fd (\<lambda>_. accept_login_prog obj1))))))))"

definition logout_prog :: "TransObj \<Rightarrow> ('c, 'row) prog" where
  "logout_prog obj = remove_prog (tid obj) (\<lambda>_. Finish (Done 0))"

definition ask_deliver_prog :: "TransObj \<Rightarrow> ('c, 'row) prog" where
  "ask_deliver_prog obj =
     online_prog (recverId obj) (\<lambda>online.
       if online then fd_prog (recverId obj) (\<lambda>f. Reply (obj\<lparr>tfd := f\<rparr>) (Finish (Done 1)))
       else Finish (Done 0))"

definition ask_prog :: "('c, 'db, 'row) mysql \<Rightarrow> TransObj \<Rightarrow> s32 \<Rightarrow> ('c, 'row) prog" where
  "ask_prog m obj fd =
     read_prog (read_cstr (msg obj)) (\<lambda>name.
     Query sql_userid [ArgS name] (\<lambda>r. case r of
         Thrown \<Rightarrow> Finish Escaped
       | Ret None \<Rightarrow> Undefined NullDeref
       | Ret (Some []) \<Rightarrow>
           Reply (setFd fd (setMsgType (msgCode MSG_ASK_FOR_FRIEND_NOT_FOUND) obj)) (Finish (Done 0))
       | Ret (Some (row # _)) \<Rightarrow>
           (case getInt m row ''userid'' of
              None \<Rightarrow> Finish Escaped
            | Some i \<Rightarrow> ask_deliver_prog (obj\<lparr>recverId := i\<rparr>))))"

definition accept_prog :: "TransObj \<Rightarrow> ('c, 'row) prog" where
  "accept_prog obj =
     online_prog (recverId obj) (\<lambda>online.
       if online then
         fd_prog (recverId obj) (\<lambda>f.
           let obj1 = setFd f obj
           in name_prog (tid obj1) (\<lambda>n. case n of
                None \<Rightarrow> Reply obj1 (Finish (Done 1))
              | Some name \<Rightarrow>
                  if NAME_MAX_LEN \<le> length name then Finish (Done (-1))
                  else Reply (snd (setMsg name obj1)) (Finish (Done 1))))
       else Finish (Done (-1)))"

fun task_prog :: "('c, 'db, 'row) mysql \<Rightarrow> ServerTask \<Rightarrow> ('c, 'row) prog" where
  "task_prog m (SendMsgTask obj) = send_prog obj"
| "task_prog m (RegTask obj fd) = reg_prog m obj fd"
| "task_prog m (LogTask obj fd) = login_prog m obj fd"
| "task_prog m (LogOutTask obj) = logout_prog obj"
| "task_prog m (AskFriendTask obj fd) = ask_prog m obj fd"
| "task_prog m (AcceptFriendTask obj) = accept_prog obj"

lemmas registry_prog_defs = online_prog_def add_prog_def remove_prog_def fd_prog_def name_prog_def

section \<open>Running a program without interference\<close>

primrec run_prog ::
  "('c, 'db, 'row) mysql \<Rightarrow> ('x, 'rd) redis \<Rightarrow> string \<Rightarrow> ('c, 'row) prog \<Rightarrow>
   ('c, 'db, 'x, 'rd) ServerWorld \<Rightarrow> ('c, 'db, 'x, 'rd) task_res" where
  "run_prog m ra pw (Finish e) = (\<lambda>w. Inr (e, w))"
| "run_prog m ra pw (Undefined u) = (\<lambda>w. Inl u)"
| "run_prog m ra pw (Query fmt args k) =
     (\<lambda>w. bind_res (s_query m fmt args w) (\<lambda>(r, w1). run_prog m ra pw (k r) w1))"
| "run_prog m ra pw (QueryOn conn fmt args k) =
     (\<lambda>w. bind_res (query_on m conn fmt args (mdb w))
        (\<lambda>r. run_prog m ra pw (k r)
               (if r = Thrown then w else w\<lparr>mpool := ReleaseConnection (Some conn) (mpool w)\<rparr>)))"
| "run_prog m ra pw (Insert fmt args k) =
     (\<lambda>w. bind_res (s_insert m fmt args w) (\<lambda>(r, w1). run_prog m ra pw (k r) w1))"
| "run_prog m ra pw (InsertOn conn fmt args k) =
     (\<lambda>w. bind_res (insert_on m conn fmt args (mdb w))
        (\<lambda>(r, db). run_prog m ra pw (k r)
               (if r = Thrown then w\<lparr>mdb := db\<rparr>
                else w\<lparr>mdb := db, mpool := ReleaseConnection (Some conn) (mpool w)\<rparr>)))"
| "run_prog m ra pw (Release conn q) =
     (\<lambda>w. run_prog m ra pw q (w\<lparr>mpool := ReleaseConnection (Some conn) (mpool w)\<rparr>))"
| "run_prog m ra pw (Redis op k) =
     (\<lambda>w. bind_res (redis_call ra pw op (rclient w) (rworld w))
        (\<lambda>(b, resp, c, rd). run_prog m ra pw (k (b, resp)) (w\<lparr>rclient := c, rworld := rd\<rparr>)))"
| "run_prog m ra pw (RedisSend op k) =
     (\<lambda>w. bind_res (redis_send ra pw op (rclient w) (rworld w))
        (\<lambda>(b, resp, c, rd). run_prog m ra pw (k (b, resp)) (w\<lparr>rclient := c, rworld := rd\<rparr>)))"
| "run_prog m ra pw (Reply obj q) = (\<lambda>w. run_prog m ra pw q (reply_obj obj w))"

text \<open>The statements of the pool are the sequence of their calls.\<close>

lemma ExecQuery_calls:
  "ExecQuery m fmt args p db =
     (case GetConnection m p db of
        (None, p1, db1) \<Rightarrow> Inr (Ret None, p1, db1)
      | (Some conn, p1, db1) \<Rightarrow>
          bind_res (query_on m conn fmt args db1)
            (\<lambda>r. Inr (r, if r = Thrown then p1 else ReleaseConnection (Some conn) p1, db1)))"
  by (auto simp: ExecQuery_def query_on_def bind_res_assoc
      split: option.split prod.split intro!: arg_cong [where f = "bind_res (sql_text fmt args)"])

lemma ExecInsert_calls:
  "ExecInsert m fmt args p db =
     (case GetConnection m p db of
        (None, p1, db1) \<Rightarrow> Inr (Ret False, p1, db1)
      | (Some conn, p1, db1) \<Rightarrow>
          bind_res (insert_on m conn fmt args db1)
            (\<lambda>(r, db2). Inr (r, if r = Thrown then p1 else ReleaseConnection (Some conn) p1, db2)))"
  by (auto simp: ExecInsert_def insert_on_def bind_res_assoc split_beta Let_def
      split: option.split prod.split intro!: arg_cong [where f = "bind_res (sql_text fmt args)"])

lemma bind_res_prod_assoc:
  "bind_res (bind_res m (\<lambda>(a, b, c, d). f a b c d)) g = bind_res m (\<lambda>(a, b, c, d). bind_res (f a b c d) g)"
  by (cases m) auto

lemma bind_res_cong: "(\<And>x. m = Inr x \<Longrightarrow> f x = g x) \<Longrightarrow> bind_res m f = bind_res m g"
  by (cases m) auto

lemma run_read:
  "run_prog m ra pw (read_prog r q) w = bind_res r (\<lambda>x. run_prog m ra pw (q x) w)"
  by (cases r) (simp_all add: read_prog_def)

lemma run_online:
  "run_prog m ra pw (online_prog i q) w =
     bind_res (s_com (isTalkerOnline ra pw i) w) (\<lambda>(b, w1). run_prog m ra pw (q b) w1)"
  by (simp add: online_prog_def s_com_def isTalkerOnline_def bind_res_prod_assoc)

lemma run_add:
  "run_prog m ra pw (add_prog i name fd q) w =
     bind_res (s_com (addSessionTalker ra pw i name fd) w) (\<lambda>(b, w1). run_prog m ra pw (q b) w1)"
  by (auto simp: add_prog_def s_com_def addSessionTalker_def bind_res_prod_assoc Let_def
      intro!: bind_res_cong)

lemma run_remove:
  "run_prog m ra pw (remove_prog i q) w =
     bind_res (s_com (removeSessionTalker ra pw i) w) (\<lambda>(b, w1). run_prog m ra pw (q b) w1)"
  by (auto simp: remove_prog_def s_com_def removeSessionTalker_def bind_res_prod_assoc
      intro!: bind_res_cong)

lemma run_fd:
  "run_prog m ra pw (fd_prog i q) w =
     bind_res (s_com (getTalkerFd ra pw i) w) (\<lambda>(f, w1). run_prog m ra pw (q f) w1)"
  by (auto simp: fd_prog_def s_com_def getTalkerFd_def bind_res_prod_assoc
      intro!: bind_res_cong split: list.split)

lemma run_name:
  "run_prog m ra pw (name_prog i q) w =
     bind_res (s_com (getTalkerName ra pw i) w) (\<lambda>(n, w1). run_prog m ra pw (q n) w1)"
  by (auto simp: name_prog_def s_com_def getTalkerName_def bind_res_prod_assoc
      intro!: bind_res_cong split: list.split)

lemmas run_registry = run_read run_online run_add run_remove run_fd run_name

lemma run_reg_finish: "run_prog m ra pw (reg_finish_prog m obj) w = reg_finish m obj w"
  by (auto simp: reg_finish_prog_def reg_finish_def intro!: bind_res_cong
      split: call.split option.split list.split)

lemma run_reg: "run_prog m ra pw (reg_prog m obj fd) w = reg_task m obj fd w"
  by (auto simp: reg_prog_def reg_task_def Let_def run_read run_reg_finish intro!: bind_res_cong
      split: call.split option.split list.split bool.split)

lemma run_login: "run_prog m ra pw (login_prog m obj fd) w = login_task m ra pw obj fd w"
  by (auto simp: login_prog_def login_task_def Let_def run_registry refuse_prog_def login_refuse_def
      accept_login_prog_def login_accept_def intro!: bind_res_cong
      split: call.split option.split list.split)

lemma run_ask: "run_prog m ra pw (ask_prog m obj fd) w = ask_task m ra pw obj fd w"
  by (auto simp: ask_prog_def ask_deliver_prog_def ask_task_def Let_def run_registry intro!: bind_res_cong
      split: call.split option.split list.split)

lemma run_accept: "run_prog m ra pw (accept_prog obj) w = accept_task ra pw obj w"
  by (auto simp: accept_prog_def accept_task_def Let_def run_registry intro!: bind_res_cong
      split: option.split)

lemma run_send: "run_prog m ra pw (send_prog obj) w = send_task ra pw obj w"
  by (auto simp: send_prog_def send_task_def run_registry intro!: bind_res_cong)

lemma run_logout: "run_prog m ra pw (logout_prog obj) w = logout_task ra pw obj w"
  by (simp add: logout_prog_def logout_task_def run_registry)

text \<open>Run alone, a task's program is the task.\<close>

lemma run_task_prog: "run_prog m ra pw (task_prog m t) w = run_task m ra pw t w"
  by (cases t) (simp_all add: run_reg run_login run_ask run_accept run_send run_logout)

section \<open>Call by call is the whole task\<close>

inductive prog_step ::
  "('c, 'db, 'row) mysql \<Rightarrow> ('x, 'rd) redis \<Rightarrow> string \<Rightarrow>
   ('c, 'row) prog \<times> ('c, 'db, 'x, 'rd) ServerWorld \<Rightarrow>
   ('c, 'row) prog \<times> ('c, 'db, 'x, 'rd) ServerWorld \<Rightarrow> bool" for m ra pw where
  call: "call_step m ra pw q w = Some (Inr (q', w')) \<Longrightarrow> prog_step m ra pw (q, w) (q', w')"

inductive_cases prog_stepE: "prog_step m ra pw (q, w) c"

lemma world_update_order: "(w\<lparr>mpool := p, mdb := d\<rparr> :: ('c, 'db, 'x, 'rd) ServerWorld) = w\<lparr>mdb := d, mpool := p\<rparr>"
  by simp

lemma call_case_if: "(case r of Ret x \<Rightarrow> a | Thrown \<Rightarrow> b) = (if r = Thrown then b else a)"
  by (cases r) auto

lemma call_step_run:
  assumes "call_step m ra pw q w = Some (Inr (q', w'))"
  shows "run_prog m ra pw q w = run_prog m ra pw q' w'"
proof (cases q)
  case (QueryOn conn fmt args k)
  then obtain r where "query_on m conn fmt args (mdb w) = Inr r"
    "(q', w') = (case r of Thrown \<Rightarrow> k Thrown | Ret _ \<Rightarrow> Release conn (k r), w)"
    using assms by auto
  with QueryOn show ?thesis by (cases r) simp_all
next
  case (InsertOn conn fmt args k)
  then obtain r db where "insert_on m conn fmt args (mdb w) = Inr (r, db)"
    "(q', w') = (case r of Thrown \<Rightarrow> k Thrown | Ret _ \<Rightarrow> Release conn (k r), w\<lparr>mdb := db\<rparr>)"
    using assms by auto
  with InsertOn show ?thesis by (cases r) simp_all
next
  case (Redis op k)
  then obtain c where "redis_format op (rclient w) = Inr c" "q' = RedisSend op k" "w' = w\<lparr>rclient := c\<rparr>"
    using assms by auto
  with Redis show ?thesis by (simp add: redis_call_halves)
qed (use assms in \<open>auto simp: s_query_def s_insert_def ExecQuery_calls ExecInsert_calls bind_res_assoc
      world_update_order split: option.splits prod.splits intro!: bind_res_cong\<close>)

lemma prog_steps_run:
  "(prog_step m ra pw)\<^sup>*\<^sup>* c c' \<Longrightarrow>
   run_prog m ra pw (fst c) (snd c) = run_prog m ra pw (fst c') (snd c')"
  by (induction rule: rtranclp_induct) (auto elim!: prog_step.cases dest: call_step_run)

lemma prog_step_then:
  "call_step m ra pw q w = Some (Inr (q1, w1)) \<Longrightarrow> (prog_step m ra pw)\<^sup>*\<^sup>* (q1, w1) c \<Longrightarrow>
   (prog_step m ra pw)\<^sup>*\<^sup>* (q, w) c"
  by (blast intro: converse_rtranclp_into_rtranclp prog_step.call)

lemma query_on_steps:
  assumes "query_on m conn fmt args (mdb w) = Inr r"
    and "(prog_step m ra pw)\<^sup>*\<^sup>* (k r, if r = Thrown then w else w\<lparr>mpool := ReleaseConnection (Some conn) (mpool w)\<rparr>) c"
  shows "(prog_step m ra pw)\<^sup>*\<^sup>* (QueryOn conn fmt args k, w) c"
proof (cases r)
  case Thrown
  then have "call_step m ra pw (QueryOn conn fmt args k) w = Some (Inr (k Thrown, w))" using assms(1) by simp
  then show ?thesis by (rule prog_step_then) (use assms(2) Thrown in simp)
next
  case (Ret x)
  then have "call_step m ra pw (QueryOn conn fmt args k) w = Some (Inr (Release conn (k r), w))"
    using assms(1) by simp
  then show ?thesis by (rule prog_step_then) (rule prog_step_then, simp, use assms(2) Ret in simp)
qed

lemma insert_on_steps:
  assumes "insert_on m conn fmt args (mdb w) = Inr (r, db)"
    and "(prog_step m ra pw)\<^sup>*\<^sup>* (k r, if r = Thrown then w\<lparr>mdb := db\<rparr>
           else w\<lparr>mdb := db, mpool := ReleaseConnection (Some conn) (mpool w)\<rparr>) c"
  shows "(prog_step m ra pw)\<^sup>*\<^sup>* (InsertOn conn fmt args k, w) c"
proof (cases r)
  case Thrown
  then have "call_step m ra pw (InsertOn conn fmt args k) w = Some (Inr (k Thrown, w\<lparr>mdb := db\<rparr>))"
    using assms(1) by simp
  then show ?thesis by (rule prog_step_then) (use assms(2) Thrown in simp)
next
  case (Ret x)
  then have "call_step m ra pw (InsertOn conn fmt args k) w = Some (Inr (Release conn (k r), w\<lparr>mdb := db\<rparr>))"
    using assms(1) by simp
  then show ?thesis by (rule prog_step_then) (rule prog_step_then, simp, use assms(2) Ret in simp)
qed

lemma query_steps:
  assumes "s_query m fmt args w = Inr (r, w1)" and c: "(prog_step m ra pw)\<^sup>*\<^sup>* (k r, w1) c"
  shows "(prog_step m ra pw)\<^sup>*\<^sup>* (Query fmt args k, w) c"
proof -
  obtain co p db where g: "GetConnection m (mpool w) (mdb w) = (co, p, db)" by (metis prod_cases3)
  show ?thesis
  proof (cases co)
    case None
    then have r: "r = Ret None" "w1 = w\<lparr>mpool := p, mdb := db\<rparr>"
      using assms(1) g by (auto simp: s_query_def ExecQuery_calls)
    have "call_step m ra pw (Query fmt args k) w = Some (Inr (k r, w1))"
      unfolding call_step.simps g None r by simp
    then show ?thesis using c by (rule prog_step_then)
  next
    case (Some conn)
    with assms(1) g have r: "query_on m conn fmt args db = Inr r"
      "w1 = w\<lparr>mpool := if r = Thrown then p else ReleaseConnection (Some conn) p, mdb := db\<rparr>"
      by (auto simp: s_query_def ExecQuery_calls bind_res_assoc)
    let ?w = "w\<lparr>mpool := p, mdb := db\<rparr>"
    have "w1 = (if r = Thrown then ?w else ?w\<lparr>mpool := ReleaseConnection (Some conn) (mpool ?w)\<rparr>)"
      unfolding r(2) by (cases w) simp
    with c have "(prog_step m ra pw)\<^sup>*\<^sup>*
        (k r, if r = Thrown then ?w else ?w\<lparr>mpool := ReleaseConnection (Some conn) (mpool ?w)\<rparr>) c"
      by (simp only:)
    moreover have "query_on m conn fmt args (mdb ?w) = Inr r" using r(1) by simp
    ultimately have "(prog_step m ra pw)\<^sup>*\<^sup>* (QueryOn conn fmt args k, ?w) c" by (rule query_on_steps [rotated])
    moreover have "call_step m ra pw (Query fmt args k) w = Some (Inr (QueryOn conn fmt args k, ?w))"
      unfolding call_step.simps g Some by simp
    ultimately show ?thesis by (rule prog_step_then [rotated])
  qed
qed

lemma insert_steps:
  assumes "s_insert m fmt args w = Inr (r, w1)" and c: "(prog_step m ra pw)\<^sup>*\<^sup>* (k r, w1) c"
  shows "(prog_step m ra pw)\<^sup>*\<^sup>* (Insert fmt args k, w) c"
proof -
  obtain co p db where g: "GetConnection m (mpool w) (mdb w) = (co, p, db)" by (metis prod_cases3)
  show ?thesis
  proof (cases co)
    case None
    then have r: "r = Ret False" "w1 = w\<lparr>mpool := p, mdb := db\<rparr>"
      using assms(1) g by (auto simp: s_insert_def ExecInsert_calls)
    have "call_step m ra pw (Insert fmt args k) w = Some (Inr (k r, w1))"
      unfolding call_step.simps g None r by simp
    then show ?thesis using c by (rule prog_step_then)
  next
    case (Some conn)
    with assms(1) g obtain db2 where r: "insert_on m conn fmt args db = Inr (r, db2)"
      "w1 = w\<lparr>mpool := if r = Thrown then p else ReleaseConnection (Some conn) p, mdb := db2\<rparr>"
      by (auto simp: s_insert_def ExecInsert_calls bind_res_assoc)
    let ?w = "w\<lparr>mpool := p, mdb := db\<rparr>"
    have "w1 = (if r = Thrown then ?w\<lparr>mdb := db2\<rparr>
        else ?w\<lparr>mdb := db2, mpool := ReleaseConnection (Some conn) (mpool ?w)\<rparr>)"
      unfolding r(2) by (cases w) simp
    with c have "(prog_step m ra pw)\<^sup>*\<^sup>* (k r, if r = Thrown then ?w\<lparr>mdb := db2\<rparr>
        else ?w\<lparr>mdb := db2, mpool := ReleaseConnection (Some conn) (mpool ?w)\<rparr>) c"
      by (simp only:)
    moreover have "insert_on m conn fmt args (mdb ?w) = Inr (r, db2)" using r(1) by simp
    ultimately have "(prog_step m ra pw)\<^sup>*\<^sup>* (InsertOn conn fmt args k, ?w) c" by (rule insert_on_steps [rotated])
    moreover have "call_step m ra pw (Insert fmt args k) w = Some (Inr (InsertOn conn fmt args k, ?w))"
      unfolding call_step.simps g Some by simp
    ultimately show ?thesis by (rule prog_step_then [rotated])
  qed
qed

lemma redis_steps:
  assumes "redis_call ra pw op (rclient w) (rworld w) = Inr (b, resp, c, rd)"
    and k: "(prog_step m ra pw)\<^sup>*\<^sup>* (k (b, resp), w\<lparr>rclient := c, rworld := rd\<rparr>) d"
  shows "(prog_step m ra pw)\<^sup>*\<^sup>* (Redis op k, w) d"
proof -
  obtain c0 where r: "redis_format op (rclient w) = Inr c0" "redis_send ra pw op c0 (rworld w) = Inr (b, resp, c, rd)"
    using redis_call_split [OF assms(1)] by blast
  have "(prog_step m ra pw)\<^sup>*\<^sup>* (RedisSend op k, w\<lparr>rclient := c0\<rparr>) d"
    by (rule prog_step_then [OF _ k]) (simp add: r(2))
  then show ?thesis by (rule prog_step_then [rotated]) (simp add: r(1))
qed

lemma run_prog_steps:
  "run_prog m ra pw q w = Inr (e, w') \<Longrightarrow> (prog_step m ra pw)\<^sup>*\<^sup>* (q, w) (Finish e, w')"
proof (induction q arbitrary: w)
  case (Query fmt args k)
  then obtain r w1 where "s_query m fmt args w = Inr (r, w1)" "run_prog m ra pw (k r) w1 = Inr (e, w')" by auto
  with Query.IH [OF rangeI this(2)] show ?case by (blast intro: query_steps)
next
  case (Insert fmt args k)
  then obtain r w1 where "s_insert m fmt args w = Inr (r, w1)" "run_prog m ra pw (k r) w1 = Inr (e, w')" by auto
  with Insert.IH [OF rangeI this(2)] show ?case by (blast intro: insert_steps)
next
  case (QueryOn conn fmt args k)
  then show ?case by (auto intro: query_on_steps)
next
  case (InsertOn conn fmt args k)
  then show ?case by (auto intro: insert_on_steps)
next
  case (Release conn q)
  then show ?case by (auto intro: prog_step_then)
next
  case (Redis op k)
  then obtain b resp c rd where r: "redis_call ra pw op (rclient w) (rworld w) = Inr (b, resp, c, rd)"
    "run_prog m ra pw (k (b, resp)) (w\<lparr>rclient := c, rworld := rd\<rparr>) = Inr (e, w')"
    by auto
  show ?case by (rule redis_steps [where k = k, OF r(1) Redis.IH [OF rangeI r(2)]])
next
  case (RedisSend op k)
  then obtain b resp c rd where r: "redis_send ra pw op (rclient w) (rworld w) = Inr (b, resp, c, rd)"
    "run_prog m ra pw (k (b, resp)) (w\<lparr>rclient := c, rworld := rd\<rparr>) = Inr (e, w')"
    by auto
  show ?case by (rule prog_step_then [OF _ RedisSend.IH [OF rangeI r(2)]]) (simp add: r(1))
next
  case (Reply obj q)
  then show ?case by (auto intro: prog_step_then)
qed simp_all

section \<open>Bounds that hold whatever the calls return\<close>

text \<open>The program makes at most so many calls.\<close>

primrec calls_le :: "('c, 'row) prog \<Rightarrow> nat \<Rightarrow> bool" where
  "calls_le (Finish e) = (\<lambda>n. True)"
| "calls_le (Undefined u) = (\<lambda>n. True)"
| "calls_le (Query fmt args k) = (\<lambda>n. 3 \<le> n \<and> (\<forall>r. calls_le (k r) (n - 3)))"
| "calls_le (QueryOn conn fmt args k) = (\<lambda>n. 2 \<le> n \<and> (\<forall>r. calls_le (k r) (n - 2)))"
| "calls_le (Insert fmt args k) = (\<lambda>n. 3 \<le> n \<and> (\<forall>r. calls_le (k r) (n - 3)))"
| "calls_le (InsertOn conn fmt args k) = (\<lambda>n. 2 \<le> n \<and> (\<forall>r. calls_le (k r) (n - 2)))"
| "calls_le (Release conn q) = (\<lambda>n. 1 \<le> n \<and> calls_le q (n - 1))"
| "calls_le (Redis op k) = (\<lambda>n. 2 \<le> n \<and> (\<forall>r. calls_le (k r) (n - 2)))"
| "calls_le (RedisSend op k) = (\<lambda>n. 1 \<le> n \<and> (\<forall>r. calls_le (k r) (n - 1)))"
| "calls_le (Reply obj q) = (\<lambda>n. 1 \<le> n \<and> calls_le q (n - 1))"

lemma calls_le_mono: "calls_le q n \<Longrightarrow> n \<le> n' \<Longrightarrow> calls_le q n'"
proof (induction q arbitrary: n n')
  case (Query fmt args k)
  have p: "calls_le (k r) (n - 3)" "3 \<le> n" for r using Query.prems(1) by simp_all
  have "calls_le (k r) (n' - 3)" for r
    by (rule Query.IH [OF rangeI p(1)]) (use Query.prems(2) in simp)
  with p(2) Query.prems(2) show ?case by simp
next
  case (QueryOn conn fmt args k)
  have p: "calls_le (k r) (n - 2)" "2 \<le> n" for r using QueryOn.prems(1) by simp_all
  have "calls_le (k r) (n' - 2)" for r
    by (rule QueryOn.IH [OF rangeI p(1)]) (use QueryOn.prems(2) in simp)
  with p(2) QueryOn.prems(2) show ?case by simp
next
  case (Insert fmt args k)
  have p: "calls_le (k r) (n - 3)" "3 \<le> n" for r using Insert.prems(1) by simp_all
  have "calls_le (k r) (n' - 3)" for r
    by (rule Insert.IH [OF rangeI p(1)]) (use Insert.prems(2) in simp)
  with p(2) Insert.prems(2) show ?case by simp
next
  case (InsertOn conn fmt args k)
  have p: "calls_le (k r) (n - 2)" "2 \<le> n" for r using InsertOn.prems(1) by simp_all
  have "calls_le (k r) (n' - 2)" for r
    by (rule InsertOn.IH [OF rangeI p(1)]) (use InsertOn.prems(2) in simp)
  with p(2) InsertOn.prems(2) show ?case by simp
next
  case (Redis op k)
  have p: "calls_le (k r) (n - 2)" "2 \<le> n" for r using Redis.prems(1) by (cases r, simp)+
  have "calls_le (k r) (n' - 2)" for r
    by (rule Redis.IH [OF rangeI p(1)]) (use Redis.prems(2) in simp)
  with p(2) Redis.prems(2) show ?case by simp
next
  case (RedisSend op k)
  have p: "calls_le (k r) (n - 1)" "1 \<le> n" for r using RedisSend.prems(1) by (cases r, simp)+
  have "calls_le (k r) (n' - 1)" for r
    by (rule RedisSend.IH [OF rangeI p(1)]) (use RedisSend.prems(2) in simp)
  with p(2) RedisSend.prems(2) show ?case by simp
next
  case (Release conn q)
  have p: "calls_le q (n - 1)" "1 \<le> n" using Release.prems(1) by simp_all
  have "calls_le q (n' - 1)" by (rule Release.IH [OF p(1)]) (use Release.prems(2) in simp)
  with p(2) Release.prems(2) show ?case by simp
next
  case (Reply obj q)
  have p: "calls_le q (n - 1)" "1 \<le> n" using Reply.prems(1) by simp_all
  have "calls_le q (n' - 1)" by (rule Reply.IH [OF p(1)]) (use Reply.prems(2) in simp)
  with p(2) Reply.prems(2) show ?case by simp
qed simp_all

text \<open>A step of a program that holds or takes a connection, in terms of what follows.\<close>

lemma calls_le_on:
  assumes "\<forall>r. calls_le (k r) m" and "Suc m \<le> n"
  shows "calls_le (k r) n" "calls_le (Release conn (k r)) n"
  using assms calls_le_mono [of "k r" m] by (simp_all add: le_diff_conv2)

lemma call_step_decreases:
  assumes "call_step m ra pw q w = Some (Inr (q', w'))" and "calls_le q (Suc n)"
  shows "calls_le q' n"
proof (cases q)
  case (Query fmt args k)
  then have c: "2 \<le> n" "\<forall>r. calls_le (k r) (n - 2)" using assms(2) by auto
  then have "calls_le (k r) n" for r using calls_le_mono by (metis diff_le_self)
  with c show ?thesis using assms(1) Query by (auto split: option.splits prod.splits)
next
  case (Insert fmt args k)
  then have c: "2 \<le> n" "\<forall>r. calls_le (k r) (n - 2)" using assms(2) by auto
  then have "calls_le (k r) n" for r using calls_le_mono by (metis diff_le_self)
  with c show ?thesis using assms(1) Insert by (auto split: option.splits prod.splits)
next
  case (QueryOn conn fmt args k)
  then have c: "\<forall>r. calls_le (k r) (n - 1)" "Suc (n - 1) \<le> n" using assms(2) by auto
  from calls_le_on [OF c] show ?thesis using assms(1) QueryOn by (auto simp: call_case_if split: if_splits)
next
  case (InsertOn conn fmt args k)
  then have c: "\<forall>r. calls_le (k r) (n - 1)" "Suc (n - 1) \<le> n" using assms(2) by auto
  from calls_le_on [OF c] show ?thesis using assms(1) InsertOn by (auto simp: call_case_if split: if_splits)
qed (use assms in auto)

text \<open>The program sends at most so many objects, each one the sender sends.\<close>

primrec replies_le :: "('c, 'row) prog \<Rightarrow> nat \<Rightarrow> bool" where
  "replies_le (Finish e) = (\<lambda>n. True)"
| "replies_le (Undefined u) = (\<lambda>n. True)"
| "replies_le (Query fmt args k) = (\<lambda>n. \<forall>r. replies_le (k r) n)"
| "replies_le (QueryOn conn fmt args k) = (\<lambda>n. \<forall>r. replies_le (k r) n)"
| "replies_le (Insert fmt args k) = (\<lambda>n. \<forall>r. replies_le (k r) n)"
| "replies_le (InsertOn conn fmt args k) = (\<lambda>n. \<forall>r. replies_le (k r) n)"
| "replies_le (Release conn q) = (\<lambda>n. replies_le q n)"
| "replies_le (Redis op k) = (\<lambda>n. \<forall>r. replies_le (k r) n)"
| "replies_le (RedisSend op k) = (\<lambda>n. \<forall>r. replies_le (k r) n)"
| "replies_le (Reply obj q) = (\<lambda>n. sendable obj \<and> 1 \<le> n \<and> replies_le q (n - 1))"

lemma calls_le_read: "(\<And>x. calls_le (q x) n) \<Longrightarrow> calls_le (read_prog r q) n"
  by (simp add: read_prog_def split: sum.split)

lemma replies_le_read: "(\<And>x. replies_le (q x) n) \<Longrightarrow> replies_le (read_prog r q) n"
  by (simp add: read_prog_def split: sum.split)

lemmas task_prog_defs = send_prog_def reg_prog_def reg_finish_prog_def login_prog_def refuse_prog_def
  accept_login_prog_def logout_prog_def ask_prog_def ask_deliver_prog_def accept_prog_def registry_prog_defs

lemma calls_le_task: "calls_le (task_prog m t) 10"
  by (cases t)
     (auto simp: task_prog_defs Let_def intro!: calls_le_read
       split: call.split option.split list.split bool.split)

lemma replies_le_task: "sendable (task_obj t) \<Longrightarrow> replies_le (task_prog m t) 1"
  by (cases t)
     (auto simp: task_prog_defs Let_def intro!: replies_le_read
       split: call.split option.split list.split bool.split)

lemma replies_le_Suc: "replies_le q n \<Longrightarrow> replies_le q (Suc n)"
proof (induction q arbitrary: n)
  case (Query fmt args k)
  have "replies_le (k r) n" for r using Query.prems by (simp)
  from Query.IH [OF rangeI this] show ?case by simp
next
  case (QueryOn conn fmt args k)
  have "replies_le (k r) n" for r using QueryOn.prems by (simp)
  from QueryOn.IH [OF rangeI this] show ?case by simp
next
  case (Insert fmt args k)
  have "replies_le (k r) n" for r using Insert.prems by (simp)
  from Insert.IH [OF rangeI this] show ?case by simp
next
  case (InsertOn conn fmt args k)
  have "replies_le (k r) n" for r using InsertOn.prems by (simp)
  from InsertOn.IH [OF rangeI this] show ?case by simp
next
  case (Redis op k)
  have "replies_le (k r) n" for r using Redis.prems by (cases r) simp
  from Redis.IH [OF rangeI this] show ?case by simp
next
  case (RedisSend op k)
  have "replies_le (k r) n" for r using RedisSend.prems by (cases r) simp
  from RedisSend.IH [OF rangeI this] show ?case by simp
next
  case (Reply obj q)
  then have "replies_le q (n - 1)" by simp
  from Reply.IH [OF this] Reply.prems show ?case by simp
qed simp_all

lemma call_step_replies:
  assumes "call_step m ra pw q w = Some (Inr (q', w'))" and "replies_le q n"
  shows "replies_le q' n \<and> sseq w' = sseq w \<or>
         (\<exists>obj n'. n = Suc n' \<and> sendable obj \<and> replies_le q' n' \<and> sseq w' = pushBuff obj (sseq w))"
proof (cases q)
  case (Reply obj q1)
  with assms show ?thesis by (cases n) auto
qed (use assms in \<open>auto simp: call_case_if split: option.splits prod.splits if_splits\<close>)

text \<open>
  Connections. A program holds one between \<open>GetConnection\<close> and \<open>ReleaseConnection\<close>; an
  exception that escapes from a statement loses it.
\<close>

fun holds :: "('c, 'row) prog \<Rightarrow> nat" where
  "holds (QueryOn conn fmt args k) = 1"
| "holds (InsertOn conn fmt args k) = 1"
| "holds (Release conn q) = 1"
| "holds _ = 0"

primrec tidy :: "('c, 'row) prog \<Rightarrow> bool" where
  "tidy (Finish e) = True"
| "tidy (Undefined u) = True"
| "tidy (Query fmt args k) = (\<forall>r. holds (k r) = 0 \<and> tidy (k r))"
| "tidy (QueryOn conn fmt args k) = (\<forall>r. holds (k r) = 0 \<and> tidy (k r))"
| "tidy (Insert fmt args k) = (\<forall>r. holds (k r) = 0 \<and> tidy (k r))"
| "tidy (InsertOn conn fmt args k) = (\<forall>r. holds (k r) = 0 \<and> tidy (k r))"
| "tidy (Release conn q) = (holds q = 0 \<and> tidy q)"
| "tidy (Redis op k) = (\<forall>r. holds (k r) = 0 \<and> tidy (k r))"
| "tidy (RedisSend op k) = (\<forall>r. holds (k r) = 0 \<and> tidy (k r))"
| "tidy (Reply obj q) = (holds q = 0 \<and> tidy q)"

definition call_throws :: "('c, 'db, 'row) mysql \<Rightarrow> ('c, 'row) prog \<Rightarrow> 'db \<Rightarrow> bool" where
  "call_throws m q db =
     (case q of QueryOn conn _ _ _ \<Rightarrow> \<not> prepare m conn db
      | InsertOn conn _ _ _ \<Rightarrow> \<not> prepare m conn db
      | _ \<Rightarrow> False)"

lemma tidy_read: "(\<And>x. tidy (q x)) \<Longrightarrow> tidy (read_prog r q)"
  "(\<And>x. holds (q x) = 0) \<Longrightarrow> holds (read_prog r q) = 0"
  by (simp_all add: read_prog_def split: sum.split)

lemma tidy_task: "tidy (task_prog m t)" "holds (task_prog m t) = 0"
  by (cases t; auto simp: task_prog_defs Let_def intro!: tidy_read
       split: call.split option.split list.split bool.split)+

lemma call_step_conns:
  assumes "call_step m ra pw q w = Some (Inr (q', w'))" and "tidy q"
    and "pool_counts (mpool w) (holds q + n)"
  shows "tidy q' \<and> pool_counts (mpool w') (holds q' + n + (if call_throws m q (mdb w) then 1 else 0))"
proof (cases q)
  case (Query fmt args k)
  obtain c p db where g: "GetConnection m (mpool w) (mdb w) = (c, p, db)" by (metis prod_cases3)
  from GetConnection_counts [OF _ g, of n] assms Query g show ?thesis
    by (auto simp: call_throws_def split: option.splits)
next
  case (Insert fmt args k)
  obtain c p db where g: "GetConnection m (mpool w) (mdb w) = (c, p, db)" by (metis prod_cases3)
  from GetConnection_counts [OF _ g, of n] assms Insert g show ?thesis
    by (auto simp: call_throws_def split: option.splits)
next
  case (QueryOn conn fmt args k)
  with assms show ?thesis
    by (auto simp: call_throws_def query_on_def call_case_if split: if_splits)
next
  case (InsertOn conn fmt args k)
  with assms show ?thesis
    by (auto simp: call_throws_def insert_on_def call_case_if Let_def split_beta split: if_splits)
next
  case (Release conn q1)
  with assms ReleaseConnection_counts [of "mpool w" n conn] show ?thesis by (auto simp: call_throws_def)
qed (use assms in \<open>auto simp: call_throws_def\<close>)

section \<open>Properties\<close>

text \<open>The tasks as trees of calls are the tasks: a task run as a whole ends with a result and a
  state exactly when its calls, one after the other and with nothing in between, lead there.\<close>

lemma task_steps_agree:
  "run_task m ra pw t w = Inr (e, w') \<longleftrightarrow>
   (prog_step m ra pw)\<^sup>*\<^sup>* (task_prog m t, w) (Finish e, w')"
proof
  assume "run_task m ra pw t w = Inr (e, w')"
  then show "(prog_step m ra pw)\<^sup>*\<^sup>* (task_prog m t, w) (Finish e, w')"
    by (intro run_prog_steps) (simp add: run_task_prog)
next
  assume "(prog_step m ra pw)\<^sup>*\<^sup>* (task_prog m t, w) (Finish e, w')"
  from prog_steps_run [OF this] show "run_task m ra pw t w = Inr (e, w')"
    by (simp add: run_task_prog)
qed

text \<open>The calls a worker makes for a task, each in whatever state the other workers have left.\<close>

inductive worker_calls ::
  "('c, 'db, 'row) mysql \<Rightarrow> ('x, 'rd) redis \<Rightarrow> string \<Rightarrow> ('c, 'row) prog \<Rightarrow> nat \<Rightarrow> ('c, 'row) prog \<Rightarrow> bool"
  for m ra pw q where
  none: "worker_calls m ra pw q 0 q"
| more: "worker_calls m ra pw q n q1 \<Longrightarrow>
     call_step m ra pw q1 (w :: ('c, 'db, 'x, 'rd) ServerWorld) = Some (Inr (q2, w')) \<Longrightarrow>
     worker_calls m ra pw q (Suc n) q2"

lemma worker_calls_left:
  "worker_calls m ra pw q n q' \<Longrightarrow> calls_le q b \<Longrightarrow> n \<le> b \<and> calls_le q' (b - n)"
proof (induction rule: worker_calls.induct)
  case none
  then show ?case by simp
next
  case (more n q1 w q2 w')
  then have n: "n \<le> b" "calls_le q1 (b - n)" by simp_all
  have "b - n \<noteq> 0" using more.hyps(2) n(2) by (cases q1) auto
  then obtain l where "b - n = Suc l" by (cases "b - n") auto
  with call_step_decreases [OF more.hyps(2), of l] n show ?case by (simp add: diff_Suc)
qed

text \<open>C26: Every task terminates: however the other workers change the state in between, a worker makes
  at most ten calls for a task, and one that has made ten has finished it or stopped at an
  undefined behaviour.\<close>

theorem task_terminates:
  assumes "worker_calls m ra pw (task_prog m t) n q"
  shows "n \<le> 10 \<and> (n = 10 \<longrightarrow> (\<exists>e. q = Finish e) \<or> (\<exists>u. q = Undefined u))"
proof -
  have "n \<le> 10" "calls_le q (10 - n)" using worker_calls_left [OF assms calls_le_task] by simp_all
  then show ?thesis by (cases q) auto
qed

theorem task_terminates_witness:
  "\<exists>q. worker_calls demo_mysql mini_redis [] (task_prog demo_mysql (AskFriendTask demo_login 9)) 1 q \<and>
       holds q = 1 \<and> (1::nat) \<le> 10"
proof -
  let ?t = "task_prog demo_mysql (AskFriendTask demo_login 9)" and ?w = "demo_server [] mini_empty"
  have "read_cstr (msg demo_login) = Inr ''bob''" using demo_login_fields(1) by (simp add: getName_def)
  then obtain k where p: "?t = Query sql_userid [ArgS ''bob''] k"
    by (simp add: ask_prog_def read_prog_def)
  have "GetConnection demo_mysql (mpool ?w) (mdb ?w) = (Some 0, \<lparr>connList = [], curSize = 1, maxSize = 1\<rparr>, [])"
    by (simp add: GetConnection_def demo_server_def demo_mysql_def)
  then have "call_step demo_mysql mini_redis [] ?t ?w =
      Some (Inr (QueryOn 0 sql_userid [ArgS ''bob''] k, ?w\<lparr>mpool := \<lparr>connList = [], curSize = 1, maxSize = 1\<rparr>, mdb := []\<rparr>))"
    unfolding p by simp
  from worker_calls.more [OF worker_calls.none this]
  have c: "worker_calls demo_mysql mini_redis [] ?t 1 (QueryOn 0 sql_userid [ArgS ''bob''] k)" by simp
  from task_terminates [OF c] c show ?thesis by (intro exI conjI) auto
qed

end
