(* ===== verification/ServerSystem.thy ===== *)
theory ServerSystem
  imports Zepoll TaskSteps
begin

text \<open>
  The server process as its threads: the event loop \<open>IOLoop::start\<close>, the workers of the
  thread pool and the sender \<open>Client::run\<close>, over the shared pool, MySQL pool, registry and
  queue of objects to send. One step is one event, one move of a worker, one call of a task
  (a critical section of the MySQL pool, a statement, a Redis command, a push into the
  queue), or one object sent; the calls of different workers interleave freely, and those that
  write or send the Redis client's unlocked buffer may overlap. The two
  workers that \<open>serverInit\<close> gives to the logger and the sender for good are not counted
  among the pool's.
\<close>

section \<open>Threads\<close>

text \<open>
  \<open>at_call\<close> is what remains of the task a worker runs, None before its first call. Two fields
  are for the properties only: \<open>thrown\<close> counts the statements that an exception ended, and \<open>torn\<close>
  tells whether some worker's use of the command buffer has overlapped another's writing of it.
\<close>

record ('c, 'db, 'row, 'x, 'rd) ServerSys =
  loop :: EpollWorld
  sworld :: "('c, 'db, 'x, 'rd) ServerWorld"
  at_call :: "nat \<Rightarrow> ('c, 'row) prog option"
  ssender_at :: run_end
  sent :: "(s32 \<times> bytes) list"
  thrown :: nat
  torn :: bool

section \<open>One Redis client for all workers\<close>

text \<open>
  A worker at \<open>Redis\<close> may be anywhere from before \<open>memset\<close> to within \<open>vsnprintf\<close>, and a worker at
  \<open>RedisSend\<close> anywhere until its command has been answered and its context is back in the pool.
\<close>

fun at_format :: "('c, 'row) prog \<Rightarrow> bool" where
  "at_format (Redis op k) \<longleftrightarrow> True"
| "at_format _ \<longleftrightarrow> False"

fun at_send :: "('c, 'row) prog \<Rightarrow> bool" where
  "at_send (RedisSend op k) \<longleftrightarrow> True"
| "at_send _ \<longleftrightarrow> False"

text \<open>
  Contexts are taken from the pool and put back under a lock, with the command in between: while
  other workers send, up to one context for each of them may be out of the pool.
\<close>

definition others_sending :: "('c, 'db, 'row, 'x, 'rd) ServerSys \<Rightarrow> nat \<Rightarrow> nat" where
  "others_sending s i = length (filter (\<lambda>j. j \<noteq> i \<and> (case at_call s j of None \<Rightarrow> False | Some q \<Rightarrow> at_send q))
     [0..<length (workers (jobs (loop s)))])"

definition without_contexts :: "nat \<Rightarrow> 'x KGRedisClient \<Rightarrow> 'x KGRedisClient" where
  "without_contexts n k = k\<lparr>m_clients := drop n (m_clients k), m_clusterClients := drop n (m_clusterClients k)\<rparr>"

definition with_contexts :: "nat \<Rightarrow> 'x KGRedisClient \<Rightarrow> 'x KGRedisClient \<Rightarrow> 'x KGRedisClient" where
  "with_contexts n k0 k = k\<lparr>m_clients := take n (m_clients k0) @ m_clients k,
     m_clusterClients := take n (m_clusterClients k0) @ m_clusterClients k\<rparr>"

text \<open>
  The buffer is guarded by nothing. Its user overlaps when another worker is at the buffer too
  and one of the two is writing it, or when they overlapped before. Each byte of what an
  overlapping worker finds or leaves there may then come from what was there, from \<open>memset\<close>, or
  from the command of any worker that is writing.
\<close>

definition overlapped :: "('c, 'db, 'row, 'x, 'rd) ServerSys \<Rightarrow> nat \<Rightarrow> ('c, 'row) prog \<Rightarrow> bool" where
  "overlapped s i q \<longleftrightarrow>
     (at_format q \<or> at_send q) \<and>
     (torn s \<or> (\<exists>j p. j \<noteq> i \<and> at_call s j = Some p \<and> (at_format p \<or> at_send p \<and> at_format q)))"

definition written_buffers :: "('c, 'db, 'row, 'x, 'rd) ServerSys \<Rightarrow> string set" where
  "written_buffers s = {cmdBuf (rclient (sworld s)), replicate 100 NUL} \<union>
     {cmdBuf c |c. \<exists>j op k. at_call s j = Some (Redis op k) \<and> redis_format op (rclient (sworld s)) = Inr c}"

definition mixed :: "string set \<Rightarrow> string \<Rightarrow> bool" where
  "mixed B b \<longleftrightarrow> length b = 100 \<and> (\<forall>n < 100. \<exists>u \<in> B. n < length u \<and> b ! n = u ! n)"

text \<open>
  The client as a call of worker \<open>i\<close> finds it, with \<open>n\<close> contexts out of the pool, and as it is
  afterwards; \<open>t\<close> says that the call overlaps.
\<close>

definition client_for ::
  "('c, 'db, 'row, 'x, 'rd) ServerSys \<Rightarrow> nat \<Rightarrow> ('c, 'row) prog \<Rightarrow> bool \<Rightarrow> nat \<Rightarrow> 'x KGRedisClient \<Rightarrow> bool" where
  "client_for s i q t n c \<longleftrightarrow>
     n \<le> (if at_send q then others_sending s i else 0) \<and>
     (\<exists>b. c = (without_contexts n (rclient (sworld s)))\<lparr>cmdBuf := b\<rparr> \<and>
        (b = cmdBuf (rclient (sworld s)) \<or> t \<and> mixed (written_buffers s) b))"

definition client_left ::
  "('c, 'db, 'row, 'x, 'rd) ServerSys \<Rightarrow> bool \<Rightarrow> nat \<Rightarrow> 'x KGRedisClient \<Rightarrow> 'x KGRedisClient \<Rightarrow> bool" where
  "client_left s t n k c \<longleftrightarrow>
     (\<exists>b. c = (with_contexts n (rclient (sworld s)) k)\<lparr>cmdBuf := b\<rparr> \<and>
        (b = cmdBuf k \<or> t \<and> mixed (insert (cmdBuf k) (written_buffers s)) b))"

section \<open>Steps\<close>

text \<open>
  A send into a connection that its peer has reset ends the process, and with it the run: a step
  of the sender is one whose send comes back, with an error or without. \<open>sent\<close> is what was handed
  to \<open>send\<close>.

  Moves of the workers other than the end of a task: waiting, waking up, taking a task.
  The server never destroys its pool: the event loop does not end.
\<close>

definition worker_move :: "'task pool \<Rightarrow> 'task pool \<Rightarrow> bool" where
  "worker_move p p' \<longleftrightarrow>
     pool_step p p' \<and> submitted p' = submitted p \<and> dtor_at p' = dtor_at p \<and>
     (\<forall>i < length (workers p). \<forall>t. workers p ! i = Running t \<longrightarrow> workers p' ! i = Running t)"

definition worker_done :: "nat \<Rightarrow> 'task pool \<Rightarrow> 'task pool" where
  "worker_done i p = p\<lparr>workers := (workers p)[i := Ready]\<rparr>"

inductive server_step ::
  "('c, 'db, 'row) mysql \<Rightarrow> ('x, 'rd) redis \<Rightarrow> string \<Rightarrow>
   ('c, 'db, 'row, 'x, 'rd) ServerSys \<Rightarrow> ('c, 'db, 'row, 'x, 'rd) ServerSys \<Rightarrow> bool" for m ra pw where
  event: "event_ok (loop s) e \<Longrightarrow> dispatch_event e (loop s) = Inr (Inr (n, l)) \<Longrightarrow>
     server_step m ra pw s (s\<lparr>loop := l\<rparr>)"
| worker_moves: "worker_move (jobs (loop s)) p \<Longrightarrow>
     server_step m ra pw s (s\<lparr>loop := (loop s)\<lparr>jobs := p\<rparr>\<rparr>)"
| begins: "i < length (workers (jobs (loop s))) \<Longrightarrow> workers (jobs (loop s)) ! i = Running t \<Longrightarrow>
     at_call s i = None \<Longrightarrow>
     server_step m ra pw s (s\<lparr>at_call := (at_call s)(i \<mapsto> task_prog m t)\<rparr>)"
| calls: "at_call s i = Some q \<Longrightarrow> (t \<longrightarrow> overlapped s i q) \<Longrightarrow> client_for s i q t n c \<Longrightarrow>
     call_step m ra pw q ((sworld s)\<lparr>rclient := c\<rparr>) = Some (Inr (q', w)) \<Longrightarrow>
     client_left s t n (rclient w) c' \<Longrightarrow>
     server_step m ra pw s
       (s\<lparr>sworld := w\<lparr>rclient := c'\<rparr>, at_call := (at_call s)(i \<mapsto> q'),
          thrown := thrown s + (if call_throws m q (mdb (sworld s)) then 1 else 0), torn := torn s \<or> t\<rparr>)"
| ends: "at_call s i = Some (Finish e) \<Longrightarrow>
     server_step m ra pw s
       (s\<lparr>loop := (loop s)\<lparr>jobs := worker_done i (jobs (loop s))\<rparr>, at_call := (at_call s)(i := None)\<rparr>)"
| send: "ssender_at s = Waiting \<Longrightarrow> buff (sseq (sworld s)) = obj # q \<Longrightarrow>
     x \<noteq> Broken \<Longrightarrow> server_run [x] [obj] = (ps, e, r) \<Longrightarrow>
     server_step m ra pw s
       (s\<lparr>sworld := (sworld s)\<lparr>sseq := (sseq (sworld s))\<lparr>buff := q\<rparr>\<rparr>, ssender_at := e,
          sent := sent s @ ps\<rparr>)"

text \<open>
  What \<open>serverInit\<close> and the constructor of \<open>ServerHandler\<close> set up: the thread pool, the
  MySQL pool, the listening socket \<open>lfd\<close>.
\<close>

definition server_start ::
  "nat \<Rightarrow> s32 \<Rightarrow> 'c MysqlPool \<Rightarrow> 'db \<Rightarrow> 'x KGRedisClient \<Rightarrow> 'rd \<Rightarrow> ('c, 'db, 'row, 'x, 'rd) ServerSys" where
  "server_start threads lfd mp db k rd =
     \<lparr>loop = ServerHandler_new lfd
        \<lparr>handlers_map = (\<lambda>_. None), epoll = (\<lambda>_. None), written = [], jobs = pool_init threads\<rparr>,
      sworld = \<lparr>sseq = \<lparr>buff = [], rcvBuff = [], sysBuff = []\<rparr>, mpool = mp, mdb = db, rclient = k, rworld = rd\<rparr>,
      at_call = (\<lambda>_. None), ssender_at = Waiting, sent = [], thrown = 0, torn = False\<rparr>"

inductive server_reach ::
  "('c, 'db, 'row) mysql \<Rightarrow> ('x, 'rd) redis \<Rightarrow> string \<Rightarrow> nat \<Rightarrow> int \<Rightarrow>
   ('c, 'db, 'row, 'x, 'rd) ServerSys \<Rightarrow> bool"
  for m ra pw threads sz where
  start: "connList p = [] \<Longrightarrow> 0 \<le> sz \<Longrightarrow> initPool m sz p db = (p', db') \<Longrightarrow>
     server_reach m ra pw threads sz (server_start threads lfd p' db' k rd)"
| step: "server_reach m ra pw threads sz s \<Longrightarrow> server_step m ra pw s s' \<Longrightarrow>
     server_reach m ra pw threads sz s'"

declare server_run.simps [simp del] call_step.simps [simp del]

inductive_cases server_stepE: "server_step m ra pw s s'"

lemmas server_step_cases = server_stepE [consumes 1,
    case_names event worker_moves begins calls ends send]

text \<open>A call with nothing else going on at the client.\<close>

lemma client_alone:
  "client_for s i q t 0 (rclient (sworld s))" "client_left s t 0 k k"
proof -
  show "client_for s i q t 0 (rclient (sworld s))"
    unfolding client_for_def without_contexts_def by (auto intro: exI [of _ "cmdBuf (rclient (sworld s))"])
  show "client_left s t 0 k k"
    unfolding client_left_def with_contexts_def by (auto intro: exI [of _ "cmdBuf k"])
qed

lemma server_call:
  assumes "at_call s i = Some q" and "call_step m ra pw q (sworld s) = Some (Inr (q', w))"
  shows "server_step m ra pw s
     (s\<lparr>sworld := w, at_call := (at_call s)(i \<mapsto> q'),
        thrown := thrown s + (if call_throws m q (mdb (sworld s)) then 1 else 0)\<rparr>)"
proof -
  have "call_step m ra pw q ((sworld s)\<lparr>rclient := rclient (sworld s)\<rparr>) = Some (Inr (q', w))"
    using assms(2) by simp
  from server_step.calls [OF assms(1) _ client_alone(1) this client_alone(2), where t = False] show ?thesis by simp
qed

section \<open>What an event does to the pool\<close>

definition accepts :: "ServerTask pool \<Rightarrow> ServerTask pool \<Rightarrow> bool" where
  "accepts p p' \<longleftrightarrow> p' = p \<or> (\<exists>t. enqueue t p = Inr p' \<and> sendable (task_obj t) \<and> (\<forall>ob. t \<noteq> LogOutTask ob))"

lemma echo_in_accepts:
  assumes "echo_in fd h rcv w = Inr (Inr (n, w'))"
    and "\<And>chunk. rcv = Inr chunk \<Longrightarrow> length (store_at 0 chunk (ebuffer h)) = BUFFER_SIZE"
  shows "accepts (jobs w) (jobs w')"
proof (cases rcv)
  case (Inl k)
  with assms show ?thesis by (auto simp: echo_in_def accepts_def removeHandler_def)
next
  case (Inr chunk)
  let ?b = "store_at 0 chunk (ebuffer h)"
  obtain ok obj where o: "transBuff2Obj (Some ?b) TransObj_default = Inr (ok, obj)"
    and d: "echo_deliver fd (h\<lparr>received := int (length chunk), ebuffer := ?b\<rparr>) obj w = Inr (Inr (n, w'))"
    using assms(1) Inr by (auto simp: echo_in_def Let_def)
  have "wf_size obj" using transBuff2Obj_size [OF o] assms(2) [OF Inr] by (simp add: BUFFER_SIZE_def)
  moreover obtain p where "server_handle (Some obj) fd (jobs w) = Inr p" "jobs w' = p"
    using d by (auto simp: echo_deliver_def split: sum.splits)
  ultimately show ?thesis
    using server_handle_enqueues by (fastforce simp: accepts_def sendable_def)
qed

lemma dispatch_event_accepts:
  assumes "loop_ok w" and ev: "event_ok w e" and run: "dispatch_event e w = Inr (Inr (n, w'))"
  shows "accepts (jobs w) (jobs w')"
proof -
  consider (listener) "handlers_map w (ev_fd e) = Some (Some Listener)"
    | (echo) h where "handlers_map w (ev_fd e) = Some (Some (Echo h))"
    using run by (auto simp: dispatch_event_def split: option.splits handler.splits)
  then show ?thesis
  proof cases
    case listener
    with run show ?thesis
      by (auto simp: dispatch_event_def ServerHandler_handle_def addHandler_def accepts_def split: if_splits)
  next
    case (echo h)
    have len: "length (ebuffer h) = BUFFER_SIZE" using assms(1) echo by (auto simp: loop_ok_def)
    have "length (store_at 0 chunk (ebuffer h)) = BUFFER_SIZE" if "ev_rcv e = Inr chunk" for chunk
      using that ev len by (simp add: event_ok_def)
    with run echo ev echo_in_accepts [of "ev_fd e" h "ev_rcv e" w n w'] show ?thesis
      by (auto simp: dispatch_event_def EchoHandler_handle_def event_ok_def accepts_def removeHandler_def
          split: if_splits)
  qed
qed

section \<open>Moves of the workers\<close>

lemma worker_move_cases:
  assumes "worker_move p p'"
  obtains (woken) i n where "i < length (workers p)" "workers p ! i = Asleep"
      "p' = p\<lparr>notifs := n, workers := (workers p)[i := Ready]\<rparr>"
  | (nobody) n where "p' = p\<lparr>notifs := n\<rparr>"
  | (looks) i where "i < length (workers p)" "workers p ! i = Ready" "p' = worker_look i p"
proof -
  have step: "pool_step p p'" "submitted p' = submitted p" "dtor_at p' = dtor_at p"
    and keeps: "\<And>i t. i < length (workers p) \<Longrightarrow> workers p ! i = Running t \<Longrightarrow> workers p' ! i = Running t"
    using assms by (auto simp: worker_move_def)
  from step(1) show ?thesis
  proof (cases rule: pool_step.cases)
    case (enq t)
    then show ?thesis using step(2) by (auto simp: enqueue_def split: if_splits)
  next
    case (notify n i)
    then show ?thesis using woken by blast
  next
    case (notify_none n)
    then show ?thesis using nobody by blast
  next
    case (spurious i)
    then show ?thesis using woken [of i "notifs p"] by simp
  next
    case (look i)
    then show ?thesis using looks by blast
  next
    case (finish i t)
    then show ?thesis using keeps [of i t] by simp
  next
    case dtor_stop
    then show ?thesis using step(3) by simp
  next
    case dtor_notify
    then show ?thesis using step(3) by simp
  qed
qed

text \<open>The tasks a pool holds, waiting or running, carry objects the sender sends.\<close>

definition tasks_ok :: "ServerTask pool \<Rightarrow> bool" where
  "tasks_ok p \<longleftrightarrow>
     (\<forall>t \<in> set (tasks p). sendable (task_obj t)) \<and>
     (\<forall>t. Running t \<in> set (workers p) \<longrightarrow> sendable (task_obj t))"

lemma tasks_ok_accepts: "accepts p p' \<Longrightarrow> tasks_ok p \<Longrightarrow> tasks_ok p'"
  by (auto simp: accepts_def tasks_ok_def enqueue_def split: if_splits)

lemma tasks_ok_done: "tasks_ok p \<Longrightarrow> tasks_ok (worker_done i p)"
  by (auto simp: tasks_ok_def worker_done_def dest: set_update_cases)

lemma tasks_ok_move: "worker_move p p' \<Longrightarrow> tasks_ok p \<Longrightarrow> tasks_ok p'"
  by (erule worker_move_cases)
     (auto simp: tasks_ok_def worker_look_def split: list.splits if_splits dest: set_update_cases)

lemma worker_move_stop: "worker_move p p' \<Longrightarrow> stop p' = stop p"
  by (erule worker_move_cases) (auto simp: worker_look_def split: list.splits)

section \<open>What the workers still owe and hold\<close>

text \<open>The replies a worker's task may still send, and the connections it holds.\<close>

definition owes :: "ServerTask pool \<Rightarrow> (nat \<Rightarrow> ('c, 'row) prog option) \<Rightarrow> nat \<Rightarrow> nat" where
  "owes p c i =
     (case workers p ! i of
        Running t \<Rightarrow> (case c i of None \<Rightarrow> 1 | Some q \<Rightarrow> if replies_le q 0 then 0 else 1)
      | _ \<Rightarrow> 0)"

definition held :: "(nat \<Rightarrow> ('c, 'row) prog option) \<Rightarrow> nat \<Rightarrow> nat" where
  "held c i = (case c i of None \<Rightarrow> 0 | Some q \<Rightarrow> holds q)"

definition owed :: "ServerTask pool \<Rightarrow> (nat \<Rightarrow> ('c, 'row) prog option) \<Rightarrow> nat" where
  "owed p c = (\<Sum>i < length (workers p). owes p c i)"

definition held_conns :: "ServerTask pool \<Rightarrow> (nat \<Rightarrow> ('c, 'row) prog option) \<Rightarrow> nat" where
  "held_conns p c = (\<Sum>i < length (workers p). held c i)"

text \<open>Only running workers are in a task, whose program has one reply to send at most.\<close>

definition calls_ok :: "ServerTask pool \<Rightarrow> (nat \<Rightarrow> ('c, 'row) prog option) \<Rightarrow> bool" where
  "calls_ok p c \<longleftrightarrow>
     (\<forall>i q. c i = Some q \<longrightarrow>
        i < length (workers p) \<and> (\<exists>t. workers p ! i = Running t) \<and> replies_le q 1 \<and> tidy q)"

lemma sum_change:
  fixes i n :: nat
  assumes "i < n" and "\<And>j. j < n \<Longrightarrow> j \<noteq> i \<Longrightarrow> f' j = (f j :: nat)"
  shows "(\<Sum>j<n. f' j) + f i = (\<Sum>j<n. f j) + f' i"
proof -
  have "(\<Sum>j \<in> {..<n} - {i}. f' j) = (\<Sum>j \<in> {..<n} - {i}. f j)"
    using assms(2) by (intro sum.cong) auto
  moreover have "sum g {..<n} = g i + sum g ({..<n} - {i})" for g :: "nat \<Rightarrow> nat"
    using assms(1) by (intro sum.remove) auto
  ultimately show ?thesis by simp
qed

lemma owed_change:
  assumes "i < length (workers p)" and "length (workers p') = length (workers p)"
    and "\<And>j. j \<noteq> i \<Longrightarrow> workers p' ! j = workers p ! j \<and> c' j = c j"
  shows "owed p' c' + owes p c i = owed p c + owes p' c' i"
proof -
  have "owes p' c' j = owes p c j" if "j \<noteq> i" for j using assms(3) [OF that] by (simp add: owes_def split: worker.split)
  then show ?thesis unfolding owed_def assms(2) using assms(1) by (intro sum_change)
qed

lemma held_change:
  assumes "i < length (workers p)" and "\<And>j. j \<noteq> i \<Longrightarrow> c' j = c j"
  shows "held_conns p c' + held c i = held_conns p c + held c' i"
proof -
  have "held c' j = held c j" if "j \<noteq> i" for j using assms(2) [OF that] by (simp add: held_def)
  then show ?thesis unfolding held_conns_def using assms(1) by (intro sum_change)
qed

lemma owes_le_1: "owes p c i \<le> 1"
  by (simp add: owes_def split: worker.split option.split)

lemma holds_le_1 [simp]: "holds q \<le> Suc 0"
  by (cases q) simp_all

lemma held_le_1: "held c i \<le> 1"
  by (simp add: held_def split: option.split)

text \<open>The pool changing, the calls left alone.\<close>

lemma worker_move_calls:
  assumes move: "worker_move p p'" and ok: "calls_ok p c"
  shows "calls_ok p' c" "held_conns p' c = held_conns p c"
    "owed p' c + length (started p) = owed p c + length (started p')"
proof -
  have len: "length (workers p') = length (workers p)"
    using move pool_step_threads by (auto simp: worker_move_def)
  have "workers p' ! i = Running t" if "i < length (workers p)" "workers p ! i = Running t" for i t
    using move that by (auto simp: worker_move_def)
  then show "calls_ok p' c" using ok len by (fastforce simp: calls_ok_def)
  show "held_conns p' c = held_conns p c" by (simp add: held_conns_def len)
  show "owed p' c + length (started p) = owed p c + length (started p')"
    using move
  proof (cases rule: worker_move_cases)
    case (woken i n)
    have "owes p c i = 0" "owes p' c i = 0" using woken by (simp_all add: owes_def)
    with owed_change [of i p p' c c] woken show ?thesis by simp
  next
    case (nobody n)
    then show ?thesis by (simp add: owed_def owes_def)
  next
    case (looks i)
    have none: "c i = None" using ok looks(2) by (cases "c i") (force simp: calls_ok_def)+
    have "owed p' c + owes p c i = owed p c + owes p' c i"
      by (rule owed_change [OF looks(1) len]) (simp add: looks(3) worker_look_def split: list.split)
    moreover have "owes p c i = 0" using looks(2) by (simp add: owes_def)
    moreover have "owes p' c i + length (started p) = length (started p')"
      using looks none by (simp add: owes_def worker_look_def split: list.split)
    ultimately show ?thesis by simp
  qed
qed

lemma accepts_calls:
  assumes "accepts p p'"
  shows "calls_ok p' c = calls_ok p c" "held_conns p' c = held_conns p c" "owed p' c = owed p c"
    "started p' = started p" "stop p' = stop p"
proof -
  have "workers p' = workers p" "started p' = started p" "stop p' = stop p"
    using assms by (auto simp: accepts_def enqueue_def split: if_splits)
  then show "calls_ok p' c = calls_ok p c" "held_conns p' c = held_conns p c" "owed p' c = owed p c"
    "started p' = started p" "stop p' = stop p"
    by (simp_all add: calls_ok_def held_conns_def owed_def owes_def)
qed

section \<open>Invariant\<close>

definition server_inv :: "nat \<Rightarrow> int \<Rightarrow> ('c, 'db, 'row, 'x, 'rd) ServerSys \<Rightarrow> bool" where
  "server_inv threads sz s \<longleftrightarrow>
     loop_ok (loop s) \<and> tasks_ok (jobs (loop s)) \<and> \<not> stop (jobs (loop s)) \<and>
     pool_reachable threads (jobs (loop s)) \<and> calls_ok (jobs (loop s)) (at_call s) \<and>
     (\<forall>obj \<in> set (buff (sseq (sworld s))). sendable obj) \<and> ssender_at s = Waiting \<and>
     (\<forall>(fd, b) \<in> set (sent s). \<exists>obj. sendable obj \<and> fd = tfd obj \<and> b = obj_bytes obj) \<and>
     maxSize (mpool (sworld s)) = sz \<and>
     pool_counts (mpool (sworld s)) (held_conns (jobs (loop s)) (at_call s) + thrown s) \<and>
     length (sent s) + length (buff (sseq (sworld s))) + owed (jobs (loop s)) (at_call s) \<le>
       length (started (jobs (loop s)))"

lemma loop_ok_jobs [simp]: "loop_ok (w\<lparr>jobs := p\<rparr>) = loop_ok w"
  by (simp add: loop_ok_def)

lemma pool_reachable_accepts:
  "accepts p p' \<Longrightarrow> pool_reachable threads p \<Longrightarrow> pool_reachable threads p'"
  by (auto simp: accepts_def intro: pool_reachable.step pool_step.enq)

lemma pool_reachable_done:
  "i < length (workers p) \<Longrightarrow> workers p ! i = Running t \<Longrightarrow> pool_reachable threads p \<Longrightarrow>
   pool_reachable threads (worker_done i p)"
  unfolding worker_done_def by (blast intro: pool_reachable.step pool_step.finish)

lemma call_step_maxSize:
  "call_step m ra pw q w = Some (Inr (q', w')) \<Longrightarrow> maxSize (mpool w') = maxSize (mpool w)"
  by (cases q) (auto simp: call_step.simps ReleaseConnection_def dest: GetConnection_max
      split: option.splits prod.splits)

text \<open>A worker begins its task, makes a call, ends.\<close>

lemma begin_calls:
  assumes ok: "calls_ok p c" and i: "i < length (workers p)" "workers p ! i = Running t" "c i = None"
    and t: "sendable (task_obj t)"
  shows "calls_ok p (c(i \<mapsto> task_prog m t))" "held_conns p (c(i \<mapsto> task_prog m t)) = held_conns p c"
    "owed p (c(i \<mapsto> task_prog m t)) \<le> owed p c"
proof -
  let ?c = "c(i \<mapsto> task_prog m t)"
  show "calls_ok p ?c" using ok i replies_le_task [OF t] tidy_task by (auto simp: calls_ok_def)
  show "held_conns p ?c = held_conns p c"
    using held_change [OF i(1), of ?c c] i(3) by (simp add: held_def tidy_task)
  have "owes p c i = 1" using i by (simp add: owes_def)
  moreover have "owed p ?c + owes p c i = owed p c + owes p ?c i" by (rule owed_change [OF i(1)]) simp_all
  ultimately show "owed p ?c \<le> owed p c" using owes_le_1 [of p ?c i] by linarith
qed

lemma end_calls:
  assumes ok: "calls_ok p c" and c: "c i = Some (Finish e)"
  shows "calls_ok (worker_done i p) (c(i := None))" "held_conns (worker_done i p) (c(i := None)) = held_conns p c"
    "owed (worker_done i p) (c(i := None)) = owed p c"
proof -
  let ?p = "worker_done i p" and ?c = "c(i := None)"
  have i: "i < length (workers p)" using ok c by (force simp: calls_ok_def)
  have len: "length (workers ?p) = length (workers p)" by (simp add: worker_done_def)
  show "calls_ok ?p ?c" using ok by (auto simp: calls_ok_def worker_done_def)
  have "held_conns ?p ?c = held_conns p ?c" by (simp add: held_conns_def len)
  then show "held_conns ?p ?c = held_conns p c"
    using held_change [OF i, of ?c c] c by (simp add: held_def)
  have "owes ?p ?c i = 0" "owes p c i = 0"
    using i c by (simp_all add: owes_def worker_done_def split: worker.split)
  moreover have "owed ?p ?c + owes p c i = owed p c + owes ?p ?c i"
    by (rule owed_change [OF i len]) (simp add: worker_done_def)
  ultimately show "owed ?p ?c = owed p c" by simp
qed

lemma call_calls:
  assumes ok: "calls_ok p c" and c: "c i = Some q"
    and step: "call_step m ra pw q w = Some (Inr (q', w'))"
    and conns: "pool_counts (mpool w) (held_conns p c + n)"
  shows "calls_ok p (c(i \<mapsto> q'))"
    "pool_counts (mpool w') (held_conns p (c(i \<mapsto> q')) + n + (if call_throws m q (mdb w) then 1 else 0))"
    "sseq w' = sseq w \<and> owed p (c(i \<mapsto> q')) \<le> owed p c \<or>
     (\<exists>obj. sendable obj \<and> sseq w' = pushBuff obj (sseq w) \<and> Suc (owed p (c(i \<mapsto> q'))) \<le> owed p c)"
proof -
  let ?c = "c(i \<mapsto> q')"
  obtain t where i: "i < length (workers p)" "workers p ! i = Running t"
    and q: "replies_le q 1" "tidy q" using ok c by (force simp: calls_ok_def)
  have h: "held_conns p ?c + holds q = held_conns p c + holds q'"
    using held_change [OF i(1), of ?c c] c by (simp add: held_def)
  have "holds q \<le> held_conns p c"
  proof -
    have "held c i \<le> held_conns p c" unfolding held_conns_def using i(1) by (intro member_le_sum) auto
    then show ?thesis using c by (simp add: held_def)
  qed
  then obtain rest where rest: "held_conns p c = holds q + rest" using le_Suc_ex by blast
  with h have rest': "held_conns p ?c = holds q' + rest" by simp
  have "pool_counts (mpool w) (holds q + (rest + n))" using conns rest by (simp add: add.assoc)
  from call_step_conns [OF step q(2) this]
  show "pool_counts (mpool w') (held_conns p ?c + n + (if call_throws m q (mdb w) then 1 else 0))"
    and "calls_ok p ?c"
    using rest' ok i call_step_replies [OF step q(1)]
    by (auto simp: calls_ok_def add.assoc replies_le_Suc)
  have o: "owed p ?c + owes p c i = owed p c + owes p ?c i" by (rule owed_change [OF i(1)]) simp_all
  have owes: "owes p c i = (if replies_le q 0 then 0 else 1)" "owes p ?c i = (if replies_le q' 0 then 0 else 1)"
    using c i(2) by (simp_all add: owes_def)
  show "sseq w' = sseq w \<and> owed p ?c \<le> owed p c \<or>
     (\<exists>obj. sendable obj \<and> sseq w' = pushBuff obj (sseq w) \<and> Suc (owed p ?c) \<le> owed p c)"
  proof (cases "replies_le q 0")
    case True
    with call_step_replies [OF step True] o owes show ?thesis by auto
  next
    case False
    with call_step_replies [OF step q(1)] o owes show ?thesis by (auto split: if_splits)
  qed
qed

lemma server_step_inv:
  assumes "server_step m ra pw s s'" and inv: "server_inv threads sz s"
  shows "server_inv threads sz s'"
  using assms(1)
proof (cases rule: server_step_cases)
  case (event e n l)
  have "loop_ok (loop s)" using inv by (simp add: server_inv_def)
  with event(2,3) have "loop_ok l" "accepts (jobs (loop s)) (jobs l)"
    using dispatch_event_ok dispatch_event_accepts by blast+
  from tasks_ok_accepts [OF this(2)] accepts_calls(1-3) [OF this(2), of "at_call s"]
    accepts_calls(4,5) [OF this(2)] pool_reachable_accepts [OF this(2), of threads] this(1)
    inv event(1)
  show ?thesis by (auto simp: server_inv_def)
next
  case (worker_moves p)
  have "pool_step (jobs (loop s)) p" using worker_moves(2) by (simp add: worker_move_def)
  moreover have "calls_ok (jobs (loop s)) (at_call s)" using inv by (simp add: server_inv_def)
  ultimately show ?thesis
    using inv worker_moves(1) tasks_ok_move [OF worker_moves(2)] worker_move_stop [OF worker_moves(2)]
      worker_move_calls [OF worker_moves(2), of "at_call s"]
    by (auto simp: server_inv_def intro: pool_reachable.step)
next
  case (begins i t)
  have "Running t \<in> set (workers (jobs (loop s)))" using begins(2,3) nth_mem by metis
  then have t: "sendable (task_obj t)" using inv by (auto simp: server_inv_def tasks_ok_def)
  have "calls_ok (jobs (loop s)) (at_call s)" using inv by (simp add: server_inv_def)
  from begin_calls [OF this begins(2-4) t, of m] inv begins(1) show ?thesis
    by (auto simp: server_inv_def)
next
  case (calls i q t n c q' w c')
  let ?w = "(sworld s)\<lparr>rclient := c\<rparr>"
  have "calls_ok (jobs (loop s)) (at_call s)"
    "pool_counts (mpool ?w) (held_conns (jobs (loop s)) (at_call s) + thrown s)"
    using inv by (simp_all add: server_inv_def)
  from call_calls [OF this(1) calls(2,5) this(2)] inv calls(1) call_step_maxSize [OF calls(5)] show ?thesis
    by (auto simp: server_inv_def add.assoc pushBuff_def cq_push_def)
next
  case (ends i e)
  have ok: "calls_ok (jobs (loop s)) (at_call s)" using inv by (simp add: server_inv_def)
  then obtain t where "i < length (workers (jobs (loop s)))" "workers (jobs (loop s)) ! i = Running t"
    using ends(2) by (force simp: calls_ok_def)
  from pool_reachable_done [OF this] end_calls [OF ok ends(2)] inv ends(1) show ?thesis
    by (auto simp: server_inv_def tasks_ok_done) (simp_all add: worker_done_def)
next
  case (send obj q x ps e r)
  have "sendable obj" using inv send(3) by (auto simp: server_inv_def)
  with server_run_one [OF send(4), of obj] send(5) have "ps = [(tfd obj, obj_bytes obj)]" "e = Waiting"
    by (auto simp: sendable_def)
  with inv send(1,3) \<open>sendable obj\<close> show ?thesis by (auto simp: server_inv_def)
qed

lemma server_start_inv:
  assumes "pool_counts p 0"
  shows "server_inv threads (maxSize p) (server_start threads lfd p db k rd)"
proof -
  let ?w = "\<lparr>handlers_map = (\<lambda>_. None), epoll = (\<lambda>_. None), written = [], jobs = pool_init threads\<rparr>"
  have "loop_ok (ServerHandler_new lfd ?w)" by (rule loop_ok_listen) (simp_all add: loop_ok_def)
  moreover have "jobs (ServerHandler_new lfd ?w) = pool_init threads"
    by (simp add: ServerHandler_new_def addHandler_def)
  moreover have "owed (pool_init threads) (\<lambda>_. None) = 0"
    by (auto simp: owed_def owes_def pool_init_def split: worker.split)
  ultimately show ?thesis
    using assms pool_reachable.start [of threads]
    by (auto simp: server_inv_def server_start_def tasks_ok_def pool_init_def calls_ok_def held_conns_def held_def)
qed

lemma server_reach_inv: "server_reach m ra pw threads sz s \<Longrightarrow> server_inv threads sz s"
proof (induction rule: server_reach.induct)
  case (start p db p' db' lfd k rd)
  have "pool_counts p' 0" using initPool_counts [OF start(3,1,2)] by simp
  moreover have "maxSize p' = sz" using initPool_max [OF start(3)] .
  ultimately show ?case using server_start_inv [of p'] by simp
next
  case (step s s')
  then show ?case by (blast intro: server_step_inv)
qed

text \<open>A worker that holds no connection can get one.\<close>

lemma connection_available:
  assumes inv: "server_inv threads sz s" and "int threads \<le> sz" and "thrown s = 0"
    and i: "i < length (workers (jobs (loop s)))" "held (at_call s) i = 0"
    and "CreateConnection m (mdb (sworld s)) = (Some conn, db)"
  shows "fst (GetConnection m (mpool (sworld s)) (mdb (sworld s))) \<noteq> None"
proof -
  let ?p = "jobs (loop s)" and ?mp = "mpool (sworld s)"
  have "length (workers ?p) = threads" using inv reachable_threads by (auto simp: server_inv_def)
  moreover have "held_conns ?p (at_call s) < length (workers ?p)"
  proof -
    have "held_conns ?p (at_call s) < (\<Sum>j < length (workers ?p). 1)"
      unfolding held_conns_def using i held_le_1 by (intro sum_strict_mono_ex1) auto
    then show ?thesis by simp
  qed
  moreover have "maxSize ?mp = sz" "pool_counts ?mp (held_conns ?p (at_call s))"
    using inv assms(3) by (simp_all add: server_inv_def)
  ultimately have "connList ?mp \<noteq> [] \<or> curSize ?mp < maxSize ?mp" using assms(2) by (auto simp: pool_counts_def)
  then show ?thesis using assms(6)
    by (auto simp: GetConnection_def Let_def CreateConnection_def split: list.split prod.splits)
qed

section \<open>A worker running a whole task\<close>

lemma calls_steps:
  assumes "(prog_step m ra pw)\<^sup>*\<^sup>* (q, w) (q', w')" and "at_call s i = Some q" "sworld s = w"
    and up: "\<And>conn db. prepare m conn db"
  shows "(server_step m ra pw)\<^sup>*\<^sup>* s (s\<lparr>sworld := w', at_call := (at_call s)(i \<mapsto> q')\<rparr>)"
  using assms(1)
proof (induction rule: rtranclp_induct2)
  case refl
  have "(at_call s)(i \<mapsto> q) = at_call s" using assms(2) by (simp add: fun_upd_idem)
  then show ?case using assms(3) by (cases s) simp
next
  case (step q1 w1 q2 w2)
  let ?s = "s\<lparr>sworld := w1, at_call := (at_call s)(i \<mapsto> q1)\<rparr>"
  have c: "call_step m ra pw q1 (sworld ?s) = Some (Inr (q2, w2))"
    using step.hyps(2) by (auto elim: prog_step.cases)
  have "\<not> call_throws m q1 db" for db using up by (simp add: call_throws_def split: prog.split)
  then have e: "?s\<lparr>sworld := w2, at_call := (at_call ?s)(i \<mapsto> q2),
      thrown := thrown ?s + (if call_throws m q1 (mdb (sworld ?s)) then 1 else 0)\<rparr> =
      s\<lparr>sworld := w2, at_call := (at_call s)(i \<mapsto> q2)\<rparr>"
    by (cases s) simp
  have "at_call ?s i = Some q1" by simp
  note server_call [OF this c, unfolded e]
  with step.IH show ?case by (rule rtranclp.rtrancl_into_rtrancl [where r = "server_step m ra pw"])
qed

lemma steps_reach:
  "(server_step m ra pw)\<^sup>*\<^sup>* s s' \<Longrightarrow> server_reach m ra pw threads sz s \<Longrightarrow> server_reach m ra pw threads sz s'"
  by (induction rule: rtranclp_induct) (auto intro: server_reach.step)

lemma calls_reach:
  assumes "(prog_step m ra pw)\<^sup>*\<^sup>* (q, w) (q', w')"
    and "server_reach m ra pw threads sz s" "at_call s i = Some q" "sworld s = w"
    and "\<And>conn db. prepare m conn db"
  shows "server_reach m ra pw threads sz (s\<lparr>sworld := w', at_call := (at_call s)(i \<mapsto> q')\<rparr>)"
  by (rule steps_reach [OF calls_steps [OF assms(1,3,4,5)] assms(2)])

text \<open>A worker that has taken a task can run it to its end with nothing in between.\<close>

lemma task_reach:
  assumes "server_reach m ra pw threads sz s"
    and i: "i < length (workers (jobs (loop s)))" "workers (jobs (loop s)) ! i = Running t" "at_call s i = None"
    and run: "run_task m ra pw t (sworld s) = Inr (e, w)"
    and up: "\<And>conn db. prepare m conn db"
  shows "server_reach m ra pw threads sz
           (s\<lparr>loop := (loop s)\<lparr>jobs := worker_done i (jobs (loop s))\<rparr>, sworld := w\<rparr>)"
proof -
  let ?s = "s\<lparr>at_call := (at_call s)(i \<mapsto> task_prog m t)\<rparr>"
  have "server_reach m ra pw threads sz ?s"
    using server_reach.step [OF assms(1) server_step.begins [OF i]] .
  moreover have "(prog_step m ra pw)\<^sup>*\<^sup>* (task_prog m t, sworld s) (Finish e, w)"
    using run by (intro run_prog_steps) (simp add: run_task_prog)
  ultimately have r: "server_reach m ra pw threads sz (?s\<lparr>sworld := w, at_call := (at_call ?s)(i \<mapsto> Finish e)\<rparr>)"
    using calls_reach [of m ra pw "task_prog m t" "sworld s" "Finish e" w threads sz ?s i] up by simp
  have "(at_call s)(i := None) = at_call s" using i(3) by (simp add: fun_upd_idem)
  then have "s\<lparr>loop := (loop s)\<lparr>jobs := worker_done i (jobs (loop s))\<rparr>, sworld := w\<rparr> =
      ?s\<lparr>sworld := w, at_call := (at_call ?s)(i \<mapsto> Finish e),
        loop := (loop s)\<lparr>jobs := worker_done i (jobs (loop s))\<rparr>, at_call := (at_call s)(i := None)\<rparr>"
    by (cases s) simp
  with server_reach.step [OF r server_step.ends [of _ i e]] show ?thesis by simp
qed

section \<open>Connections, messages and workers\<close>

text \<open>From a reachable state: a connection is accepted, a message arrives, a worker takes a task.\<close>

lemma open_reach:
  assumes s: "server_reach m ra pw threads sz s" and l: "handlers_map (loop s) l = Some (Some Listener)"
    and c: "0 \<le> sint c" "handlers_map (loop s) c = None" and g: "length g = BUFFER_SIZE"
  shows "server_reach m ra pw threads sz
           (s\<lparr>loop := addHandler c (Some (Echo (EchoHandler_new g))) EPOLLIN (loop s)\<rparr>)"
proof -
  let ?e = "\<lparr>ev_fd = l, ev_flags = EPOLLIN, ev_rcv = Inl 0, ev_client = c, ev_fresh = g\<rparr>"
  have "loop_ok (loop s)" using server_reach_inv [OF s] by (simp add: server_inv_def)
  then have "epoll (loop s) l \<noteq> None" using l by (rule loop_ok_registered)
  then have "event_ok (loop s) ?e" using c g by (simp add: event_ok_def epoll_flags)
  moreover have "dispatch_event ?e (loop s) =
      Inr (Inr (0, addHandler c (Some (Echo (EchoHandler_new g))) EPOLLIN (loop s)))"
    using l c by (simp add: dispatch_event_def ServerHandler_handle_def)
  ultimately show ?thesis by (blast intro: server_reach.step [OF s] server_step.event)
qed

lemma arrival_reach:
  assumes s: "server_reach m ra pw threads sz s" and h: "handlers_map (loop s) fd = Some (Some (Echo h))"
    and obj: "wf_size obj" and p: "server_handle (Some (obj\<lparr>mlen := 0\<rparr>)) fd (jobs (loop s)) = Inr p"
  shows "\<exists>l. server_reach m ra pw threads sz (s\<lparr>loop := l\<rparr>) \<and> jobs l = p \<and>
             (\<forall>f. f \<noteq> fd \<longrightarrow> handlers_map l f = handlers_map (loop s) f)"
proof -
  let ?e = "\<lparr>ev_fd = fd, ev_flags = EPOLLIN, ev_rcv = Inr (packet obj), ev_client = -1,
      ev_fresh = replicate BUFFER_SIZE NUL\<rparr>"
  have ok: "loop_ok (loop s)" using server_reach_inv [OF s] by (simp add: server_inv_def)
  have len: "length (ebuffer h) = BUFFER_SIZE" using ok h by (rule loop_ok_buffer)
  have "epoll (loop s) fd \<noteq> None" using ok h by (rule loop_ok_registered)
  then have "event_ok (loop s) ?e"
    using length_packet [OF obj] by (auto simp: event_ok_def epoll_flags BUFFER_SIZE_def)
  moreover obtain l where "dispatch_event ?e (loop s) = Inr (Inr (0, l))" "jobs l = p"
      "\<forall>f. f \<noteq> fd \<longrightarrow> handlers_map l f = handlers_map (loop s) f"
    using echo_packet [OF obj h len p, of ?e] by auto
  ultimately show ?thesis by (blast intro: server_reach.step [OF s] server_step.event)
qed

lemma take_reach:
  assumes s: "server_reach m ra pw threads sz s"
    and i: "i < length (workers (jobs (loop s)))" "workers (jobs (loop s)) ! i = Ready"
    and t: "tasks (jobs (loop s)) = t # ts"
  shows "server_reach m ra pw threads sz
    (s\<lparr>loop := (loop s)\<lparr>jobs := (jobs (loop s))\<lparr>workers := (workers (jobs (loop s)))[i := Running t],
       tasks := ts, started := started (jobs (loop s)) @ [t]\<rparr>\<rparr>\<rparr>)"
proof -
  let ?p = "jobs (loop s)"
  have l: "worker_look i ?p = ?p\<lparr>workers := (workers ?p)[i := Running t], tasks := ts, started := started ?p @ [t]\<rparr>"
    by (simp add: worker_look_def t)
  have "pool_step ?p (worker_look i ?p)" using i by (rule pool_step.look)
  then have "worker_move ?p (worker_look i ?p)"
    using i by (auto simp: worker_move_def l nth_list_update)
  from server_reach.step [OF s server_step.worker_moves [OF this]] show ?thesis by (simp add: l)
qed

section \<open>A session\<close>

text \<open>
  A server with one worker: a connection is accepted, its login arrives, a worker takes
  and runs the task, and the sender sends the reply.
\<close>

type_synonym demo_sys = "(nat, (string \<times> s32) list, string \<times> s32, nat, redis_abs) ServerSys"

abbreviation demo_pool :: "nat MysqlPool" where
  "demo_pool \<equiv> \<lparr>connList = [0], curSize = 1, maxSize = 2\<rparr>"

abbreviation demo_rows :: "(string \<times> s32) list" where
  "demo_rows \<equiv> [(''secret'', 5)]"

definition demo_start :: demo_sys where
  "demo_start = server_start 1 3 demo_pool demo_rows mini_client mini_empty"

definition demo_fresh :: bytes where
  "demo_fresh = replicate BUFFER_SIZE NUL"

definition demo_open :: demo_sys where
  "demo_open = demo_start\<lparr>loop := addHandler 9 (Some (Echo (EchoHandler_new demo_fresh))) EPOLLIN (loop demo_start)\<rparr>"

abbreviation demo_reach :: "demo_sys \<Rightarrow> bool" where
  "demo_reach \<equiv> server_reach demo_mysql mini_redis [] 1 2"

lemma demo_start_reach: "demo_reach demo_start"
  unfolding demo_start_def
  by (rule server_reach.start [of "\<lparr>connList = [], curSize = 0, maxSize = 0\<rparr>" 2 _ "[(''secret'', 5)]"])
     (simp_all add: initPool_def CreateConnection_def demo_mysql_def)

lemma demo_open_reach: "demo_reach demo_open"
  unfolding demo_open_def
  by (rule open_reach [OF demo_start_reach, of 3])
     (simp_all add: demo_start_def server_start_def ServerHandler_new_def addHandler_def demo_fresh_def)

lemma demo_login_handled: "\<not> stop p \<Longrightarrow> server_handle (Some (demo_login\<lparr>mlen := 0\<rparr>)) fd p =
    enqueue (LogTask demo_login fd) p"
proof -
  have "demo_login\<lparr>mlen := 0\<rparr> = demo_login" "msgType demo_login = 6"
    by (simp_all add: demo_login_def TransObj_default_def)
  then show ?thesis by (simp add: server_handle_def s_handleUserLogMsg_def)
qed

lemma demo_running:
  "\<exists>s. demo_reach s \<and> workers (jobs (loop s)) = [Running (LogTask demo_login 9)] \<and>
       started (jobs (loop s)) = [LogTask demo_login 9] \<and>
       sworld s = sworld demo_start \<and> ssender_at s = Waiting \<and> sent s = [] \<and> thrown s = 0 \<and>
       at_call s = (\<lambda>_. None)"
proof -
  have h: "handlers_map (loop demo_open) 9 = Some (Some (Echo (EchoHandler_new demo_fresh)))"
    by (simp add: demo_open_def addHandler_def)
  have j: "jobs (loop demo_open) = pool_init 1"
    by (simp add: demo_open_def addHandler_def demo_start_def server_start_def ServerHandler_new_def)
  have sh: "server_handle (Some (demo_login\<lparr>mlen := 0\<rparr>)) 9 (jobs (loop demo_open)) =
      Inr ((pool_init 1)\<lparr>tasks := [LogTask demo_login 9], submitted := [LogTask demo_login 9], notifs := 1\<rparr>)"
    unfolding j by (simp add: demo_login_handled enqueue_def pool_init_def)
  obtain l where l: "demo_reach (demo_open\<lparr>loop := l\<rparr>)"
    "jobs l = (pool_init 1)\<lparr>tasks := [LogTask demo_login 9], submitted := [LogTask demo_login 9], notifs := 1\<rparr>"
    using arrival_reach [OF demo_open_reach h demo_login_fields(3) sh] by auto
  from take_reach [OF l(1), of 0 "LogTask demo_login 9" "[]"] l(2) show ?thesis
    by (intro exI) (auto simp: pool_init_def demo_open_def demo_start_def server_start_def intro!: conjI)
qed

lemma demo_replied:
  "\<exists>s. demo_reach s \<and> started (jobs (loop s)) = [LogTask demo_login 9] \<and> thrown s = 0 \<and> at_call s = (\<lambda>_. None) \<and>
       workers (jobs (loop s)) = [Ready] \<and> ssender_at s = Waiting \<and> sent s = [] \<and>
       buff (sseq (sworld s)) = [demo_login\<lparr>tid := 5, tfd := 9, msgType := 7\<rparr>]"
proof -
  obtain s where s: "demo_reach s" "workers (jobs (loop s)) = [Running (LogTask demo_login 9)]"
    "started (jobs (loop s)) = [LogTask demo_login 9]" "sworld s = sworld demo_start"
    "ssender_at s = Waiting" "sent s = []" "thrown s = 0" "at_call s = (\<lambda>_. None)"
    using demo_running by blast
  let ?w = "sworld demo_start"
  have q: "ExecQuery demo_mysql sql_login [ArgS ''bob''] (mpool ?w) (mdb ?w) =
      Inr (Ret (Some [(''secret'', 5)]), demo_pool, demo_rows)"
    using demo_sql(1) [of "''bob''"]
    by (auto simp: ExecQuery_def GetConnection_def demo_mysql_def demo_start_def server_start_def
        sql_text_def snprintf_def ReleaseConnection_def)
  have up: "redis_up mini_redis (\<lambda>A. A) ?w"
    by (simp add: redis_up_def mini_documented demo_start_def server_start_def mini_connected mini_registry)
  have g: "getString demo_mysql (''secret'', 5) ''password'' = Some ''secret''" "cstr ''secret'' = ''secret''"
    "getInt demo_mysql (''secret'', 5) ''userid'' = Some 5" "length ''bob'' \<le> 61"
    by (simp_all add: demo_mysql_def cstr_def NUL_def)
  obtain w where w: "run_task demo_mysql mini_redis [] (LogTask demo_login 9) ?w = Inr (Done 1, w)"
    "sseq w = pushBuff (demo_login\<lparr>tid := 5, tfd := 9, msgType := msgCode MSG_LOGIN_ACCEPT\<rparr>) (sseq ?w)"
    using login_outcome [OF up demo_login_fields(4,1) demo_word_ok g(4) demo_login_fields(2) q g(1-3), of "[]" 9]
    by (auto simp: run_task.simps)
  let ?s = "s\<lparr>loop := (loop s)\<lparr>jobs := worker_done 0 (jobs (loop s))\<rparr>, sworld := w\<rparr>"
  have "demo_reach ?s"
    by (rule task_reach [OF s(1), of 0 "LogTask demo_login 9" "Done 1"])
       (use w(1) s in \<open>simp_all add: demo_mysql_def\<close>)
  then show ?thesis
    using s w(2) by (intro exI [of _ ?s])
      (simp add: worker_done_def demo_start_def server_start_def pushBuff_def cq_push_def)
qed

lemma demo_sent:
  "\<exists>s. demo_reach s \<and> started (jobs (loop s)) = [LogTask demo_login 9] \<and>
       sent s = [(9, obj_bytes (demo_login\<lparr>tid := 5, tfd := 9, msgType := 7\<rparr>))] \<and>
       buff (sseq (sworld s)) = []"
proof -
  let ?obj = "demo_login\<lparr>tid := 5, tfd := 9, msgType := 7\<rparr>"
  obtain s where s: "demo_reach s" "started (jobs (loop s)) = [LogTask demo_login 9]"
    "ssender_at s = Waiting" "sent s = []" "buff (sseq (sworld s)) = ?obj # []"
    using demo_replied by blast
  have "wf_size ?obj" using demo_login_fields(3) by (simp add: wf_size_def)
  then have "server_run [Taken] [?obj] = ([(9, obj_bytes ?obj)], Waiting, [])"
    using server_run_one [of Taken ?obj] by simp
  from server_reach.step [OF s(1) server_step.send [OF s(3,5) _ this]] s(2,4) show ?thesis
    by (intro exI) (auto intro: conjI)
qed

section \<open>Properties\<close>

text \<open>An event the kernel can report is handled without leaving the event loop by an exception.\<close>

lemma enqueue_running: "\<not> stop p \<Longrightarrow> enqueue t p \<noteq> Inl x"
  by (simp add: enqueue_def)

lemma server_handle_running: "\<not> stop p \<Longrightarrow> server_handle obj fd p \<noteq> Inl x"
proof -
  assume "\<not> stop p"
  then have "server_handler h ob fd p \<noteq> Inl x" for h ob
    by (cases h) (auto simp: s_handler_defs enqueue_running)
  then show ?thesis by (simp add: server_handle_def split: option.split)
qed

lemma dispatch_event_running: "\<not> stop (jobs w) \<Longrightarrow> dispatch_event e w \<noteq> Inr (Inl x)"
  by (auto simp: dispatch_event_def EchoHandler_handle_def echo_in_def echo_deliver_def Let_def
      echo_out_def modifyHandler_def server_handle_running
      split: option.splits handler.splits sum.splits if_splits)

text \<open>C9: However events, workers and the sender interleave, and as long as no send goes to a connection
  that its peer has reset (which raises \<^verbatim>\<open>SIGPIPE\<close>), no client can bring the server's threads
  down through its control flow: the sender never leaves its loop (no client can make it pop the
  object that ends it), every packet it sent is the 84-byte image of an object, on that object's
  socket, and the event loop never dereferences a null handler and never ends by an exception.\<close>

theorem server_system_safe:
  assumes "server_reach m ra pw threads sz s"
  shows "ssender_at s = Waiting \<and>
         (\<forall>(fd, b) \<in> set (sent s). length b = 84 \<and>
            (\<exists>obj. fd = tfd obj \<and> b = obj_bytes obj \<and> msgType obj \<noteq> msgCode MSG_BUTTON)) \<and>
         (\<forall>e. event_ok (loop s) e \<longrightarrow>
            dispatch_event e (loop s) \<noteq> Inl NullDeref \<and> (\<forall>x. dispatch_event e (loop s) \<noteq> Inr (Inl x)))"
proof -
  have inv: "server_inv threads sz s" using assms by (rule server_reach_inv)
  have "length b = 84 \<and> (\<exists>obj. fd = tfd obj \<and> b = obj_bytes obj \<and> msgType obj \<noteq> msgCode MSG_BUTTON)"
    if "(fd, b) \<in> set (sent s)" for fd b
  proof -
    obtain obj where "sendable obj" "fd = tfd obj" "b = obj_bytes obj"
      using inv \<open>(fd, b) \<in> set (sent s)\<close> by (fastforce simp: server_inv_def)
    then show ?thesis by (auto simp: sendable_def length_obj_bytes sizeof_TransObj_def)
  qed
  then show ?thesis
    using inv dispatch_event_defined dispatch_event_running by (fastforce simp: server_inv_def)
qed

theorem server_system_safe_witness:
  "\<exists>s :: demo_sys. sent s = [(9, obj_bytes (demo_login\<lparr>tid := 5, tfd := 9, msgType := 7\<rparr>))] \<and>
     ssender_at s = Waiting"
  using demo_sent server_system_safe by fast

text \<open>C15: The server sends at most one packet for each message it accepted: what it has sent and what
  waits to be sent never exceeds the number of tasks taken by the workers, and those are the
  first of the tasks queued by received messages.\<close>

theorem server_one_reply:
  assumes "server_reach m ra pw threads sz s"
  shows "length (sent s) + length (buff (sseq (sworld s))) \<le> length (started (jobs (loop s))) \<and>
         (\<exists>waiting. submitted (jobs (loop s)) = started (jobs (loop s)) @ waiting)"
proof -
  have inv: "server_inv threads sz s" using assms by (rule server_reach_inv)
  then have "pool_reachable threads (jobs (loop s))" by (auto simp: server_inv_def)
  then have "order_inv (jobs (loop s))" using reachable_pool_inv by (auto simp: pool_inv_def)
  with inv show ?thesis by (auto simp: server_inv_def order_inv_def)
qed

theorem server_one_reply_witness:
  "\<exists>s :: demo_sys. length (sent s) = 1 \<and> 1 \<le> length (submitted (jobs (loop s)))"
proof -
  obtain s where s: "demo_reach s" "length (sent s) = 1" using demo_sent by force
  from server_one_reply [OF s(1)] s(2) show ?thesis by (intro exI [of _ s]) auto
qed

text \<open>C25: The server never has more database connections than the maximum given to
  \<^verbatim>\<open>initPool\<close>, and every connection is accounted for at every moment of the interleaving:
  it is idle in the pool, held by one worker between \<^verbatim>\<open>GetConnection\<close> and
  \<^verbatim>\<open>ReleaseConnection\<close>, or lost to a statement that an exception ended.\<close>

theorem server_keeps_connections:
  assumes "server_reach m ra pw threads sz s"
  shows "curSize (mpool (sworld s)) \<le> sz \<and>
         curSize (mpool (sworld s)) =
           int (length (connList (mpool (sworld s)))) +
           int (\<Sum>i < length (workers (jobs (loop s))). held (at_call s) i) + int (thrown s)"
  using server_reach_inv [OF assms] by (auto simp: server_inv_def pool_counts_def held_conns_def)

theorem server_keeps_connections_witness:
  "\<exists>s :: demo_sys. started (jobs (loop s)) = [LogTask demo_login 9] \<and>
     curSize (mpool (sworld s)) = int (length (connList (mpool (sworld s))))"
proof -
  obtain s where s: "demo_reach s" "started (jobs (loop s)) = [LogTask demo_login 9]" "thrown s = 0"
    "at_call s = (\<lambda>_. None)" "workers (jobs (loop s)) = [Ready]"
    using demo_replied by blast
  from server_keeps_connections [OF s(1)] s(2-) show ?thesis by (intro exI [of _ s]) (auto simp: held_def)
qed

text \<open>The pool of connections is never exhausted when it may hold one for each worker and no exception has
  lost any: a task that is about to take a connection gets one, unless the database itself
  refuses to open it.\<close>

lemma server_connections_suffice:
  assumes "server_reach m ra pw threads sz s" and "int threads \<le> sz" and "thrown s = 0"
    and "at_call s i = Some (Query fmt args k) \<or> at_call s i = Some (Insert fmt args k')"
    and "CreateConnection m (mdb (sworld s)) = (Some conn, db)"
  shows "fst (GetConnection m (mpool (sworld s)) (mdb (sworld s))) \<noteq> None"
proof -
  have inv: "server_inv threads sz s" using assms(1) by (rule server_reach_inv)
  then have i: "i < length (workers (jobs (loop s)))" using assms(4) by (auto simp: server_inv_def calls_ok_def)
  have "held (at_call s) i = 0" using assms(4) by (auto simp: held_def)
  from connection_available [OF inv assms(2,3) i this assms(5)] show ?thesis .
qed

lemma server_connections_suffice_example:
  "\<exists>(s :: demo_sys) k. at_call s 0 = Some (Query sql_login [ArgS ''bob''] k) \<and> (1::nat) \<le> 2 \<and>
     fst (GetConnection demo_mysql (mpool (sworld s)) (mdb (sworld s))) \<noteq> None"
proof -
  obtain s where s: "demo_reach s" "workers (jobs (loop s)) = [Running (LogTask demo_login 9)]"
    "thrown s = 0" "at_call s = (\<lambda>_. None)"
    using demo_running by blast
  have "unat (mlen demo_login) \<le> MAX_TRANS_MSG_LEN" using demo_login_fields(4) by (simp add: max_len_defs)
  then obtain k where p: "task_prog demo_mysql (LogTask demo_login 9) = Query sql_login [ArgS ''bob''] k"
    using demo_login_fields(1) by (simp add: login_prog_def read_prog_def)
  let ?s = "s\<lparr>at_call := (at_call s)(0 \<mapsto> task_prog demo_mysql (LogTask demo_login 9))\<rparr>"
  have r: "demo_reach ?s"
    by (rule server_reach.step [OF s(1) server_step.begins]) (simp_all add: s(2,4))
  have "fst (GetConnection demo_mysql (mpool (sworld ?s)) (mdb (sworld ?s))) \<noteq> None"
    by (rule server_connections_suffice [OF r, where i = 0 and k = k and conn = 0 and db = "mdb (sworld ?s)"])
       (use s(3) p in \<open>simp_all add: CreateConnection_def demo_mysql_def\<close>)
  then show ?thesis using p by (intro exI [of _ ?s] exI [of _ k]) simp
qed

declare server_run.simps [simp] call_step.simps [simp]

end
