(* ===== verification/ServerLive.thy ===== *)
theory ServerLive
  imports ServerSystem
begin

text \<open>
  The server without new input: what its threads do on their own account, spurious wake-ups
  of \<open>condition.wait\<close> left out. Every such step lowers a weight, so the server settles: it
  takes the queued tasks, runs them, sends the replies, and goes to sleep. A worker whose task
  comes to an undefined behaviour stays where it is.
\<close>

section \<open>The server's own work\<close>

definition pool_serve :: "'task pool \<Rightarrow> 'task pool \<Rightarrow> bool" where
  "pool_serve p p' \<longleftrightarrow> pool_work p p' \<and> worker_move p p'"

inductive server_work ::
  "('c, 'db, 'row) mysql \<Rightarrow> ('x, 'rd) redis \<Rightarrow> string \<Rightarrow>
   ('c, 'db, 'row, 'x, 'rd) ServerSys \<Rightarrow> ('c, 'db, 'row, 'x, 'rd) ServerSys \<Rightarrow> bool" for m ra pw where
  serve: "pool_serve (jobs (loop s)) p \<Longrightarrow> server_work m ra pw s (s\<lparr>loop := (loop s)\<lparr>jobs := p\<rparr>\<rparr>)"
| begins: "i < length (workers (jobs (loop s))) \<Longrightarrow> workers (jobs (loop s)) ! i = Running t \<Longrightarrow>
     at_call s i = None \<Longrightarrow>
     server_work m ra pw s (s\<lparr>at_call := (at_call s)(i \<mapsto> task_prog m t)\<rparr>)"
| calls: "at_call s i = Some q \<Longrightarrow> (t \<longrightarrow> overlapped s i q) \<Longrightarrow> client_for s i q t n c \<Longrightarrow>
     call_step m ra pw q ((sworld s)\<lparr>rclient := c\<rparr>) = Some (Inr (q', w)) \<Longrightarrow>
     client_left s t n (rclient w) c' \<Longrightarrow>
     server_work m ra pw s
       (s\<lparr>sworld := w\<lparr>rclient := c'\<rparr>, at_call := (at_call s)(i \<mapsto> q'),
          thrown := thrown s + (if call_throws m q (mdb (sworld s)) then 1 else 0), torn := torn s \<or> t\<rparr>)"
| ends: "at_call s i = Some (Finish e) \<Longrightarrow>
     server_work m ra pw s
       (s\<lparr>loop := (loop s)\<lparr>jobs := worker_done i (jobs (loop s))\<rparr>, at_call := (at_call s)(i := None)\<rparr>)"
| send: "ssender_at s = Waiting \<Longrightarrow> buff (sseq (sworld s)) = obj # q \<Longrightarrow>
     x \<noteq> Broken \<Longrightarrow> server_run [x] [obj] = (ps, e, r) \<Longrightarrow>
     server_work m ra pw s
       (s\<lparr>sworld := (sworld s)\<lparr>sseq := (sseq (sworld s))\<lparr>buff := q\<rparr>\<rparr>, ssender_at := e,
          sent := sent s @ ps\<rparr>)"

declare server_run.simps [simp del] call_step.simps [simp del]

inductive_cases server_workE: "server_work m ra pw s s'"

lemmas server_work_cases = server_workE [consumes 1, case_names serve begins calls ends send]

lemma server_work_step: "server_work m ra pw s s' \<Longrightarrow> server_step m ra pw s s'"
proof (induction rule: server_work.induct)
  case (serve s p)
  then show ?case by (simp add: pool_serve_def server_step.worker_moves)
qed (rule server_step.intros; assumption)+

lemma server_work_call:
  assumes "at_call s i = Some q" and "call_step m ra pw q (sworld s) = Some (Inr (q', w))"
  shows "server_work m ra pw s
     (s\<lparr>sworld := w, at_call := (at_call s)(i \<mapsto> q'),
        thrown := thrown s + (if call_throws m q (mdb (sworld s)) then 1 else 0)\<rparr>)"
proof -
  have "call_step m ra pw q ((sworld s)\<lparr>rclient := rclient (sworld s)\<rparr>) = Some (Inr (q', w))"
    using assms(2) by simp
  from server_work.calls [OF assms(1) _ client_alone(1) this client_alone(2), where t = False] show ?thesis by simp
qed

lemma call_step_none: "call_step m ra pw q w = None \<Longrightarrow> \<exists>e. q = Finish e"
  by (cases q) (simp_all add: call_step.simps)

lemma pool_serve_cases:
  assumes "pool_serve p p'"
  obtains (woken) i n where "notifs p = Suc n" "i < length (workers p)" "workers p ! i = Asleep"
      "p' = p\<lparr>notifs := n, workers := (workers p)[i := Ready]\<rparr>"
  | (nobody) n where "notifs p = Suc n" "p' = p\<lparr>notifs := n\<rparr>"
  | (looks) i where "i < length (workers p)" "workers p ! i = Ready" "p' = worker_look i p"
proof -
  have work: "pool_work p p'" and keeps: "dtor_at p' = dtor_at p"
    "\<And>i t. i < length (workers p) \<Longrightarrow> workers p ! i = Running t \<Longrightarrow> workers p' ! i = Running t"
    using assms by (auto simp: pool_serve_def worker_move_def)
  show ?thesis
    using work unfolding pool_work_def
  proof (elim disjE exE conjE)
    fix i t assume "i < length (workers p)" "workers p ! i = Running t" "p' = p\<lparr>workers := (workers p)[i := Ready]\<rparr>"
    with keeps(2) [of i t] show ?thesis by simp
  qed (use keeps(1) woken nobody looks in auto)
qed

lemma pool_serve_intros:
  "notifs p = Suc n \<Longrightarrow> i < length (workers p) \<Longrightarrow> workers p ! i = Asleep \<Longrightarrow>
     pool_serve p (p\<lparr>notifs := n, workers := (workers p)[i := Ready]\<rparr>)"
  "i < length (workers p) \<Longrightarrow> workers p ! i = Ready \<Longrightarrow> pool_serve p (worker_look i p)"
proof -
  assume "notifs p = Suc n" "i < length (workers p)" "workers p ! i = Asleep"
  moreover from this have "pool_step p (p\<lparr>notifs := n, workers := (workers p)[i := Ready]\<rparr>)" by (rule pool_step.notify)
  ultimately show "pool_serve p (p\<lparr>notifs := n, workers := (workers p)[i := Ready]\<rparr>)"
    by (auto simp: pool_serve_def pool_work_def worker_move_def nth_list_update)
next
  assume i: "i < length (workers p)" "workers p ! i = Ready"
  then have "pool_step p (worker_look i p)" by (rule pool_step.look)
  with i show "pool_serve p (worker_look i p)"
    by (auto simp: pool_serve_def pool_work_def worker_move_def worker_look_def nth_list_update split: list.split)
qed

section \<open>A weight\<close>

definition calls_left :: "('c, 'row) prog \<Rightarrow> nat" where
  "calls_left q = (LEAST n. calls_le q n)"

definition job_weight :: "ServerTask pool \<Rightarrow> (nat \<Rightarrow> ('c, 'row) prog option) \<Rightarrow> nat \<Rightarrow> nat" where
  "job_weight p c i =
     (case workers p ! i of
        Returned \<Rightarrow> 0 | Asleep \<Rightarrow> 1 | Ready \<Rightarrow> 2
      | Running t \<Rightarrow> (case c i of None \<Rightarrow> 24 | Some q \<Rightarrow> 3 + 2 * calls_left q))"

definition server_weight :: "('c, 'db, 'row, 'x, 'rd) ServerSys \<Rightarrow> nat" where
  "server_weight s =
     (let p = jobs (loop s)
      in 24 * length (tasks p) + 2 * notifs p + (\<Sum>i < length (workers p). job_weight p (at_call s) i) +
         length (buff (sseq (sworld s))))"

definition calls_bounded :: "(nat \<Rightarrow> ('c, 'row) prog option) \<Rightarrow> bool" where
  "calls_bounded c \<longleftrightarrow> (\<forall>i q. c i = Some q \<longrightarrow> calls_le q 10)"

lemma calls_left_le: "calls_le q n \<Longrightarrow> calls_left q \<le> n"
  unfolding calls_left_def by (rule Least_le)

lemma calls_left_step:
  assumes "call_step m ra pw q w = Some (Inr (q', w'))" and "calls_le q n"
  shows "calls_left q' < calls_left q" "calls_le q' n"
proof -
  have c: "calls_le q (calls_left q)" unfolding calls_left_def using assms(2) by (rule LeastI)
  have "calls_left q \<noteq> 0"
  proof
    assume "calls_left q = 0"
    with c have "calls_le q 0" by simp
    with assms(1) show False by (cases q) (simp_all add: call_step.simps)
  qed
  then obtain k where k: "calls_left q = Suc k" by (cases "calls_left q") auto
  with c have "calls_le q (Suc k)" by simp
  from call_step_decreases [OF assms(1) this] have l: "calls_le q' k" .
  with k show "calls_left q' < calls_left q" using calls_left_le [OF l] by simp
  have "k \<le> n" using calls_left_le [OF assms(2)] k by simp
  with l show "calls_le q' n" by (rule calls_le_mono)
qed

lemma server_step_bounded:
  assumes "server_step m ra pw s s'" and "calls_bounded (at_call s)"
  shows "calls_bounded (at_call s')"
  using assms(1)
proof (cases rule: server_step_cases)
  case (begins i t)
  then show ?thesis using assms(2) by (simp add: calls_bounded_def calls_le_task)
next
  case (calls i q t n c q' w c')
  have "calls_le q 10" using assms(2) calls(2) by (simp add: calls_bounded_def)
  from calls_left_step(2) [OF calls(5) this] show ?thesis using assms(2) calls(1) by (simp add: calls_bounded_def)
qed (use assms(2) in \<open>simp_all add: calls_bounded_def\<close>)

lemma server_reach_bounded: "server_reach m ra pw threads sz s \<Longrightarrow> calls_bounded (at_call s)"
proof (induction rule: server_reach.induct)
  case (start p db p' db' lfd k rd)
  show ?case by (simp add: calls_bounded_def server_start_def)
next
  case (step s s')
  then show ?case by (blast intro: server_step_bounded)
qed

lemma job_weight_change:
  assumes "i < length (workers p)" and "length (workers p') = length (workers p)"
    and "\<And>j. j \<noteq> i \<Longrightarrow> workers p' ! j = workers p ! j \<and> c' j = c j"
  shows "(\<Sum>j < length (workers p'). job_weight p' c' j) + job_weight p c i =
         (\<Sum>j < length (workers p). job_weight p c j) + job_weight p' c' i"
proof -
  have "job_weight p' c' j = job_weight p c j" if "j \<noteq> i" for j
    using assms(3) [OF that] by (simp add: job_weight_def split: worker.split)
  then show ?thesis unfolding assms(2) using assms(1) by (intro sum_change)
qed

text \<open>A call lengthens the queue of replies by one at most.\<close>

lemma call_step_buff:
  "call_step m ra pw q w = Some (Inr (q', w')) \<Longrightarrow>
     \<exists>new. buff (sseq w') = buff (sseq w) @ new \<and> length new \<le> 1"
  by (cases q) (auto simp: call_step.simps reply_obj_def pushBuff_def cq_push_def
      split: option.splits prod.splits)

lemma serve_weight:
  assumes "pool_serve p p'" and ok: "calls_ok p c"
  shows "24 * length (tasks p') + 2 * notifs p' + (\<Sum>i < length (workers p'). job_weight p' c i) <
         24 * length (tasks p) + 2 * notifs p + (\<Sum>i < length (workers p). job_weight p c i)"
  using assms(1)
proof (cases rule: pool_serve_cases)
  case (woken i n)
  have "job_weight p c i = 1" "job_weight p' c i = 2" using woken by (simp_all add: job_weight_def)
  with job_weight_change [of i p p' c c] woken show ?thesis by simp
next
  case (nobody n)
  then show ?thesis by (simp add: job_weight_def)
next
  case (looks i)
  have none: "c i = None" using ok looks(2) by (cases "c i") (force simp: calls_ok_def)+
  have "job_weight p c i = 2" using looks(2) by (simp add: job_weight_def)
  moreover have "(\<Sum>j < length (workers p'). job_weight p' c j) + job_weight p c i =
      (\<Sum>j < length (workers p). job_weight p c j) + job_weight p' c i"
    by (rule job_weight_change [OF looks(1)]) (simp_all add: looks(3) worker_look_def split: list.split)
  ultimately show ?thesis
    using looks none by (cases "tasks p") (auto simp: worker_look_def job_weight_def split: if_splits)
qed

lemma server_work_weight:
  assumes reach: "server_reach m ra pw threads sz s" and "server_work m ra pw s s'"
  shows "server_weight s' < server_weight s"
proof -
  let ?p = "jobs (loop s)" and ?c = "at_call s"
  have ok: "calls_ok ?p ?c" using server_reach_inv [OF reach] by (simp add: server_inv_def)
  have running: "i < length (workers ?p) \<and> (\<exists>t. workers ?p ! i = Running t)" if "?c i = Some q" for i q
    using ok that by (force simp: calls_ok_def)
  show ?thesis
    using assms(2)
  proof (cases rule: server_work_cases)
    case (serve p)
    with serve_weight [OF serve(2) ok] show ?thesis by (simp add: server_weight_def Let_def)
  next
    case (begins i t)
    let ?c' = "?c(i \<mapsto> task_prog m t)"
    have "calls_left (task_prog m t) \<le> 10" using calls_le_task by (rule calls_left_le)
    then have "job_weight ?p ?c' i < job_weight ?p ?c i" using begins(3,4) by (simp add: job_weight_def)
    with job_weight_change [OF begins(2), of ?p ?c' ?c] begins(1) show ?thesis
      by (simp add: server_weight_def Let_def)
  next
    case (calls i q t n c q' w c')
    let ?c' = "?c(i \<mapsto> q')"
    obtain t where i: "i < length (workers ?p)" "workers ?p ! i = Running t" using running [OF calls(2)] by blast
    have "calls_le q 10" using server_reach_bounded [OF reach] calls(2) by (simp add: calls_bounded_def)
    from calls_left_step(1) [OF calls(5) this] have "job_weight ?p ?c' i + 2 \<le> job_weight ?p ?c i"
      using i(2) calls(2) by (simp add: job_weight_def)
    moreover obtain new where "buff (sseq w) = buff (sseq (sworld s)) @ new" "length new \<le> 1"
      using call_step_buff [OF calls(5)] by auto
    ultimately show ?thesis using job_weight_change [OF i(1), of ?p ?c' ?c] calls(1)
      by (simp add: server_weight_def Let_def)
  next
    case (ends i e)
    let ?p' = "worker_done i ?p" and ?c' = "?c(i := None)"
    obtain t where i: "i < length (workers ?p)" "workers ?p ! i = Running t" using running [OF ends(2)] by blast
    have "job_weight ?p' ?c' i < job_weight ?p ?c i"
      using i ends(2) by (simp add: job_weight_def worker_done_def)
    moreover have "(\<Sum>j < length (workers ?p'). job_weight ?p' ?c' j) + job_weight ?p ?c i =
        (\<Sum>j < length (workers ?p). job_weight ?p ?c j) + job_weight ?p' ?c' i"
      by (rule job_weight_change [OF i(1)]) (simp_all add: worker_done_def)
    moreover have "tasks ?p' = tasks ?p" "notifs ?p' = notifs ?p" by (simp_all add: worker_done_def)
    ultimately show ?thesis using ends(1) by (simp add: server_weight_def Let_def)
  next
    case (send obj q x ps e r)
    then show ?thesis by (simp add: server_weight_def Let_def)
  qed
qed

text \<open>From a bounded number of tasks and replies, a bounded number of steps.\<close>

lemma server_weight_le:
  assumes "server_reach m ra pw threads sz s"
  shows "server_weight s \<le> 24 * (length (tasks (jobs (loop s))) + threads) + 2 * notifs (jobs (loop s)) +
           length (buff (sseq (sworld s)))"
proof -
  let ?p = "jobs (loop s)"
  have "job_weight ?p (at_call s) i \<le> 24" for i
  proof -
    have "calls_left q \<le> 10" if "at_call s i = Some q" for q
      using server_reach_bounded [OF assms] that by (auto simp: calls_bounded_def intro: calls_left_le)
    then show ?thesis by (auto simp: job_weight_def split: worker.split option.split)
  qed
  then have "(\<Sum>i < length (workers ?p). job_weight ?p (at_call s) i) \<le> (\<Sum>i < length (workers ?p). 24)"
    by (intro sum_mono) simp
  moreover have "length (workers ?p) = threads"
    using server_reach_inv [OF assms] reachable_threads by (auto simp: server_inv_def)
  ultimately show ?thesis by (simp add: server_weight_def Let_def)
qed

section \<open>Settling\<close>

definition settling ::
  "('c, 'db, 'row) mysql \<Rightarrow> ('x, 'rd) redis \<Rightarrow> string \<Rightarrow> nat \<Rightarrow> int \<Rightarrow>
   ('c, 'db, 'row, 'x, 'rd) ServerSys \<Rightarrow> ('c, 'db, 'row, 'x, 'rd) ServerSys \<Rightarrow> bool" where
  "settling m ra pw threads sz s s' \<longleftrightarrow> server_reach m ra pw threads sz s \<and> server_work m ra pw s s'"

interpretation sw: weighted "settling m ra pw threads sz" server_weight
  by unfold_locales (auto simp: settling_def intro: server_work_weight)

lemma settling_work:
  assumes "server_reach m ra pw threads sz s" and "(server_work m ra pw ^^ n) s s'"
  shows "(settling m ra pw threads sz ^^ n) s s' \<and> server_reach m ra pw threads sz s'"
  using assms(2)
proof (induction n arbitrary: s')
  case 0
  with assms(1) show ?case by simp
next
  case (Suc n)
  then obtain q where q: "(server_work m ra pw ^^ n) s q" "server_work m ra pw q s'" by auto
  from Suc.IH [OF q(1)] q(2) show ?case
    by (auto simp: settling_def intro: server_reach.step server_work_step)
qed

lemma work_ends:
  assumes "server_reach m ra pw threads sz s"
  shows "\<exists>e. (server_work m ra pw)\<^sup>*\<^sup>* s e \<and> (\<forall>q. \<not> server_work m ra pw e q)"
proof -
  obtain e where e: "(settling m ra pw threads sz)\<^sup>*\<^sup>* s e" "\<forall>q. \<not> settling m ra pw threads sz e q"
    using sw.reaches_end by blast
  have "(server_work m ra pw)\<^sup>*\<^sup>* s e \<and> server_reach m ra pw threads sz e"
    using e(1)
  proof (induction rule: rtranclp_induct)
    case base
    with assms show ?case by simp
  next
    case (step y z)
    then show ?case
      by (auto simp: settling_def intro: rtranclp.rtrancl_into_rtrancl server_reach.step server_work_step)
  qed
  with e(2) show ?thesis by (auto simp: settling_def)
qed

text \<open>What is queued for the clients is sent, in order, before anything later.\<close>

definition outgoing :: "('c, 'db, 'row, 'x, 'rd) ServerSys \<Rightarrow> (s32 \<times> bytes) list" where
  "outgoing s = sent s @ map (\<lambda>obj. (tfd obj, obj_bytes obj)) (buff (sseq (sworld s)))"

lemma server_work_outgoing:
  assumes "server_reach m ra pw threads sz s" and "server_work m ra pw s s'"
  shows "\<exists>new. outgoing s' = outgoing s @ new"
  using assms(2)
proof (cases rule: server_work_cases)
  case (calls i q t n c q' w c')
  from call_step_buff [OF calls(5)] obtain new where "buff (sseq w) = buff (sseq (sworld s)) @ new" by auto
  then show ?thesis using calls(1) by (simp add: outgoing_def)
next
  case (send obj q x ps e r)
  have "sendable obj" using server_reach_inv [OF assms(1)] send(3) by (auto simp: server_inv_def)
  with server_run_one [OF send(4), of obj] send(5) have "ps = [(tfd obj, obj_bytes obj)]"
    by (auto simp: sendable_def)
  then show ?thesis using send(1,3) by (simp add: outgoing_def)
qed (simp_all add: outgoing_def)

lemma settled_outgoing:
  assumes "server_reach m ra pw threads sz s" and "(server_work m ra pw ^^ n) s s'"
  shows "\<exists>new. outgoing s' = outgoing s @ new"
  using assms(2)
proof (induction n arbitrary: s')
  case (Suc n)
  then obtain q where q: "(server_work m ra pw ^^ n) s q" "server_work m ra pw q s'" by auto
  from Suc.IH [OF q(1)] server_work_outgoing [OF conjunct2 [OF settling_work [OF assms(1) q(1)]] q(2)]
  show ?case by auto
qed simp

text \<open>A server with no work of its own left.\<close>

lemma no_work_settled:
  assumes reach: "server_reach m ra pw threads sz s" and idle: "\<forall>q. \<not> server_work m ra pw s q"
  shows "buff (sseq (sworld s)) = []"
    "i < threads \<Longrightarrow> workers (jobs (loop s)) ! i = Asleep \<or>
       (\<exists>q u. at_call s i = Some q \<and> call_step m ra pw q (sworld s) = Some (Inl u))"
    "Asleep \<in> set (workers (jobs (loop s))) \<Longrightarrow> started (jobs (loop s)) = submitted (jobs (loop s))"
proof -
  let ?p = "jobs (loop s)"
  have inv: "\<not> stop ?p" "pool_reachable threads ?p" "ssender_at s = Waiting"
    using server_reach_inv [OF reach] by (simp_all add: server_inv_def)
  have pool: "order_inv ?p" "wake_inv ?p" "stop_inv ?p"
    using reachable_pool_inv [OF inv(2)] by (simp_all add: pool_inv_def)
  have len: "length (workers ?p) = threads" using reachable_threads [OF inv(2)] .
  show "buff (sseq (sworld s)) = []"
  proof (cases "buff (sseq (sworld s))")
    case (Cons obj q)
    obtain ps e r where "server_run [Taken] [obj] = (ps, e, r)" by (cases "server_run [Taken] [obj]") auto
    from server_work.send [OF inv(3) Cons _ this] idle show ?thesis by blast
  qed
  have ready: "workers ?p ! i \<noteq> Ready" if "i < threads" for i
    using pool_serve_intros(2) [of i ?p] that len idle by (auto intro: server_work.serve)
  show "workers ?p ! i = Asleep \<or> (\<exists>q u. at_call s i = Some q \<and> call_step m ra pw q (sworld s) = Some (Inl u))"
    if i: "i < threads"
  proof (cases "workers ?p ! i")
    case (Running t)
    with i len idle obtain q where q: "at_call s i = Some q" by (cases "at_call s i") (auto intro: server_work.begins)
    have "q \<noteq> Finish e" for e
    proof
      assume "q = Finish e"
      with q have "at_call s i = Some (Finish e)" by simp
      from server_work.ends [OF this] idle show False by blast
    qed
    then obtain x where x: "call_step m ra pw q (sworld s) = Some x"
      using call_step_none [of m ra pw q "sworld s"] by (cases "call_step m ra pw q (sworld s)") auto
    show ?thesis
    proof (cases x)
      case (Inl u)
      with q x show ?thesis by simp
    next
      case (Inr qw)
      then obtain q' w where "call_step m ra pw q (sworld s) = Some (Inr (q', w))" using x by (cases qw) auto
      from server_work_call [OF q this] idle show ?thesis by blast
    qed
  next
    case Returned
    with i len have "Returned \<in> set (workers ?p)" by (metis nth_mem)
    with pool(3) inv(1) show ?thesis by (simp add: stop_inv_def)
  qed (use ready i in simp_all)
  show "started ?p = submitted ?p" if asleep: "Asleep \<in> set (workers ?p)"
  proof -
    obtain i where i: "i < length (workers ?p)" "workers ?p ! i = Asleep" using asleep by (auto simp: in_set_conv_nth)
    have "notifs ?p = 0"
      using pool_serve_intros(1) [OF _ i] idle by (cases "notifs ?p") (auto intro: server_work.serve)
    moreover have "ready_count ?p = 0"
      using ready len by (auto simp: ready_count_def filter_empty_conv in_set_conv_nth)
    ultimately show ?thesis using pool(1,2) asleep by (simp add: wake_inv_def order_inv_def)
  qed
qed

section \<open>Properties\<close>

text \<open>C16: The server settles. Without new events, from any reachable state and however its threads
  interleave, the server's own work ends within a number of steps given by the tasks, the
  workers and the replies that wait; it can always be carried to its end; and at the end every
  reply that waited has been sent, in order, every worker sleeps or stands at a call that is
  undefined, and unless all of them stand at one, every task ever queued has been taken.\<close>

theorem server_settles:
  assumes "server_reach m ra pw threads sz s" and "(server_work m ra pw ^^ n) s s'"
  shows "n \<le> 24 * (length (tasks (jobs (loop s))) + threads) + 2 * notifs (jobs (loop s)) +
             length (buff (sseq (sworld s))) \<and>
         (\<exists>r. (server_work m ra pw)\<^sup>*\<^sup>* s' r \<and> (\<forall>q. \<not> server_work m ra pw r q)) \<and>
         ((\<forall>q. \<not> server_work m ra pw s' q) \<longrightarrow>
            (\<exists>later. sent s' = sent s @ map (\<lambda>obj. (tfd obj, obj_bytes obj)) (buff (sseq (sworld s))) @ later) \<and>
            (\<forall>i < threads. workers (jobs (loop s')) ! i = Asleep \<or>
               (\<exists>q u. at_call s' i = Some q \<and> call_step m ra pw q (sworld s') = Some (Inl u))) \<and>
            (Asleep \<in> set (workers (jobs (loop s'))) \<longrightarrow> started (jobs (loop s')) = submitted (jobs (loop s'))))"
proof -
  have r: "(settling m ra pw threads sz ^^ n) s s'" "server_reach m ra pw threads sz s'"
    using settling_work [OF assms] by simp_all
  have "n \<le> server_weight s" using sw.steps_bounded [OF r(1)] by simp
  with server_weight_le [OF assms(1)] have bound: "n \<le> 24 * (length (tasks (jobs (loop s))) + threads) +
      2 * notifs (jobs (loop s)) + length (buff (sseq (sworld s)))" by simp
  moreover have "\<exists>r. (server_work m ra pw)\<^sup>*\<^sup>* s' r \<and> (\<forall>q. \<not> server_work m ra pw r q)"
    using work_ends [OF r(2)] .
  moreover have "\<exists>later. sent s' = sent s @ map (\<lambda>obj. (tfd obj, obj_bytes obj)) (buff (sseq (sworld s))) @ later"
    if "\<forall>q. \<not> server_work m ra pw s' q"
    using settled_outgoing [OF assms] no_work_settled(1) [OF r(2) that] by (auto simp: outgoing_def)
  ultimately show ?thesis using bound no_work_settled(2,3) [OF r(2)] by blast
qed

theorem server_settles_witness:
  "\<exists>(s :: demo_sys) r. buff (sseq (sworld s)) = [demo_login\<lparr>tid := 5, tfd := 9, msgType := 7\<rparr>] \<and>
     (server_work demo_mysql mini_redis [])\<^sup>*\<^sup>* s r \<and> (\<forall>q. \<not> server_work demo_mysql mini_redis [] r q) \<and>
     (\<exists>later. sent r = (9, obj_bytes (demo_login\<lparr>tid := 5, tfd := 9, msgType := 7\<rparr>)) # later)"
proof -
  let ?obj = "demo_login\<lparr>tid := 5, tfd := 9, msgType := 7\<rparr>" and ?work = "server_work demo_mysql mini_redis []"
  obtain s where s: "demo_reach s" "sent s = []" "buff (sseq (sworld s)) = [?obj]"
    using demo_replied by blast
  have "(?work ^^ 0) s s" by simp
  from server_settles [OF s(1) this] obtain r where r: "?work\<^sup>*\<^sup>* s r" "\<forall>q. \<not> ?work r q" by blast
  then obtain n where "(?work ^^ n) s r" by (auto dest: rtranclp_imp_relpowp)
  from server_settles [OF s(1) this] r(2)
  have "\<exists>later. sent r = sent s @ map (\<lambda>obj. (tfd obj, obj_bytes obj)) (buff (sseq (sworld s))) @ later" by blast
  with s(2,3) have "\<exists>later. sent r = (9, obj_bytes ?obj) # later" by simp
  with s(3) r show ?thesis by blast
qed

declare server_run.simps [simp] call_step.simps [simp]

end
