(* ===== verification/ServerMain.thy ===== *)
theory ServerMain
  imports ServerSystem
begin

text \<open>
  How the server starts: \<open>main\<close> and \<open>serverInit\<close> of \<^verbatim>\<open>tests/serverTest.cpp\<close>.
  \<open>serverInit\<close> gives the first two workers of the thread pool to the logger and the sender,
  for good. When the registry cannot be read it returns before it starts anything, and
  \<open>main\<close>, which does not look at its result, runs the event loop nevertheless.
\<close>

section \<open>The start\<close>

text \<open>
  \<open>lfd\<close> is the listening socket that the constructor of \<open>ServerHandler\<close> opens. A sender that
  no worker runs is as one that has quit.
\<close>

definition serverInit ::
  "('c, 'db, 'row) mysql \<Rightarrow> ('x, 'rd) redis \<Rightarrow> string \<Rightarrow> nat \<Rightarrow> int \<Rightarrow> s32 \<Rightarrow>
   'db \<Rightarrow> 'x KGRedisClient \<Rightarrow> 'rd \<Rightarrow> ('c, 'db, 'row, 'x, 'rd) ServerSys res" where
  "serverInit m ra pw threadPoolSize mysqlPoolSize lfd db k rd =
     bind_res (com_init ra pw k rd)
       (\<lambda>((succ, d), k1, rd1).
          let unset = \<lparr>connList = [], curSize = 0, maxSize = 0\<rparr>
          in if \<not> succ then Inr ((server_start 0 lfd unset db k1 rd1)\<lparr>ssender_at := Quit\<rparr>)
             else (let (p, db1) = initPool m mysqlPoolSize unset db;
                       s = server_start (threadPoolSize - 2) lfd p db1 k1 rd1
                   in Inr (if 2 \<le> threadPoolSize then s else s\<lparr>ssender_at := Quit\<rparr>)))"

text \<open>\<open>main\<close> asks for six workers and four connections.\<close>

definition server_main ::
  "('c, 'db, 'row) mysql \<Rightarrow> ('x, 'rd) redis \<Rightarrow> string \<Rightarrow> s32 \<Rightarrow>
   'db \<Rightarrow> 'x KGRedisClient \<Rightarrow> 'rd \<Rightarrow> ('c, 'db, 'row, 'x, 'rd) ServerSys res" where
  "server_main m ra pw lfd db k rd = serverInit m ra pw 6 4 lfd db k rd"

section \<open>A start that works\<close>

lemma serverInit_reach:
  assumes "com_init ra pw k rd = Inr ((True, d), k1, rd1)" and "2 \<le> threadPoolSize" and "0 \<le> mysqlPoolSize"
  shows "\<exists>s. serverInit m ra pw threadPoolSize mysqlPoolSize lfd db k rd = Inr s \<and>
             server_reach m ra pw (threadPoolSize - 2) mysqlPoolSize s"
proof -
  obtain p db1 where p: "initPool m mysqlPoolSize \<lparr>connList = [], curSize = 0, maxSize = 0\<rparr> db = (p, db1)"
    by (cases "initPool m mysqlPoolSize \<lparr>connList = [], curSize = 0, maxSize = 0\<rparr> db") auto
  from server_reach.start [OF _ assms(3) p] show ?thesis using assms p by (simp add: serverInit_def Let_def)
qed

section \<open>A login that arrives\<close>

lemma login_arrives:
  assumes l: "loop s = ServerHandler_new 3 \<lparr>handlers_map = (\<lambda>_. None), epoll = (\<lambda>_. None), written = [], jobs = p\<rparr>"
    and p: "\<not> stop p"
  shows "\<exists>l'. (server_step m ra pw)\<^sup>*\<^sup>* s (s\<lparr>loop := l'\<rparr>) \<and>
           jobs l' = p\<lparr>tasks := tasks p @ [LogTask demo_login 9], submitted := submitted p @ [LogTask demo_login 9],
                      notifs := Suc (notifs p)\<rparr> \<and>
           (\<exists>h. handlers_map l' 9 = Some (Some (Echo h)) \<and> length (ebuffer h) = BUFFER_SIZE)"
proof -
  let ?step = "server_step m ra pw"
  let ?p = "p\<lparr>tasks := tasks p @ [LogTask demo_login 9], submitted := submitted p @ [LogTask demo_login 9],
      notifs := Suc (notifs p)\<rparr>"
  let ?e = "\<lparr>ev_fd = 3, ev_flags = EPOLLIN, ev_rcv = Inl 0, ev_client = 9, ev_fresh = demo_fresh\<rparr>"
  define l1 where "l1 = addHandler 9 (Some (Echo (EchoHandler_new demo_fresh))) EPOLLIN (loop s)"
  have e: "event_ok (loop s) ?e" "dispatch_event ?e (loop s) = Inr (Inr (0, l1))"
    by (simp_all add: l event_ok_def epoll_flags dispatch_event_def ServerHandler_handle_def
        ServerHandler_new_def addHandler_def demo_fresh_def l1_def)
  have l1: "handlers_map l1 9 = Some (Some (Echo (EchoHandler_new demo_fresh)))" "epoll l1 9 \<noteq> None" "jobs l1 = p"
    by (simp_all add: l1_def addHandler_def l ServerHandler_new_def)
  let ?e2 = "\<lparr>ev_fd = 9, ev_flags = EPOLLIN, ev_rcv = Inr (packet demo_login), ev_client = -1,
      ev_fresh = replicate BUFFER_SIZE NUL\<rparr>"
  have sh: "server_handle (Some (demo_login\<lparr>mlen := 0\<rparr>)) 9 (jobs l1) = Inr ?p"
    using p unfolding l1(3) by (simp add: demo_login_handled enqueue_def)
  have "length (ebuffer (EchoHandler_new demo_fresh)) = BUFFER_SIZE"
    by (simp add: EchoHandler_new_def demo_fresh_def)
  from echo_packet [OF demo_login_fields(3) l1(1) this sh, of ?e2] obtain l2 where
    l2: "dispatch_event ?e2 l1 = Inr (Inr (0, l2))" "jobs l2 = ?p"
    "\<exists>h. handlers_map l2 9 = Some (Some (Echo h)) \<and> length (ebuffer h) = BUFFER_SIZE" by auto
  have "event_ok l1 ?e2"
    using length_packet [OF demo_login_fields(3)] l1(2) by (auto simp: event_ok_def epoll_flags BUFFER_SIZE_def)
  then have "?step (s\<lparr>loop := l1\<rparr>) (s\<lparr>loop := l1\<rparr>\<lparr>loop := l2\<rparr>)"
    using l2(1) by (intro server_step.event [where e = ?e2 and n = 0]) simp_all
  with server_step.event [OF e, of m ra pw] have "?step\<^sup>*\<^sup>* s (s\<lparr>loop := l2\<rparr>)"
    by (simp add: rtranclp.rtrancl_into_rtrancl [OF r_into_rtranclp])
  with l2(2,3) show ?thesis by blast
qed

end
