(* ===== verification/ServerServes.thy ===== *)
theory ServerServes
  imports ServerLive ServerMain
begin

text \<open>
  The server under good conditions. When MySQL and Redis answer as documented and the messages
  are sound, no worker comes to an undefined behaviour, however their calls interleave in
  the one Redis client they share, as long as no use of its command buffer overlaps another
  worker's writing of it (\<open>torn\<close>): the server that \<open>main\<close> starts takes every task to its end.
  Each condition excludes one of the program's faults: a message without a terminating null, a
  name with a percent sign or a quote, a null result set.
\<close>

section \<open>Good conditions\<close>

text \<open>A name that can stand between the quotes of a statement, which is not cut then.\<close>

definition sql_word :: "string \<Rightarrow> bool" where
  "sql_word s \<longleftrightarrow> length s < 24 \<and> CHR 0x27 \<notin> set s \<and> CHR 0x5C \<notin> set s"

text \<open>The queries of the tasks.\<close>

definition query_ok :: "string \<Rightarrow> fmt_arg list \<Rightarrow> bool" where
  "query_ok fmt args \<longleftrightarrow>
     (fmt \<in> {sql_password, sql_login, sql_userid} \<and> (\<exists>name. args = [ArgS name] \<and> sql_word name)) \<or>
     fmt = sql_max \<and> args = []"

text \<open>The database can be reached, and \<open>executeQuery\<close> gives a result set for a proper query.\<close>

definition db_answers :: "('c, 'db, 'row) mysql \<Rightarrow> bool" where
  "db_answers m \<longleftrightarrow>
     (\<forall>db. fst (CreateConnection m db) \<noteq> None) \<and> (\<forall>conn db. prepare m conn db) \<and>
     (\<forall>conn db fmt args cmd. query_ok fmt args \<longrightarrow> sql_text fmt args = Inr cmd \<longrightarrow>
        executeQuery m conn cmd db \<noteq> None)"

text \<open>
  A connection to Redis that cannot be made is an error context, not a null pointer; Redis replies
  to the commands of the tasks, and never with an array.
\<close>

definition redis_answers :: "('x, 'rd) redis \<Rightarrow> bool" where
  "redis_answers ra \<longleftrightarrow>
     (\<forall>rd. fst (ctx_connect ra rd) \<noteq> CtxNull) \<and>
     (\<forall>op (c0 :: 'x KGRedisClient) c x rd. redis_format op c0 = Inr c \<longrightarrow>
        (\<exists>r rd'. redis_command ra x (cstr (cmdBuf c)) rd = (Some r, rd') \<and> (\<forall>es. r \<noteq> RArray es)))"

text \<open>The message of a task ends inside its array, and its name can be formatted.\<close>

fun good_task :: "ServerTask \<Rightarrow> bool" where
  "good_task (RegTask obj fd) \<longleftrightarrow> NUL \<in> set (drop 24 (msg obj)) \<and> sql_word (cstr (msg obj))"
| "good_task (LogTask obj fd) \<longleftrightarrow>
     NUL \<in> set (drop 24 (msg obj)) \<and> sql_word (cstr (msg obj)) \<and> percent_free (cstr (msg obj))"
| "good_task (AskFriendTask obj fd) \<longleftrightarrow> NUL \<in> set (msg obj) \<and> sql_word (cstr (msg obj))"
| "good_task _ \<longleftrightarrow> True"

section \<open>Programs that stay defined\<close>

fun op_ok :: "redis_op \<Rightarrow> bool" where
  "op_ok (OpHMset r h kvs) \<longleftrightarrow> cformat (cstr (hmset_text h kvs)) [] \<noteq> None"
| "op_ok _ \<longleftrightarrow> True"

primrec safe :: "('c, 'row) prog \<Rightarrow> bool" where
  "safe (Finish e) \<longleftrightarrow> True"
| "safe (Undefined u) \<longleftrightarrow> False"
| "safe (Query fmt args k) \<longleftrightarrow> query_ok fmt args \<and> (\<forall>r. r \<noteq> Ret None \<longrightarrow> \<not> at_send (k r) \<and> safe (k r))"
| "safe (QueryOn conn fmt args k) \<longleftrightarrow> query_ok fmt args \<and> (\<forall>r. r \<noteq> Ret None \<longrightarrow> \<not> at_send (k r) \<and> safe (k r))"
| "safe (Insert fmt args k) \<longleftrightarrow> cformat fmt args \<noteq> None \<and> (\<forall>r. \<not> at_send (k r) \<and> safe (k r))"
| "safe (InsertOn conn fmt args k) \<longleftrightarrow> cformat fmt args \<noteq> None \<and> (\<forall>r. \<not> at_send (k r) \<and> safe (k r))"
| "safe (Release conn q) \<longleftrightarrow> \<not> at_send q \<and> safe q"
| "safe (Redis op k) \<longleftrightarrow> op_ok op \<and> (\<forall>r. (fst r \<longrightarrow> snd r \<noteq> []) \<longrightarrow> \<not> at_send (k r) \<and> safe (k r))"
| "safe (RedisSend op k) \<longleftrightarrow> (\<forall>r. (fst r \<longrightarrow> snd r \<noteq> []) \<longrightarrow> \<not> at_send (k r) \<and> safe (k r))"
| "safe (Reply obj q) \<longleftrightarrow> \<not> at_send q \<and> safe q"

lemma percent_free_append [simp]: "percent_free (a @ b) \<longleftrightarrow> percent_free a \<and> percent_free b"
  by (simp add: percent_free_def)

lemma percent_free_Cons [simp]: "percent_free (c # a) \<longleftrightarrow> c \<noteq> CHR ''%'' \<and> percent_free a"
  by (auto simp: percent_free_def)

lemma percent_free_Nil [simp]: "percent_free []"
  by (simp add: percent_free_def)

lemma percent_free_cstr: "percent_free s \<Longrightarrow> percent_free (cstr s)"
  unfolding percent_free_def cstr_def by (meson set_takeWhileD)

lemma session_op_ok:
  assumes "percent_free name"
  shows "op_ok (OpHMset r (to_string (sint i)) [(''name'', name), (''fd'', to_string (sint fd))])"
proof -
  have "percent_free (hmset_text (to_string (sint i)) [(''name'', name), (''fd'', to_string (sint fd))])"
    using assms by (simp add: hmset_text_def to_string_clean(2))
  then show ?thesis by (simp add: cformat_plain [OF percent_free_cstr])
qed

lemma query_text:
  assumes "query_ok fmt args"
  shows "\<exists>cmd. sql_text fmt args = Inr cmd"
proof -
  have "cformat fmt args \<noteq> None"
    using assms by (auto simp: query_ok_def sql_password_def sql_login_def sql_userid_def sql_max_def)
  then show ?thesis by (auto simp: sql_text_def snprintf_def)
qed

lemma message_reads:
  assumes "NUL \<in> set (drop 24 (msg obj))"
  shows "getName obj = Inr (cstr (msg obj))" "\<exists>p. getPasswd obj = Inr p"
proof -
  have "NUL \<in> set (msg obj)" using assms by (rule in_set_dropD)
  then show "getName obj = Inr (cstr (msg obj))" by (simp add: getName_def read_cstr_def)
  show "\<exists>p. getPasswd obj = Inr p" using assms by (simp add: getPasswd_def read_cstr_def NAME_MAX_LEN_def)
qed

lemma safe_online:
  "(\<And>b. \<not> at_send (q b) \<and> safe (q b)) \<Longrightarrow> safe (online_prog i q)" "\<not> at_send (online_prog i q)"
  by (auto simp: online_prog_def split_beta)

lemma safe_fd:
  "(\<And>f. \<not> at_send (q f) \<and> safe (q f)) \<Longrightarrow> safe (fd_prog i q)" "\<not> at_send (fd_prog i q)"
  by (auto simp: fd_prog_def split: list.split)

lemma safe_name:
  "(\<And>n. \<not> at_send (q n) \<and> safe (q n)) \<Longrightarrow> safe (name_prog i q)" "\<not> at_send (name_prog i q)"
  by (auto simp: name_prog_def split: list.split)

lemma safe_add:
  "percent_free name \<Longrightarrow> (\<And>b. \<not> at_send (q b) \<and> safe (q b)) \<Longrightarrow> safe (add_prog i name fd q)"
  "\<not> at_send (add_prog i name fd q)"
  by (auto simp: add_prog_def Let_def split_beta session_op_ok simp del: op_ok.simps(1))

lemma safe_remove: "(\<And>b. \<not> at_send (q b) \<and> safe (q b)) \<Longrightarrow> safe (remove_prog i q)"
  by (auto simp: remove_prog_def split_beta)

text \<open>A safe program that does not stand before the second half of a command.\<close>

definition calm :: "('c, 'row) prog \<Rightarrow> bool" where
  "calm q \<longleftrightarrow> \<not> at_send q \<and> safe q"

lemma calm_intros:
  "(\<And>b. calm (q b)) \<Longrightarrow> calm (online_prog i q)"
  "(\<And>f. calm (q2 f)) \<Longrightarrow> calm (fd_prog i q2)"
  "(\<And>n. calm (q3 n)) \<Longrightarrow> calm (name_prog i q3)"
  "calm q4 \<Longrightarrow> calm q5 \<Longrightarrow> calm (if c then q4 else q5)"
  "calm (Finish e)"
  by (simp_all add: calm_def safe_online safe_fd safe_name)

lemma safe_refuse: "safe (refuse_prog t obj)" "\<not> at_send (refuse_prog t obj)"
  by (simp_all add: refuse_prog_def)

lemma safe_accept: "safe (accept_login_prog obj)" "\<not> at_send (accept_login_prog obj)"
  by (simp_all add: accept_login_prog_def)

lemma not_at_send_task: "\<not> at_send (task_prog m t)"
  by (cases t) (auto simp: task_prog_defs Let_def read_prog_def split: sum.split)

lemma query_ok_name: "fmt \<in> {sql_password, sql_login, sql_userid} \<Longrightarrow> sql_word name \<Longrightarrow> query_ok fmt [ArgS name]"
  by (simp add: query_ok_def)

lemma safe_login:
  assumes "good_task (LogTask obj fd)"
  shows "safe (login_prog m obj fd)"
proof -
  let ?name = "cstr (msg obj)"
  obtain p where r: "getName obj = Inr ?name" "getPasswd obj = Inr p" using assms message_reads [of obj] by auto
  have q: "query_ok sql_login [ArgS ?name]" "percent_free ?name" using assms by (simp_all add: query_ok_def)
  show ?thesis
    by (auto simp: login_prog_def r read_prog_def q safe_refuse safe_accept safe_add Let_def
        split: call.split option.split list.split)
qed

lemma safe_reg_finish: "safe (reg_finish_prog m obj)" "\<not> at_send (reg_finish_prog m obj)"
  by (auto simp: reg_finish_prog_def query_ok_def split: call.split option.split list.split)

lemma safe_reg:
  assumes "good_task (RegTask obj fd)"
  shows "safe (reg_prog m obj fd)"
proof -
  let ?obj = "setFd fd obj"
  have m: "msg ?obj = msg obj" by (simp add: setFd_def)
  obtain p where r: "getName ?obj = Inr (cstr (msg obj))" "getPasswd ?obj = Inr p"
    using assms message_reads [of ?obj] m by auto
  have q: "query_ok sql_password [ArgS (cstr (msg obj))]" using assms by (simp add: query_ok_def)
  have i: "cformat sql_insert [ArgS n, ArgD d, ArgS p] \<noteq> None" for n d p by (simp add: sql_insert_def)
  show ?thesis
    by (auto simp: reg_prog_def r read_prog_def q i safe_reg_finish Let_def simp del: not_None_eq
        split: call.split option.split list.split bool.split)
qed

lemma safe_ask:
  assumes "good_task (AskFriendTask obj fd)"
  shows "safe (ask_prog m obj fd)"
proof -
  have r: "read_cstr (msg obj) = Inr (cstr (msg obj))" using assms by (simp add: read_cstr_def)
  have q: "query_ok sql_userid [ArgS (cstr (msg obj))]" using assms by (simp add: query_ok_def)
  have "safe (ask_deliver_prog obj1) \<and> \<not> at_send (ask_deliver_prog obj1)" for obj1
    by (simp add: ask_deliver_prog_def safe_online safe_fd)
  then show ?thesis
    by (auto simp: ask_prog_def r read_prog_def q split: call.split option.split list.split)
qed

lemma calm_accept: "calm (accept_prog obj)"
  unfolding accept_prog_def Let_def
proof (intro calm_intros)
  fix n f
  show "calm (case n of None \<Rightarrow> Reply (setFd f obj) (Finish (Done 1)) | Some name \<Rightarrow>
      if NAME_MAX_LEN \<le> length name then Finish (Done (-1))
      else Reply (snd (setMsg name (setFd f obj))) (Finish (Done 1)))"
    by (simp add: calm_def split: option.split)
qed

lemma safe_task: "good_task t \<Longrightarrow> safe (task_prog m t)"
proof (cases t)
  case (AcceptFriendTask obj)
  then show ?thesis by (simp add: calm_accept [unfolded calm_def])
next
  case (SendMsgTask obj)
  then show ?thesis by (simp add: send_prog_def safe_online)
next
  case (LogOutTask obj)
  then show ?thesis by (simp add: logout_prog_def safe_remove)
qed (simp_all add: safe_login safe_reg safe_ask del: good_task.simps)

section \<open>Calls under good conditions\<close>

text \<open>The shared buffer holds a command of some task, whose it may be.\<close>

definition command_ready :: "'x KGRedisClient \<Rightarrow> bool" where
  "command_ready k \<longleftrightarrow> (\<exists>op (c0 :: 'x KGRedisClient) c. redis_format op c0 = Inr c \<and> cmdBuf k = cmdBuf c)"

lemma decode_scalar:
  "\<forall>es. r \<noteq> RArray es \<Longrightarrow> \<exists>b out. decode_reply r = Inr (b, out) \<and> out \<noteq> []"
  by (cases r) (auto intro: exI [of _ True] exI [of _ False])

text \<open>A cluster client keeps its kind and, when it has one, a context.\<close>

definition keeps_client :: "'x KGRedisClient \<Rightarrow> 'x KGRedisClient \<Rightarrow> bool" where
  "keeps_client k k' \<longleftrightarrow> conType k' = REDIS_CON_CLUSTER_TYPE \<and> (m_clusterClients k \<noteq> [] \<longrightarrow> m_clusterClients k' \<noteq> [])"

lemma send_answered:
  assumes "redis_answers ra" and "conType k = REDIS_CON_CLUSTER_TYPE" and "command_ready k"
  shows "\<exists>b resp k' rd'. ExecuteCmd_send ra pw response k rd = Inr (b, resp, k', rd') \<and>
           keeps_client k k' \<and> cmdBuf k' = cmdBuf k \<and> (b \<longrightarrow> resp \<noteq> [])"
proof -
  have context_made: "fst (ctx_connect ra u) \<noteq> CtxNull" for u using assms(1) by (simp add: redis_answers_def)
  have answer: "\<exists>b out rd'. (let (rep, rd2) = redis_command ra ctx (cstr (cmdBuf k)) rd1
        in finish_cmd rep response (ReleaseClusterContext (Some ctx) (rep \<noteq> None) k1) rd2) =
      Inr (b, response @ out, k1\<lparr>m_clusterClients := m_clusterClients k1 @ [ctx]\<rparr>, rd') \<and> out \<noteq> []" for ctx rd1 k1
  proof -
    obtain r rd' where r: "redis_command ra ctx (cstr (cmdBuf k)) rd1 = (Some r, rd')" "\<forall>es. r \<noteq> RArray es"
      using assms(1,3) unfolding redis_answers_def command_ready_def by metis
    obtain b out where "decode_reply r = Inr (b, out)" "out \<noteq> []" using decode_scalar [OF r(2)] by blast
    with r(1) show ?thesis by (simp add: finish_cmd_def ReleaseClusterContext_def)
  qed
  consider ctx rest where "m_clusterClients k = ctx # rest" | (empty) "m_clusterClients k = []"
    by (cases "m_clusterClients k") auto
  then show ?thesis
  proof cases
    case (1 ctx rest)
    obtain b out rd' where "(let (rep, rd2) = redis_command ra ctx (cstr (cmdBuf k)) rd
        in finish_cmd rep response (ReleaseClusterContext (Some ctx) (rep \<noteq> None) (k\<lparr>m_clusterClients := rest\<rparr>)) rd2) =
      Inr (b, response @ out, k\<lparr>m_clusterClients := rest @ [ctx]\<rparr>, rd')" "out \<noteq> []"
      using answer [of ctx rd "k\<lparr>m_clusterClients := rest\<rparr>"] by auto
    with 1 assms(2) show ?thesis
      by (simp add: ExecuteCmd_send_def CreateClusterContext_def keeps_client_def
          REDIS_CON_NORMAL_TYPE_def REDIS_CON_CLUSTER_TYPE_def)
  next
    case empty
    note sends = ExecuteCmd_send_def CreateClusterContext_def keeps_client_def
      REDIS_CON_NORMAL_TYPE_def REDIS_CON_CLUSTER_TYPE_def
    show ?thesis
    proof (cases "time_now ra rd < m_beginInvalidTime k + m_maxReconnectInterval")
      case True
      with empty assms(2) show ?thesis by (auto simp: sends)
    next
      case late: False
      obtain x rd1 where x: "ctx_connect ra rd = (x, rd1)" by force
      show ?thesis
      proof (cases x)
        case (CtxOk ctx)
        obtain b out rd' where "(let (rep, rd2) = redis_command ra ctx (cstr (cmdBuf k)) rd1
            in finish_cmd rep response (ReleaseClusterContext (Some ctx) (rep \<noteq> None) k) rd2) =
          Inr (b, response @ out, k\<lparr>m_clusterClients := m_clusterClients k @ [ctx]\<rparr>, rd')" "out \<noteq> []"
          using answer [of ctx rd1 k] by auto
        with empty assms(2) late x CtxOk show ?thesis by (simp add: sends)
      qed (use empty assms(2) late x context_made [of rd] in \<open>auto simp: sends\<close>)
    qed
  qed
qed

lemma redis_send_answered:
  assumes "redis_answers ra" and "conType k = REDIS_CON_CLUSTER_TYPE" and "command_ready k"
  shows "\<exists>b resp k' rd'. redis_send ra pw op k rd = Inr (b, resp, k', rd') \<and>
           keeps_client k k' \<and> cmdBuf k' = cmdBuf k \<and> (b \<longrightarrow> resp \<noteq> [])"
proof (cases op)
  case (OpScontain r s v)
  obtain b resp k' rd' where "ExecuteCmd_send ra pw r k rd = Inr (b, resp, k', rd')" "keeps_client k k'"
    "cmdBuf k' = cmdBuf k" "b \<longrightarrow> resp \<noteq> []"
    using send_answered [OF assms, of pw r rd] by blast
  then show ?thesis
    by (cases resp; cases b) (auto simp: OpScontain scontain_result_def intro: exI [of _ False])
qed (use send_answered [OF assms] in simp_all)

lemma format_ready:
  assumes "op_ok op" and "conType k = REDIS_CON_CLUSTER_TYPE"
  shows "\<exists>k'. redis_format op k = Inr k' \<and> keeps_client k k' \<and> command_ready k'"
proof -
  have "\<exists>buf. redis_format op k = Inr (k\<lparr>cmdBuf := buf\<rparr>)"
    using assms(1) by (cases op) (auto simp: ExecuteCmd_format_buffer snprintf_def)
  then obtain buf where b: "redis_format op k = Inr (k\<lparr>cmdBuf := buf\<rparr>)" by blast
  then have "command_ready (k\<lparr>cmdBuf := buf\<rparr>)" unfolding command_ready_def by blast
  with b assms(2) show ?thesis by (simp add: keeps_client_def)
qed

text \<open>
  A call of a safe program succeeds and leaves a safe program, when a connection to the
  database is to be had.
\<close>

definition conn_ready :: "('c, 'db, 'row) mysql \<Rightarrow> ('c, 'row) prog \<Rightarrow> ('c, 'db, 'x, 'rd) ServerWorld \<Rightarrow> bool" where
  "conn_ready m q w \<longleftrightarrow>
     (case q of Query fmt args k \<Rightarrow> fst (GetConnection m (mpool w) (mdb w)) \<noteq> None
      | Insert fmt args k \<Rightarrow> fst (GetConnection m (mpool w) (mdb w)) \<noteq> None
      | _ \<Rightarrow> True)"

lemma safe_call:
  assumes db: "db_answers m" and redis: "redis_answers ra" and q: "safe q" "\<forall>e. q \<noteq> Finish e"
    and w: "conType (rclient w) = REDIS_CON_CLUSTER_TYPE" "at_send q \<Longrightarrow> command_ready (rclient w)" "conn_ready m q w"
  shows "\<exists>q' w'. call_step m ra pw q w = Some (Inr (q', w')) \<and> safe q' \<and> keeps_client (rclient w) (rclient w') \<and>
           (command_ready (rclient w) \<longrightarrow> command_ready (rclient w')) \<and>
           (at_send q' \<longrightarrow> command_ready (rclient w')) \<and> \<not> call_throws m q (mdb w)"
proof -
  have refl: "keeps_client (rclient w) (rclient w)" using w(1) by (simp add: keeps_client_def)
  show ?thesis
proof (cases q)
  case (Query fmt args k)
  obtain c p db1 where "GetConnection m (mpool w) (mdb w) = (Some c, p, db1)"
    using w(3) Query by (cases "GetConnection m (mpool w) (mdb w)") (auto simp: conn_ready_def)
  with Query q refl show ?thesis by (simp add: call_step.simps call_throws_def)
next
  case (QueryOn conn fmt args k)
  have "query_ok fmt args" using q(1) QueryOn by simp
  from query_text [OF this] obtain cmd where cmd: "sql_text fmt args = Inr cmd" by blast
  then obtain rows where "executeQuery m conn cmd (mdb w) = Some rows"
    using db q(1) QueryOn by (fastforce simp: db_answers_def)
  with QueryOn q refl db cmd show ?thesis
    by (simp add: call_step.simps query_on_def call_throws_def db_answers_def)
next
  case (Insert fmt args k)
  obtain c p db1 where "GetConnection m (mpool w) (mdb w) = (Some c, p, db1)"
    using w(3) Insert by (cases "GetConnection m (mpool w) (mdb w)") (auto simp: conn_ready_def)
  with Insert q refl show ?thesis by (simp add: call_step.simps call_throws_def)
next
  case (InsertOn conn fmt args k)
  obtain cmd where "sql_text fmt args = Inr cmd" using q(1) InsertOn by (auto simp: sql_text_def snprintf_def)
  with InsertOn q refl db show ?thesis
    by (simp add: call_step.simps insert_on_def call_throws_def db_answers_def split_beta Let_def)
next
  case (Redis op k)
  obtain k' where "redis_format op (rclient w) = Inr k'" "keeps_client (rclient w) k'" "command_ready k'"
    using format_ready [of op, OF _ w(1)] q(1) Redis by (metis safe.simps(8))
  with Redis q(1) show ?thesis by (simp add: call_step.simps call_throws_def)
next
  case (RedisSend op k)
  obtain b resp k' rd' where r: "redis_send ra pw op (rclient w) (rworld w) = Inr (b, resp, k', rd')"
    "keeps_client (rclient w) k'" "cmdBuf k' = cmdBuf (rclient w)" "b \<longrightarrow> resp \<noteq> []"
    using redis_send_answered [OF redis w(1), of pw op "rworld w"] w(2) RedisSend by auto
  then have "command_ready k'" using w(2) RedisSend by (simp add: command_ready_def)
  with RedisSend q(1) r show ?thesis by (simp add: call_step.simps call_throws_def)
next
  case (Release conn q1)
  with q refl show ?thesis by (simp add: call_step.simps call_throws_def)
next
  case (Reply obj q1)
  with q refl show ?thesis by (simp add: call_step.simps call_throws_def reply_obj_def)
qed (use q in simp_all)
qed

section \<open>The whole server\<close>

definition serving :: "('c, 'db, 'row, 'x, 'rd) ServerSys \<Rightarrow> bool" where
  "serving s \<longleftrightarrow> thrown s = 0 \<and> connected (rclient (sworld s)) \<and>
     (\<forall>t. Running t \<in> set (workers (jobs (loop s))) \<longrightarrow> t \<in> set (started (jobs (loop s)))) \<and>
     (\<forall>i q. at_call s i = Some q \<longrightarrow> safe q \<and> (at_send q \<longrightarrow> command_ready (rclient (sworld s))))"

text \<open>The client as a call finds it and leaves it, when nobody's use of the buffer overlaps.\<close>

lemma client_for_alone:
  assumes "client_for s i q False n c" and "connected (rclient (sworld s))"
  shows "conType c = REDIS_CON_CLUSTER_TYPE" "cmdBuf c = cmdBuf (rclient (sworld s))"
    "n = 0 \<Longrightarrow> m_clusterClients c \<noteq> []"
  using assms by (auto simp: client_for_def without_contexts_def connected_def)

lemma client_left_alone:
  assumes "client_left s False n k c'" and "client_for s i q False n c" and "connected (rclient (sworld s))"
    and "keeps_client c k"
  shows "connected c'" "cmdBuf c' = cmdBuf k"
  using assms client_for_alone [OF assms(2,3)]
  by (cases n; auto simp: client_left_def with_contexts_def connected_def keeps_client_def)+

lemma serving_call:
  assumes reach: "server_reach m ra pw threads sz s" and size: "int threads \<le> sz" and inv: "serving s"
    and env: "db_answers m" "redis_answers ra" and q: "at_call s i = Some q" "\<forall>e. q \<noteq> Finish e"
    and client: "client_for s i q False n c"
  shows "\<exists>q' w'. call_step m ra pw q ((sworld s)\<lparr>rclient := c\<rparr>) = Some (Inr (q', w')) \<and> safe q' \<and>
           keeps_client c (rclient w') \<and>
           (command_ready (rclient (sworld s)) \<longrightarrow> command_ready (rclient w')) \<and>
           (at_send q' \<longrightarrow> command_ready (rclient w')) \<and> \<not> call_throws m q (mdb (sworld s))"
proof -
  let ?w = "(sworld s)\<lparr>rclient := c\<rparr>"
  have up: "connected (rclient (sworld s))" using inv by (simp add: serving_def)
  note alone = client_for_alone [OF client up]
  have ready: "command_ready (rclient ?w) = command_ready (rclient (sworld s))" by (simp add: command_ready_def alone(2))
  have s: "server_inv threads sz s" using reach by (rule server_reach_inv)
  then have i: "i < length (workers (jobs (loop s)))" using q(1) by (auto simp: server_inv_def calls_ok_def)
  have conn: "fst (GetConnection m (mpool (sworld s)) (mdb (sworld s))) \<noteq> None" if "holds q = 0"
  proof -
    obtain c db where "CreateConnection m (mdb (sworld s)) = (Some c, db)"
      using env(1) unfolding db_answers_def by (metis not_None_eq prod.collapse)
    moreover have "held (at_call s) i = 0" using q(1) that by (simp add: held_def)
    ultimately show ?thesis using connection_available [OF s size _ i] inv by (simp add: serving_def)
  qed
  have "\<exists>q' w'. call_step m ra pw q ?w = Some (Inr (q', w')) \<and> safe q' \<and> keeps_client (rclient ?w) (rclient w') \<and>
           (command_ready (rclient ?w) \<longrightarrow> command_ready (rclient w')) \<and>
           (at_send q' \<longrightarrow> command_ready (rclient w')) \<and> \<not> call_throws m q (mdb ?w)"
  proof (rule safe_call [OF env _ q(2)])
    show "safe q" using inv q(1) by (auto simp: serving_def)
    show "conType (rclient ?w) = REDIS_CON_CLUSTER_TYPE" using alone(1) by simp
    show "command_ready (rclient ?w)" if "at_send q" using inv q(1) that ready by (auto simp: serving_def)
    show "conn_ready m q ?w" using conn by (cases q) (simp_all add: conn_ready_def)
  qed
  then show ?thesis using ready by simp
qed

lemma accepts_fields:
  "accepts p p' \<Longrightarrow> workers p' = workers p \<and> started p' = started p \<and> set (submitted p) \<subseteq> set (submitted p')"
  by (auto simp: accepts_def enqueue_def split: if_splits)

lemma submitted_grows:
  assumes "server_reach m ra pw threads sz s" and "server_step m ra pw s s'"
  shows "set (submitted (jobs (loop s))) \<subseteq> set (submitted (jobs (loop s')))"
  using assms(2)
proof (cases rule: server_step_cases)
  case (event e n l)
  have "loop_ok (loop s)" using server_reach_inv [OF assms(1)] by (simp add: server_inv_def)
  then have "accepts (jobs (loop s)) (jobs l)" using event dispatch_event_accepts by blast
  from accepts_fields [OF this] show ?thesis using event(1) by simp
qed (auto simp: worker_move_def worker_done_def)

lemma running_started:
  assumes "worker_move p p'" and "\<forall>t. Running t \<in> set (workers p) \<longrightarrow> t \<in> set (started p)"
  shows "\<forall>t. Running t \<in> set (workers p') \<longrightarrow> t \<in> set (started p')"
  using assms(1)
  by (rule worker_move_cases)
     (use assms(2) in \<open>auto simp: worker_look_def split: list.splits if_splits dest: set_update_cases\<close>)

lemma serving_step:
  assumes reach: "server_reach m ra pw threads sz s" and size: "int threads \<le> sz" and inv: "serving s"
    and env: "db_answers m" "redis_answers ra" and step: "server_step m ra pw s s'"
    and good: "\<forall>t \<in> set (submitted (jobs (loop s))). good_task t" and whole: "\<not> torn s'"
  shows "serving s'"
  using step
proof (cases rule: server_step_cases)
  case (event e n l)
  have "loop_ok (loop s)" using server_reach_inv [OF reach] by (simp add: server_inv_def)
  then have "accepts (jobs (loop s)) (jobs l)" using event dispatch_event_accepts by blast
  from accepts_fields [OF this] inv event(1) show ?thesis by (simp add: serving_def)
next
  case (worker_moves p)
  with inv running_started [OF worker_moves(2)] show ?thesis by (simp add: serving_def)
next
  case (begins i t)
  have "Running t \<in> set (workers (jobs (loop s)))" using begins(2,3) nth_mem by metis
  then have "t \<in> set (started (jobs (loop s)))" using inv by (simp add: serving_def)
  moreover have "order_inv (jobs (loop s))"
    using server_reach_inv [OF reach] reachable_pool_inv by (auto simp: server_inv_def pool_inv_def)
  ultimately have "good_task t" using good by (simp add: order_inv_def)
  from safe_task [OF this, of m] not_at_send_task [of m t] inv begins(1) show ?thesis by (simp add: serving_def)
next
  case (calls i q t n c q' w c')
  have t: "\<not> t" using whole calls(1) by simp
  have "\<forall>e. q \<noteq> Finish e" using calls(5) by (auto simp: call_step.simps)
  moreover have c: "client_for s i q False n c" using calls(4) t by simp
  ultimately have w: "safe q'" "keeps_client c (rclient w)" "\<not> call_throws m q (mdb (sworld s))"
    "command_ready (rclient (sworld s)) \<longrightarrow> command_ready (rclient w)" "at_send q' \<longrightarrow> command_ready (rclient w)"
    using serving_call [OF reach size inv env calls(2)] calls(5) by fastforce+
  have "client_left s False n (rclient w) c'" "connected (rclient (sworld s))"
    using calls(6) t inv by (simp_all add: serving_def)
  note left = client_left_alone [OF this(1) c this(2) w(2)]
  have "command_ready c' = command_ready (rclient w)" by (simp add: command_ready_def left(2))
  with w left(1) inv calls(1) show ?thesis by (auto simp: serving_def)
next
  case (ends i e)
  with inv show ?thesis by (auto simp: serving_def worker_done_def dest: set_update_cases)
next
  case (send obj q x ps e r)
  with inv show ?thesis by (simp add: serving_def)
qed

lemma torn_step: "server_step m ra pw s s' \<Longrightarrow> torn s \<Longrightarrow> torn s'"
  by (induction rule: server_step.induct) simp_all

lemma serving_steps:
  assumes "(server_step m ra pw)\<^sup>*\<^sup>* s s'" and "server_reach m ra pw threads sz s" and "serving s"
    and "int threads \<le> sz" and "db_answers m" "redis_answers ra"
    and "\<forall>t \<in> set (submitted (jobs (loop s'))). good_task t" and "\<not> torn s'"
  shows "server_reach m ra pw threads sz s' \<and> serving s'"
  using assms(1,7,8)
proof (induction rule: rtranclp_induct)
  case base
  with assms(2,3) show ?case by simp
next
  case (step y z)
  have "server_reach m ra pw threads sz y"
    using step.hyps(1) assms(2) by (induction rule: rtranclp_induct) (auto intro: server_reach.step)
  from submitted_grows [OF this step.hyps(2)] torn_step [OF step.hyps(2)] step
  have y: "server_reach m ra pw threads sz y \<and> serving y"
    "\<forall>t \<in> set (submitted (jobs (loop y))). good_task t" by auto
  with serving_step [OF _ assms(4) _ assms(5,6) step.hyps(2)] step.hyps(2) step.prems(2) show ?case
    by (blast intro: server_reach.step)
qed

text \<open>A successful start leaves the context it used in the client's pool.\<close>

lemma com_init_connected:
  assumes "com_init ra pw k rd = Inr ((True, d), k1, rd1)" and "conType k = REDIS_CON_CLUSTER_TYPE"
  shows "connected k1"
proof -
  obtain response rd2 where "ExecHgetAll ra pw [] ''userHash'' k rd = Inr (True, response, k1, rd2)"
    using assms(1) by (auto simp: com_init_def flushAllUserHashData_def split: if_splits)
  then obtain buf where buf: "ExecuteCmd_send ra pw [] (k\<lparr>cmdBuf := buf\<rparr>) rd = Inr (True, response, k1, rd2)"
    by (auto simp: ExecHgetAll_def ExecuteCmd_spop_def ExecuteCmd_format_buffer)
  define k0 where "k0 = k\<lparr>cmdBuf := buf\<rparr>"
  have k0: "conType k0 = REDIS_CON_CLUSTER_TYPE" "ExecuteCmd_send ra pw [] k0 rd = Inr (True, response, k1, rd2)"
    using assms(2) buf by (simp_all add: k0_def)
  show ?thesis
  proof (cases "CreateClusterContext ra k0 rd")
    case (Inr r)
    obtain c k2 rd3 where r: "r = (c, k2, rd3)" by (cases r) auto
    have "conType k2 = REDIS_CON_CLUSTER_TYPE" using CreateClusterContext_pool [of ra k0 rd c k2 rd3] Inr r k0(1) by simp
    with k0 Inr r show ?thesis
      by (auto simp: ExecuteCmd_send_def REDIS_CON_NORMAL_TYPE_def REDIS_CON_CLUSTER_TYPE_def finish_cmd_def
          ReleaseClusterContext_def connected_def split: option.splits prod.splits)
  qed (use k0 in \<open>simp add: ExecuteCmd_send_def REDIS_CON_NORMAL_TYPE_def REDIS_CON_CLUSTER_TYPE_def\<close>)
qed

lemma main_start:
  assumes "com_init ra pw k rd = Inr ((True, d), k1, rd1)"
  shows "\<exists>p db1. server_main m ra pw lfd db k rd = Inr (server_start 4 lfd p db1 k1 rd1)"
  using assms by (cases "initPool m 4 \<lparr>connList = [], curSize = 0, maxSize = 0\<rparr> db")
    (auto simp: server_main_def serverInit_def Let_def)

lemma main_serving:
  assumes "server_main m ra pw lfd db k rd = Inr s" and init: "com_init ra pw k rd = Inr ((True, d), k1, rd1)"
    and "conType k = REDIS_CON_CLUSTER_TYPE"
  shows "server_reach m ra pw 4 4 s \<and> serving s"
proof -
  have "server_reach m ra pw 4 4 s"
    using serverInit_reach [OF init, of 6 4 m lfd db] assms(1) by (auto simp: server_main_def)
  moreover obtain p db1 where "s = server_start 4 lfd p db1 k1 rd1"
    using assms(1) main_start [OF init, of m lfd db] by auto
  then have "serving s"
    using com_init_connected [OF init assms(3)]
    by (simp add: serving_def server_start_def ServerHandler_new_def addHandler_def pool_init_def)
  ultimately show ?thesis ..
qed

text \<open>The end of the server's own work, under good conditions.\<close>

lemma server_work_steps:
  "(server_work m ra pw)\<^sup>*\<^sup>* s s' \<Longrightarrow> (server_step m ra pw)\<^sup>*\<^sup>* s s' \<and>
     submitted (jobs (loop s')) = submitted (jobs (loop s))"
proof (induction rule: rtranclp_induct)
  case (step y z)
  from step.hyps(2) have "submitted (jobs (loop z)) = submitted (jobs (loop y))"
    by (cases rule: server_work_cases) (auto simp: pool_serve_def worker_move_def worker_done_def)
  with step server_work_step [OF step.hyps(2)] show ?case by (auto intro: rtranclp.rtrancl_into_rtrancl)
qed simp

lemma served_end:
  assumes reach: "server_reach m ra pw threads sz s" and size: "int threads \<le> sz" "0 < threads"
    and inv: "serving s" and env: "db_answers m" "redis_answers ra" and idle: "\<forall>q. \<not> server_work m ra pw s q"
  shows "(\<forall>i < threads. workers (jobs (loop s)) ! i = Asleep) \<and> started (jobs (loop s)) = submitted (jobs (loop s)) \<and>
         at_call s = (\<lambda>_. None) \<and> buff (sseq (sworld s)) = []"
proof -
  let ?p = "jobs (loop s)"
  have s: "calls_ok ?p (at_call s)" "length (workers ?p) = threads"
    using server_reach_inv [OF reach] reachable_threads by (auto simp: server_inv_def)
  have "call_step m ra pw q (sworld s) \<noteq> Some (Inl u)" if "at_call s i = Some q" for i q u
  proof (cases "\<exists>e. q = Finish e")
    case False
    then show ?thesis using serving_call [OF reach size(1) inv env that _ client_alone(1)] by auto
  qed (auto simp: call_step.simps)
  then have asleep: "workers ?p ! i = Asleep" if "i < threads" for i
    using no_work_settled(2) [OF reach idle that] by blast
  have "at_call s i = None" for i using s asleep by (cases "at_call s i") (force simp: calls_ok_def)+
  moreover have "Asleep \<in> set (workers ?p)" using asleep [OF size(2)] s(2) size(2) nth_mem by metis
  ultimately show ?thesis using asleep no_work_settled(1,3) [OF reach idle] by blast
qed

text \<open>The server's own work can be carried to its end without any overlap at the buffer.\<close>

lemma whole_work:
  assumes reach: "server_reach m ra pw threads sz s" and size: "int threads \<le> sz" and inv: "serving s"
    and env: "db_answers m" "redis_answers ra" and work: "server_work m ra pw s r" and whole: "\<not> torn s"
  shows "\<exists>r. server_work m ra pw s r \<and> \<not> torn r"
  using work
proof (cases rule: server_work_cases)
  case (calls i q t n c q' w c')
  have "\<forall>e. q \<noteq> Finish e" using calls(5) by (auto simp: call_step.simps)
  from serving_call [OF reach size inv env calls(2) this client_alone(1)]
  obtain q2 w2 where "call_step m ra pw q (sworld s) = Some (Inr (q2, w2))" by auto
  from server_work_call [OF calls(2) this] whole show ?thesis by fastforce
qed (use work whole in force)+

lemma whole_end:
  assumes "server_reach m ra pw threads sz s" and "int threads \<le> sz" and "serving s"
    and "db_answers m" "redis_answers ra" and "\<not> torn s" and "\<forall>t \<in> set (submitted (jobs (loop s))). good_task t"
  shows "\<exists>e. (server_work m ra pw)\<^sup>*\<^sup>* s e \<and> \<not> torn e \<and> (\<forall>q. \<not> server_work m ra pw e q)"
  using assms
proof (induction "server_weight s" arbitrary: s rule: less_induct)
  case less
  note env = less.prems(4,5)
  show ?case
  proof (cases "\<exists>r. server_work m ra pw s r")
    case False
    with less.prems(6) show ?thesis by blast
  next
    case True
    then obtain r where r: "server_work m ra pw s r" "\<not> torn r"
      using whole_work [OF less.prems(1-3) env _ less.prems(6)] by blast
    have step: "(server_step m ra pw)\<^sup>*\<^sup>* s r" "submitted (jobs (loop r)) = submitted (jobs (loop s))"
      using server_work_steps [OF r_into_rtranclp [where r = "server_work m ra pw", OF r(1)]] by simp_all
    have "server_reach m ra pw threads sz r \<and> serving r"
      using serving_steps [OF step(1) less.prems(1,3,2) env _ r(2)] less.prems(7) step(2) by simp
    with less.hyps [OF server_work_weight [OF less.prems(1) r(1)] _ less.prems(2) _ env r(2)] less.prems(7) step(2)
    obtain e where "(server_work m ra pw)\<^sup>*\<^sup>* r e" "\<not> torn e" "\<forall>q. \<not> server_work m ra pw e q" by auto
    with converse_rtranclp_into_rtranclp [where r = "server_work m ra pw", OF r(1)] show ?thesis by blast
  qed
qed

section \<open>Properties\<close>

text \<open>C7: The server serves. Started by \<^verbatim>\<open>main\<close> with a registry that can be read, over a database and a
  Redis that answer as documented, as long as the messages received are sound and no worker's use of
  the shared command buffer has overlapped another's writing of it: no worker stands at a call that
  is undefined, however events, workers and sender interleave otherwise, whichever command the buffer
  holds and whichever contexts the other workers have taken; and whenever no more events come the
  server's own work can be carried to its end without such an overlap, and wherever it ends without
  one every task ever queued was taken and has ended, every reply was handed to \<^verbatim>\<open>send\<close>, and all
  four workers sleep. No send in these runs meets a connection that its peer has reset.\<close>

theorem server_serves:
  assumes "server_main m ra pw lfd db k rd = Inr s0" and "com_init ra pw k rd = Inr ((True, d), k1, rd1)"
    and "conType k = REDIS_CON_CLUSTER_TYPE" and "db_answers m" "redis_answers ra"
    and "(server_step m ra pw)\<^sup>*\<^sup>* s0 s" and "\<forall>t \<in> set (submitted (jobs (loop s))). good_task t"
    and "\<not> torn s"
  shows "(\<forall>i q n c u. at_call s i = Some q \<longrightarrow> client_for s i q False n c \<longrightarrow>
            call_step m ra pw q ((sworld s)\<lparr>rclient := c\<rparr>) \<noteq> Some (Inl u)) \<and>
         (\<exists>e. (server_work m ra pw)\<^sup>*\<^sup>* s e \<and> \<not> torn e \<and> (\<forall>q. \<not> server_work m ra pw e q)) \<and>
         (\<forall>e. (server_work m ra pw)\<^sup>*\<^sup>* s e \<longrightarrow> \<not> torn e \<longrightarrow> (\<forall>q. \<not> server_work m ra pw e q) \<longrightarrow>
            (\<forall>i < 4. workers (jobs (loop e)) ! i = Asleep) \<and>
            started (jobs (loop e)) = submitted (jobs (loop s)) \<and> at_call e = (\<lambda>_. None) \<and>
            (\<exists>later. sent e = sent s @ map (\<lambda>obj. (tfd obj, obj_bytes obj)) (buff (sseq (sworld s))) @ later))"
proof -
  have s0: "server_reach m ra pw 4 4 s0" "serving s0" using main_serving [OF assms(1-3)] by simp_all
  have s: "server_reach m ra pw 4 4 s" "serving s"
    using serving_steps [OF assms(6) s0 _ assms(4,5,7,8)] by simp_all
  have "call_step m ra pw q ((sworld s)\<lparr>rclient := c\<rparr>) \<noteq> Some (Inl u)"
    if "at_call s i = Some q" "client_for s i q False n c" for i q n c u
  proof (cases "\<exists>e. q = Finish e")
    case False
    then show ?thesis using serving_call [OF s(1) _ s(2) assms(4,5) that(1) _ that(2)] by auto
  qed (auto simp: call_step.simps)
  moreover have "\<exists>e. (server_work m ra pw)\<^sup>*\<^sup>* s e \<and> \<not> torn e \<and> (\<forall>q. \<not> server_work m ra pw e q)"
    using whole_end [OF s(1) _ s(2) assms(4,5,8,7)] by simp
  moreover have "(\<forall>i < 4. workers (jobs (loop e)) ! i = Asleep) \<and>
      started (jobs (loop e)) = submitted (jobs (loop s)) \<and> at_call e = (\<lambda>_. None) \<and>
      (\<exists>later. sent e = sent s @ map (\<lambda>obj. (tfd obj, obj_bytes obj)) (buff (sseq (sworld s))) @ later)"
    if e: "(server_work m ra pw)\<^sup>*\<^sup>* s e" "\<not> torn e" "\<forall>q. \<not> server_work m ra pw e q" for e
  proof -
    have w: "(server_step m ra pw)\<^sup>*\<^sup>* s e" "submitted (jobs (loop e)) = submitted (jobs (loop s))"
      using server_work_steps [OF e(1)] by simp_all
    then have r: "server_reach m ra pw 4 4 e" "serving e"
      using serving_steps [OF w(1) s _ assms(4,5) _ e(2)] assms(7) by simp_all
    obtain n where "(server_work m ra pw ^^ n) s e" using e(1) by (auto dest: rtranclp_imp_relpowp)
    from settled_outgoing [OF s(1) this] served_end [OF r(1) _ _ r(2) assms(4,5) e(3)] w(2)
    show ?thesis by (auto simp: outgoing_def)
  qed
  ultimately show ?thesis by blast
qed

text \<open>A Redis with an empty user table, and a login.\<close>

definition served_redis :: "(nat, redis_abs) redis" where
  "served_redis = mini_redis\<lparr>redis_command :=
     (\<lambda>x cmd A. if take 5 cmd = ''hgetA'' then (Some (RArray []), A) else mini_command x cmd A)\<rparr>"

lemma mini_scalar: "\<exists>r A'. mini_command x cmd A = (Some r, A') \<and> (\<forall>es. r \<noteq> RArray es)"
  by (simp add: mini_command_def split: list.split option.split)

lemma cstr_Cons: "cstr (c # s) = (if NUL = c then [] else c # cstr s)"
  by (auto simp: cstr_def)

lemma command_head:
  assumes "redis_format op c0 = Inr c"
  shows "take 5 (cstr (cmdBuf c)) \<noteq> ''hgetA''"
  using assms
  by (cases op) (auto simp: ExecuteCmd_format_buffer snprintf_def cstr_Cons hmset_text_def split: option.splits)

lemma served_answers: "redis_answers served_redis"
  unfolding redis_answers_def served_redis_def using command_head mini_scalar by (auto simp: mini_redis_def)

lemma served_init: "\<exists>d k1. com_init served_redis [] mini_client mini_empty = Inr ((True, d), k1, mini_empty)"
  by (simp add: com_init_def flushAllUserHashData_def ExecHgetAll_def ExecuteCmd_spop_def ExecuteCmd_format_buffer
      ExecuteCmd_send_def CreateClusterContext_def served_redis_def mini_client_def snprintf_def finish_cmd_def
      REDIS_CON_NORMAL_TYPE_def REDIS_CON_CLUSTER_TYPE_def cstr_Cons)

lemma demo_answers: "db_answers demo_mysql"
  by (simp add: db_answers_def demo_mysql_def CreateConnection_def)

lemma demo_login_good: "good_task (LogTask demo_login fd)"
  using demo_login_fields(1,2)
  by (auto simp: getName_def getPasswd_def read_cstr_def NAME_MAX_LEN_def sql_word_def percent_free_def split: if_splits)

theorem server_serves_witness:
  "\<exists>(s0 :: demo_sys) s e. server_main demo_mysql served_redis [] 3 demo_rows mini_client mini_empty = Inr s0 \<and>
     (server_step demo_mysql served_redis [])\<^sup>*\<^sup>* s0 s \<and> tasks (jobs (loop s)) = [LogTask demo_login 9] \<and>
     (server_work demo_mysql served_redis [])\<^sup>*\<^sup>* s e \<and>
     started (jobs (loop e)) = [LogTask demo_login 9] \<and> at_call e = (\<lambda>_. None)"
proof -
  obtain d k1 where i: "com_init served_redis [] mini_client mini_empty = Inr ((True, d), k1, mini_empty)"
    using served_init by blast
  have ct: "conType mini_client = REDIS_CON_CLUSTER_TYPE" by (simp add: mini_client_def)
  obtain s0 :: demo_sys where s0: "server_main demo_mysql served_redis [] 3 demo_rows mini_client mini_empty = Inr s0"
    and whole: "\<not> torn s0" and l: "loop s0 = ServerHandler_new 3
      \<lparr>handlers_map = (\<lambda>_. None), epoll = (\<lambda>_. None), written = [], jobs = pool_init 4\<rparr>"
    using main_start [OF i, of demo_mysql 3 demo_rows] by (auto simp: server_start_def)
  obtain l' where s: "(server_step demo_mysql served_redis [])\<^sup>*\<^sup>* s0 (s0\<lparr>loop := l'\<rparr>)"
    and j: "submitted (jobs l') = [LogTask demo_login 9]" "tasks (jobs l') = [LogTask demo_login 9]"
    using login_arrives [OF l, of demo_mysql served_redis "[]"] by (auto simp: pool_init_def)
  let ?s = "s0\<lparr>loop := l'\<rparr>"
  have "\<forall>t \<in> set (submitted (jobs (loop ?s))). good_task t" using j(1) demo_login_good by (simp del: good_task.simps)
  note serves = server_serves [OF s0 i ct demo_answers served_answers s this]
  then obtain e where e: "(server_work demo_mysql served_redis [])\<^sup>*\<^sup>* ?s e" "\<not> torn e"
    "\<forall>q. \<not> server_work demo_mysql served_redis [] e q" using whole by auto
  with serves whole have "started (jobs (loop e)) = submitted (jobs (loop ?s)) \<and> at_call e = (\<lambda>_. None)" by auto
  with s0 s j e(1) show ?thesis by (intro exI [of _ s0] exI [of _ ?s] exI [of _ e]) simp
qed

declare server_run.simps [simp] call_step.simps [simp]

end
