(* ===== verification/Sessions.thy ===== *)
theory Sessions
  imports ServerServes
begin

text \<open>
  Sessions in the running server. The dispatch table has no entry for the logout message, and a
  connection that closes only loses its handler: no worker of the server ever removes a session.
\<close>

section \<open>Programs that remove no session\<close>

fun removes :: "redis_op \<Rightarrow> bool" where
  "removes (OpSremove r s v) \<longleftrightarrow> True"
| "removes (OpDel r key) \<longleftrightarrow> True"
| "removes _ \<longleftrightarrow> False"

primrec keeps_sessions :: "('c, 'row) prog \<Rightarrow> bool" where
  "keeps_sessions (Finish e) \<longleftrightarrow> True"
| "keeps_sessions (Undefined u) \<longleftrightarrow> True"
| "keeps_sessions (Query fmt args k) \<longleftrightarrow> (\<forall>r. keeps_sessions (k r))"
| "keeps_sessions (QueryOn conn fmt args k) \<longleftrightarrow> (\<forall>r. keeps_sessions (k r))"
| "keeps_sessions (Insert fmt args k) \<longleftrightarrow> (\<forall>r. keeps_sessions (k r))"
| "keeps_sessions (InsertOn conn fmt args k) \<longleftrightarrow> (\<forall>r. keeps_sessions (k r))"
| "keeps_sessions (Release conn q) \<longleftrightarrow> keeps_sessions q"
| "keeps_sessions (Redis op k) \<longleftrightarrow> \<not> removes op \<and> (\<forall>r. keeps_sessions (k r))"
| "keeps_sessions (RedisSend op k) \<longleftrightarrow> \<not> removes op \<and> (\<forall>r. keeps_sessions (k r))"
| "keeps_sessions (Reply obj q) \<longleftrightarrow> keeps_sessions q"

lemma keeps_read: "(\<And>x. keeps_sessions (q x)) \<Longrightarrow> keeps_sessions (read_prog r q)"
  by (simp add: read_prog_def split: sum.split)

lemma keeps_task: "\<forall>ob. t \<noteq> LogOutTask ob \<Longrightarrow> keeps_sessions (task_prog m t)"
  by (cases t)
     (auto simp: task_prog_defs Let_def intro!: keeps_read
       split: call.split option.split list.split bool.split)

lemma keeps_step:
  "call_step m ra pw q w = Some (Inr (q', w')) \<Longrightarrow> keeps_sessions q \<Longrightarrow> keeps_sessions q'"
  by (cases q) (auto simp: call_case_if split: option.splits prod.splits if_splits)

section \<open>Invariant\<close>

definition sessions_inv :: "('c, 'db, 'row, 'x, 'rd) ServerSys \<Rightarrow> bool" where
  "sessions_inv s \<longleftrightarrow>
     (\<forall>ob. LogOutTask ob \<notin> set (submitted (jobs (loop s)))) \<and>
     (\<forall>t. Running t \<in> set (workers (jobs (loop s))) \<longrightarrow> t \<in> set (started (jobs (loop s)))) \<and>
     (\<forall>i q. at_call s i = Some q \<longrightarrow> keeps_sessions q)"

lemma accepts_sessions:
  "accepts p p' \<Longrightarrow> \<forall>ob. LogOutTask ob \<notin> set (submitted p) \<Longrightarrow> \<forall>ob. LogOutTask ob \<notin> set (submitted p')"
  by (auto simp: accepts_def enqueue_def split: if_splits)

lemma server_step_sessions:
  assumes reach: "server_reach m ra pw threads sz s" and "server_step m ra pw s s'" and inv: "sessions_inv s"
  shows "sessions_inv s'"
  using assms(2)
proof (cases rule: server_step_cases)
  case (event e n l)
  have "loop_ok (loop s)" using server_reach_inv [OF reach] by (simp add: server_inv_def)
  then have a: "accepts (jobs (loop s)) (jobs l)" using event dispatch_event_accepts by blast
  from accepts_fields [OF a] accepts_sessions [OF a] inv event(1) show ?thesis by (simp add: sessions_inv_def)
next
  case (worker_moves p)
  from running_started [OF worker_moves(2)] inv have
    "\<forall>t. Running t \<in> set (workers p) \<longrightarrow> t \<in> set (started p)" by (simp add: sessions_inv_def)
  moreover have "submitted p = submitted (jobs (loop s))" using worker_moves(2) by (simp add: worker_move_def)
  ultimately show ?thesis using inv worker_moves(1) by (simp add: sessions_inv_def)
next
  case (begins i t)
  have "Running t \<in> set (workers (jobs (loop s)))" using begins(2,3) nth_mem by metis
  then have "t \<in> set (started (jobs (loop s)))" using inv by (simp add: sessions_inv_def)
  moreover have "order_inv (jobs (loop s))"
    using server_reach_inv [OF reach] reachable_pool_inv by (auto simp: server_inv_def pool_inv_def)
  ultimately have "\<forall>ob. t \<noteq> LogOutTask ob" using inv by (auto simp: order_inv_def sessions_inv_def)
  from keeps_task [OF this] inv begins(1) show ?thesis by (simp add: sessions_inv_def)
next
  case (calls i q t n c q' w c')
  with inv keeps_step [OF calls(5)] show ?thesis by (simp add: sessions_inv_def)
next
  case (ends i e)
  with inv show ?thesis by (auto simp: sessions_inv_def worker_done_def dest: set_update_cases)
next
  case (send obj q x ps e r)
  with inv show ?thesis by (simp add: sessions_inv_def)
qed

lemma server_reach_sessions: "server_reach m ra pw threads sz s \<Longrightarrow> sessions_inv s"
proof (induction rule: server_reach.induct)
  case (start p db p' db' lfd k rd)
  show ?case by (simp add: sessions_inv_def server_start_def ServerHandler_new_def addHandler_def pool_init_def)
next
  case (step s s')
  then show ?case by (blast intro: server_step_sessions)
qed

section \<open>Properties\<close>

text \<open>C38: Sessions never end. In every state the running server can reach, whatever messages its clients
  have sent and whatever connections were closed, no task that ends a session was ever queued, and
  no call that any worker is about to make, or can still make for its task, removes a user from the
  set of sessions or deletes a session's fields.\<close>

theorem sessions_never_end:
  assumes "server_reach m ra pw threads sz s"
  shows "(\<forall>ob. LogOutTask ob \<notin> set (submitted (jobs (loop s)))) \<and>
         (\<forall>i q. at_call s i = Some q \<longrightarrow> keeps_sessions q)"
  using server_reach_sessions [OF assms] by (simp add: sessions_inv_def)

theorem sessions_never_end_witness:
  "\<exists>(s :: demo_sys) q. at_call s 0 = Some q \<and> q = task_prog demo_mysql (LogTask demo_login 9) \<and> keeps_sessions q"
proof -
  obtain s where s: "demo_reach s" "workers (jobs (loop s)) = [Running (LogTask demo_login 9)]" "at_call s = (\<lambda>_. None)"
    using demo_running by blast
  let ?s = "s\<lparr>at_call := (at_call s)(0 \<mapsto> task_prog demo_mysql (LogTask demo_login 9))\<rparr>"
  have "demo_reach ?s"
    by (rule server_reach.step [OF s(1) server_step.begins]) (simp_all add: s(2,3))
  from sessions_never_end [OF this]
  have "at_call ?s 0 = Some (task_prog demo_mysql (LogTask demo_login 9)) \<longrightarrow>
      keeps_sessions (task_prog demo_mysql (LogTask demo_login 9))" by blast
  then show ?thesis by (intro exI [of _ ?s]) simp
qed

end
