(* ===== verification/ServerRaces.thy ===== *)
theory ServerRaces
  imports ServerSystem
begin

text \<open>
  What the interleaving of the server's workers can do to two requests. Nothing serialises
  the calls of two tasks, so an id read after an insertion may be another user's, and a
  session is visible before its descriptor is.
\<close>

section \<open>A database that serves the users' table\<close>

text \<open>
  The laws used of the connector: an open connection stays open, statements are prepared,
  and \<open>select max(userid)\<close> returns a row whose \<open>id\<close> is the newest one.
\<close>

definition serves_users :: "('c, 'db, 'row) mysql \<Rightarrow> ('db \<Rightarrow> s32) \<Rightarrow> bool" where
  "serves_users m newest \<longleftrightarrow>
     (\<forall>c db. prepare m c db \<and> \<not> isClosed m c db \<and>
        (\<exists>row rows. executeQuery m c sql_max db = Some (row # rows) \<and>
                    getInt m row ''id'' = Some (newest db)))"

definition reg_accepted :: "s32 \<Rightarrow> TransObj \<Rightarrow> TransObj" where
  "reg_accepted i obj =
     snd (setMsg (''regin accepted! '' @ [CHR 0x0A]) (setId i (setMsgType (msgCode MSG_REG_ACCEPT) obj)))"

lemma reg_accepted_fields [simp]:
  "tid (reg_accepted i obj) = i" "tfd (reg_accepted i obj) = tfd obj"
  "msgType (reg_accepted i obj) = msgCode MSG_REG_ACCEPT"
  by (simp_all add: reg_accepted_def setter_defs split: if_splits)

lemma sql_max_text: "sql_text sql_max [] = Inr sql_max"
  by (simp add: sql_text_def snprintf_def sql_max_def cstr_def NUL_def)

lemma reg_finish_reads:
  assumes m: "serves_users m newest" and c: "connList (mpool w) \<noteq> []"
  shows "\<exists>w'. (prog_step m ra pw)\<^sup>*\<^sup>* (reg_finish_prog m obj, w) (Finish (Done 1), w') \<and>
           mdb w' = mdb w \<and> connList (mpool w') \<noteq> [] \<and>
           sseq w' = pushBuff (reg_accepted (newest (mdb w)) obj) (sseq w)"
proof -
  obtain conn rest where cl: "connList (mpool w) = conn # rest" using c by (cases "connList (mpool w)") auto
  obtain row rows where q: "executeQuery m conn sql_max (mdb w) = Some (row # rows)"
    and i: "getInt m row ''id'' = Some (newest (mdb w))" and up: "prepare m conn (mdb w)" "\<not> isClosed m conn (mdb w)"
    using m unfolding serves_users_def by blast
  have "s_query m sql_max [] w =
      Inr (Ret (Some (row # rows)), w\<lparr>mpool := (mpool w)\<lparr>connList := rest @ [conn]\<rparr>\<rparr>)"
    using cl q up by (simp add: s_query_def ExecQuery_def GetConnection_def sql_max_text ReleaseConnection_def)
  then have "reg_finish m obj w = Inr (Done 1, reply_obj (reg_accepted (newest (mdb w)) obj)
      (w\<lparr>mpool := (mpool w)\<lparr>connList := rest @ [conn]\<rparr>\<rparr>))"
    using i by (simp add: reg_finish_def reg_accepted_def)
  then have "(prog_step m ra pw)\<^sup>*\<^sup>* (reg_finish_prog m obj, w)
      (Finish (Done 1), reply_obj (reg_accepted (newest (mdb w)) obj)
        (w\<lparr>mpool := (mpool w)\<lparr>connList := rest @ [conn]\<rparr>\<rparr>))"
    by (intro run_prog_steps) (simp add: run_reg_finish)
  then show ?thesis by (intro exI) (auto intro: conjI)
qed

section \<open>Two workers, each at a point of its task\<close>

text \<open>
  Two workers have taken the first two tasks and one has come to \<open>q\<close>: the calls it makes
  alone lead there.
\<close>

lemma begin_reach:
  assumes "server_reach m ra pw threads sz s"
    and i: "i < length (workers (jobs (loop s)))" "workers (jobs (loop s)) ! i = Running t" "at_call s i = None"
    and run: "(prog_step m ra pw)\<^sup>*\<^sup>* (task_prog m t, sworld s) (q, w)"
    and up: "\<And>conn db. prepare m conn db"
  shows "server_reach m ra pw threads sz (s\<lparr>sworld := w, at_call := (at_call s)(i \<mapsto> q)\<rparr>)"
proof -
  let ?s = "s\<lparr>at_call := (at_call s)(i \<mapsto> task_prog m t)\<rparr>"
  have "server_reach m ra pw threads sz ?s"
    using server_reach.step [OF assms(1) server_step.begins [OF i]] .
  from calls_reach [OF run this _ _ up, of i]
  have "server_reach m ra pw threads sz (?s\<lparr>sworld := w, at_call := (at_call ?s)(i \<mapsto> q)\<rparr>)" by simp
  moreover have "?s\<lparr>sworld := w, at_call := (at_call ?s)(i \<mapsto> q)\<rparr> = s\<lparr>sworld := w, at_call := (at_call s)(i \<mapsto> q)\<rparr>"
    by (cases s) simp
  ultimately show ?thesis by simp
qed

section \<open>A server with two workers and two clients\<close>

text \<open>Clients on sockets 8 and 9 have sent a message each, and each worker has taken one.\<close>

lemma two_running:
  assumes s0: "server_reach m ra pw 2 sz s0" "s0 = server_start 2 3 mp db k rd"
    and a: "wf_size a" "\<And>p. \<not> stop p \<Longrightarrow> server_handle (Some (a\<lparr>mlen := 0\<rparr>)) 8 p = enqueue ta p"
    and b: "wf_size b" "\<And>p. \<not> stop p \<Longrightarrow> server_handle (Some (b\<lparr>mlen := 0\<rparr>)) 9 p = enqueue tb p"
  shows "\<exists>s. server_reach m ra pw 2 sz s \<and> workers (jobs (loop s)) = [Running ta, Running tb] \<and>
             sworld s = sworld s0 \<and> at_call s = (\<lambda>_. None) \<and> submitted (jobs (loop s)) = [ta, tb] \<and>
             \<not> torn s"
proof -
  let ?h = "Some (Echo (EchoHandler_new (replicate BUFFER_SIZE NUL)))"
  let ?l1 = "addHandler 8 ?h EPOLLIN (loop s0)"
  let ?l2 = "addHandler 9 ?h EPOLLIN ?l1"
  have "server_reach m ra pw 2 sz (s0\<lparr>loop := ?l1\<rparr>)"
    by (rule open_reach [OF s0(1), of 3])
       (simp_all add: s0(2) server_start_def ServerHandler_new_def addHandler_def)
  from open_reach [OF this, of 3 9 "replicate BUFFER_SIZE NUL"]
  have r2: "server_reach m ra pw 2 sz (s0\<lparr>loop := ?l2\<rparr>)"
    by (simp add: s0(2) server_start_def ServerHandler_new_def addHandler_def)
  have j: "jobs ?l2 = pool_init 2" by (simp add: s0(2) server_start_def ServerHandler_new_def addHandler_def)
  let ?p1 = "(pool_init 2)\<lparr>tasks := [ta], submitted := [ta], notifs := 1\<rparr>"
  let ?p2 = "(pool_init 2)\<lparr>tasks := [ta, tb], submitted := [ta, tb], notifs := 2\<rparr>"
  have "server_handle (Some (a\<lparr>mlen := 0\<rparr>)) 8 (jobs ?l2) = Inr ?p1"
    unfolding j by (simp add: a(2) enqueue_def pool_init_def)
  then obtain l3 where l3: "server_reach m ra pw 2 sz (s0\<lparr>loop := l3\<rparr>)" "jobs l3 = ?p1"
    "handlers_map l3 9 = Some ?h"
    using arrival_reach [OF r2, of 8 _ a ?p1] a(1) by (auto simp: addHandler_def)
  have "server_handle (Some (b\<lparr>mlen := 0\<rparr>)) 9 (jobs l3) = Inr ?p2"
    unfolding l3(2) by (simp add: b(2) enqueue_def pool_init_def)
  then obtain l4 where l4: "server_reach m ra pw 2 sz (s0\<lparr>loop := l4\<rparr>)" "jobs l4 = ?p2"
    using arrival_reach [OF l3(1), of 9 _ b ?p2] l3(3) b(1) by auto
  let ?l5 = "l4\<lparr>jobs := ?p2\<lparr>workers := [Running ta, Ready], tasks := [tb], started := [ta]\<rparr>\<rparr>"
  let ?l6 = "l4\<lparr>jobs := ?p2\<lparr>workers := [Running ta, Running tb], tasks := [], started := [ta, tb]\<rparr>\<rparr>"
  have "server_reach m ra pw 2 sz (s0\<lparr>loop := ?l5\<rparr>)"
    using take_reach [OF l4(1), of 0 ta "[tb]"] l4(2) by (simp add: pool_init_def numeral_2_eq_2)
  from take_reach [OF this, of 1 tb "[]"] have "server_reach m ra pw 2 sz (s0\<lparr>loop := ?l6\<rparr>)"
    by (simp add: pool_init_def)
  then show ?thesis by (intro exI) (auto simp: s0(2) server_start_def intro!: conjI)
qed

text \<open>A task that finds the user online but no socket recorded sends to descriptor 0.\<close>

lemma online_then_none:
  assumes up: "redis_up ra view w" and on: "session_online (recverId obj) (view (rworld w))"
    and none: "a_hash (view (rworld w)) (to_string (sint (recverId obj))) ''fd'' = None"
  shows "\<exists>w'. run_prog m ra pw (ask_deliver_prog obj) w = Inr (Done 1, w') \<and>
           sseq w' = pushBuff (obj\<lparr>tfd := 0\<rparr>) (sseq w)"
proof -
  obtain w1 where 1: "s_com (isTalkerOnline ra pw (recverId obj)) w = Inr (True, w1)" "redis_up ra view w1"
    "view (rworld w1) = view (rworld w)" "sseq w1 = sseq w"
    using s_com_online [OF up, of pw "recverId obj"] on by auto
  obtain k' rd' where "getTalkerFd ra pw (recverId obj) (rclient w1) (rworld w1) = Inr (atoi [], k', rd')"
    using fd_refines [of ra view "rclient w1" "rworld w1" pw "recverId obj"] 1(2,3) none
    by (auto simp: redis_up_def)
  moreover have "atoi [] = 0" by code_simp
  ultimately have "s_com (getTalkerFd ra pw (recverId obj)) w1 = Inr (0, w1\<lparr>rclient := k', rworld := rd'\<rparr>)"
    by (simp add: s_com_def)
  with 1(1,4) show ?thesis by (simp add: ask_deliver_prog_def run_online run_fd)
qed

section \<open>Properties\<close>

text \<open>C18: Registrations race: whenever two workers have both inserted their user before either has asked
  for the id, they can both go on to accept their client, and then both clients are told the
  same id, the newest one.\<close>

theorem registrations_share_id:
  assumes "server_reach m ra pw threads sz s" and "i \<noteq> j"
    and "at_call s i = Some (reg_finish_prog m o1)" and "at_call s j = Some (reg_finish_prog m o2)"
    and "serves_users m newest" and "connList (mpool (sworld s)) \<noteq> []"
  shows "\<exists>s' r1 r2. server_reach m ra pw threads sz s' \<and>
           buff (sseq (sworld s')) = buff (sseq (sworld s)) @ [r1, r2] \<and>
           tfd r1 = tfd o1 \<and> tfd r2 = tfd o2 \<and>
           msgType r1 = msgCode MSG_REG_ACCEPT \<and> msgType r2 = msgCode MSG_REG_ACCEPT \<and>
           tid r1 = newest (mdb (sworld s)) \<and> tid r2 = tid r1"
proof -
  let ?n = "newest (mdb (sworld s))"
  have up: "prepare m conn db" for conn db using assms(5) by (simp add: serves_users_def)
  obtain w1 where 1: "(prog_step m ra pw)\<^sup>*\<^sup>* (reg_finish_prog m o1, sworld s) (Finish (Done 1), w1)"
    "mdb w1 = mdb (sworld s)" "connList (mpool w1) \<noteq> []" "sseq w1 = pushBuff (reg_accepted ?n o1) (sseq (sworld s))"
    using reg_finish_reads [OF assms(5,6)] by blast
  let ?s1 = "s\<lparr>sworld := w1, at_call := (at_call s)(i \<mapsto> Finish (Done 1))\<rparr>"
  have s1: "server_reach m ra pw threads sz ?s1"
    using calls_reach [OF 1(1) assms(1,3) refl up] .
  obtain w2 where 2: "(prog_step m ra pw)\<^sup>*\<^sup>* (reg_finish_prog m o2, w1) (Finish (Done 1), w2)"
    "sseq w2 = pushBuff (reg_accepted ?n o2) (sseq w1)"
    using reg_finish_reads [OF assms(5) 1(3), of ra pw o2] by (auto simp: 1(2))
  have "server_reach m ra pw threads sz (?s1\<lparr>sworld := w2, at_call := (at_call ?s1)(j \<mapsto> Finish (Done 1))\<rparr>)"
    using assms(2,4) by (intro calls_reach [OF 2(1) s1 _ _ up]) simp_all
  moreover have "buff (sseq w2) = buff (sseq (sworld s)) @ [reg_accepted ?n o1, reg_accepted ?n o2]"
    by (simp add: 1(4) 2(2) pushBuff_def cq_push_def)
  ultimately show ?thesis by (intro exI) (auto intro!: conjI)
qed

text \<open>C19: A session opens in two commands: between the first, which makes the user visible as online, and
  the second, which records its name and socket, another worker's task finds the user online and
  sends to descriptor 0, which is no client's but the server's standard input.\<close>

theorem half_open_session:
  assumes "server_reach m ra pw threads sz s" and "i \<noteq> j"
    and "at_call s i = Some (add_prog n name fd q)" and "at_call s j = Some (ask_deliver_prog obj)"
    and "recverId obj = n" and "redis_up ra view (sworld s)"
    and "a_hash (view (rworld (sworld s))) (to_string (sint n)) ''fd'' = None"
    and "\<And>conn db. prepare m conn db"
  shows "\<exists>s'. server_reach m ra pw threads sz s' \<and>
           buff (sseq (sworld s')) = buff (sseq (sworld s)) @ [obj\<lparr>tfd := 0\<rparr>]"
proof -
  let ?w = "sworld s" and ?id = "to_string (sint n)"
  have doc: "redis_documented ra view" "connected (rclient ?w)" "registry_ok (view (rworld ?w))"
    using assms(6) by (simp_all add: redis_up_def)
  obtain resp k' rd' where add: "ExecSadd ra pw [] ''userSession'' ?id (rclient ?w) (rworld ?w) = Inr (True, resp, k', rd')"
    and k': "connected k'" and v: "view rd' = (view (rworld ?w))\<lparr>a_set :=
      (a_set (view (rworld ?w)))(''userSession'' := (a_set (view (rworld ?w)) ''userSession'')(?id := True))\<rparr>"
    using exec_sadd [OF doc(1,2), of "''userSession''" ?id "rworld ?w" pw "[]"] doc(3) length_to_string_s32 [of n]
    by (auto simp: registry_ok_def)
  let ?w1 = "?w\<lparr>rclient := k', rworld := rd'\<rparr>"
  let ?k = "\<lambda>(b, response). if b then Redis (OpHMset response ?id [(''name'', name), (''fd'', to_string (sint fd))])
      (\<lambda>(b2, _). q b2) else q False"
  let ?q = "?k (True, resp)"
  have "redis_call ra pw (OpSadd [] ''userSession'' ?id) (rclient ?w) (rworld ?w) = Inr (True, resp, k', rd')"
    using add by simp
  then have 1: "(prog_step m ra pw)\<^sup>*\<^sup>* (add_prog n name fd q, ?w) (?q, ?w1)"
    unfolding add_prog_def Let_def by (rule redis_steps [where k = ?k, OF _ rtranclp.rtrancl_refl])
  let ?s1 = "s\<lparr>sworld := ?w1, at_call := (at_call s)(i \<mapsto> ?q)\<rparr>"
  have s1: "server_reach m ra pw threads sz ?s1" using calls_reach [OF 1 assms(1,3) refl assms(8)] .
  have up1: "redis_up ra view ?w1"
    using doc k' by (simp add: redis_up_def v registry_ok_def no_hash_def no_set_def number_not_session')
  have on: "session_online n (view rd')" and none: "a_hash (view rd') ?id ''fd'' = None"
    using assms(7) by (simp_all add: session_online_def v)
  obtain w2 where 2: "run_prog m ra pw (ask_deliver_prog obj) ?w1 = Inr (Done 1, w2)"
    "sseq w2 = pushBuff (obj\<lparr>tfd := 0\<rparr>) (sseq ?w)"
    using online_then_none [OF up1, of obj m pw] on none assms(5) by auto
  have "server_reach m ra pw threads sz (?s1\<lparr>sworld := w2, at_call := (at_call ?s1)(j \<mapsto> Finish (Done 1))\<rparr>)"
    using assms(2,4) by (intro calls_reach [OF run_prog_steps [OF 2(1)] s1 _ _ assms(8)]) simp_all
  then show ?thesis using 2(2) by (intro exI) (auto simp: pushBuff_def cq_push_def intro!: conjI)
qed

text \<open>The command a worker sends is the one written into the shared buffer last.\<close>

lemma check_halves:
  assumes "redis_up ra view w"
  shows "\<exists>c. redis_format (OpScontain r ''userSession'' (to_string (sint i))) (rclient w) = Inr c \<and>
           redis_up ra view (w\<lparr>rclient := c\<rparr>) \<and>
           (\<exists>resp k' rd'. redis_send ra pw (OpScontain [] t u) c (rworld w) =
              Inr (session_online i (view (rworld w)), resp, k', rd'))"
proof -
  have w: "redis_documented ra view" "connected (rclient w)" "registry_ok (view (rworld w))"
    using assms by (simp_all add: redis_up_def)
  obtain resp k' rd' where e: "ExecScontain ra pw [] ''userSession'' (to_string (sint i)) (rclient w) (rworld w) =
      Inr (session_online i (view (rworld w)), resp, k', rd')"
    using exec_scontain [OF w(1,2), of "''userSession''" "to_string (sint i)" "rworld w" pw] w(3)
      length_to_string_s32 [of i]
    by (auto simp: session_online_def registry_ok_def)
  then obtain c where c: "redis_format (OpScontain [] ''userSession'' (to_string (sint i))) (rclient w) = Inr c"
    "redis_send ra pw (OpScontain [] ''userSession'' (to_string (sint i))) c (rworld w) =
       Inr (session_online i (view (rworld w)), resp, k', rd')"
    using redis_call_split [of ra pw "OpScontain [] ''userSession'' (to_string (sint i))"] by (metis redis_call.simps(3))
  then have "redis_up ra view (w\<lparr>rclient := c\<rparr>)"
    using w by (auto simp: redis_up_def connected_def ExecuteCmd_format_buffer)
  with c show ?thesis by auto
qed

text \<open>C20: The buffer a Redis command is written into is shared by the workers, so one worker can send
  another's command: a message for a user who is offline is forwarded, because the question
  whether its recipient is online was overwritten by a question about someone else.\<close>

theorem commands_share_buffer:
  assumes "server_reach m ra pw threads sz s" and "i \<noteq> j"
    and "at_call s i = Some (send_prog o1)" and "at_call s j = Some (send_prog o2)"
    and "redis_up ra view (sworld s)"
    and "\<not> session_online (recverId o1) (view (rworld (sworld s)))"
    and "session_online (recverId o2) (view (rworld (sworld s)))"
    and "\<And>conn db. prepare m conn db"
  shows "\<exists>s'. server_reach m ra pw threads sz s' \<and>
           buff (sseq (sworld s')) = buff (sseq (sworld s)) @ [o1]"
proof -
  let ?w = "sworld s" and ?op = "\<lambda>obj. OpScontain [] ''userSession'' (to_string (sint (recverId obj)))"
  let ?k = "\<lambda>obj (b, _). if b then Reply obj (Finish (Done 0)) else Finish (Done 0)"
  have p: "send_prog obj = Redis (?op obj) (?k obj)" for obj by (simp add: send_prog_def online_prog_def)
  obtain c1 where 1: "redis_format (?op o1) (rclient ?w) = Inr c1" "redis_up ra view (?w\<lparr>rclient := c1\<rparr>)"
    using check_halves [OF assms(5)] by blast
  let ?w1 = "?w\<lparr>rclient := c1\<rparr>"
  obtain c2 resp k' rd' where 2: "redis_format (?op o2) (rclient ?w1) = Inr c2"
    "redis_send ra pw (?op o1) c2 (rworld ?w1) = Inr (True, resp, k', rd')"
    using check_halves [OF 1(2), of "[]" "recverId o2" pw "''userSession''" "to_string (sint (recverId o1))"] assms(7)
    by auto
  let ?w2 = "?w1\<lparr>rclient := c2\<rparr>"
  let ?w3 = "?w2\<lparr>rclient := k', rworld := rd'\<rparr>"
  have "(prog_step m ra pw)\<^sup>*\<^sup>* (send_prog o1, ?w) (RedisSend (?op o1) (?k o1), ?w1)"
    unfolding p by (rule prog_step_then [OF _ rtranclp.rtrancl_refl]) (use 1(1) in \<open>simp add: call_step.simps\<close>)
  from calls_reach [OF this assms(1,3) refl assms(8)]
  have s1: "server_reach m ra pw threads sz (s\<lparr>sworld := ?w1, at_call := (at_call s)(i \<mapsto> RedisSend (?op o1) (?k o1))\<rparr>)"
    (is "server_reach _ _ _ _ _ ?s1") .
  have t2: "(prog_step m ra pw)\<^sup>*\<^sup>* (send_prog o2, ?w1) (RedisSend (?op o2) (?k o2), ?w2)"
    unfolding p by (rule prog_step_then [OF _ rtranclp.rtrancl_refl]) (use 2(1) in \<open>simp add: call_step.simps\<close>)
  have s2: "server_reach m ra pw threads sz (?s1\<lparr>sworld := ?w2, at_call := (at_call ?s1)(j \<mapsto> RedisSend (?op o2) (?k o2))\<rparr>)"
    (is "server_reach _ _ _ _ _ ?s2")
    using assms(2,4) by (intro calls_reach [OF t2 s1 _ _ assms(8)]) simp_all
  have "(prog_step m ra pw)\<^sup>*\<^sup>* (Reply o1 (Finish (Done 0)), ?w3) (Finish (Done 0), reply_obj o1 ?w3)"
    by (rule prog_step_then [OF _ rtranclp.rtrancl_refl]) (simp add: call_step.simps)
  then have t3: "(prog_step m ra pw)\<^sup>*\<^sup>* (RedisSend (?op o1) (?k o1), ?w2) (Finish (Done 0), reply_obj o1 ?w3)"
  proof (rule prog_step_then [rotated])
    have "redis_send ra pw (?op o1) (rclient ?w2) (rworld ?w2) = Inr (True, resp, k', rd')"
      using 2(2) by (simp del: redis_send.simps)
    from call_step_send [OF this, of m "?k o1"]
    show "call_step m ra pw (RedisSend (?op o1) (?k o1)) ?w2 = Some (Inr (Reply o1 (Finish (Done 0)), ?w3))"
      by simp
  qed
  have "server_reach m ra pw threads sz (?s2\<lparr>sworld := reply_obj o1 ?w3, at_call := (at_call ?s2)(i \<mapsto> Finish (Done 0))\<rparr>)"
    using assms(2) by (intro calls_reach [OF t3 s2 _ _ assms(8)]) simp_all
  then show ?thesis by (intro exI) (auto simp: pushBuff_def cq_push_def intro!: conjI)
qed

text \<open>Two messages, one for user 6, who is offline, and one for user 5, who is online.\<close>

definition talk_to :: "s32 \<Rightarrow> TransObj" where
  "talk_to i = demo_login\<lparr>msgType := 1, recverId := i\<rparr>"

lemma talk_to_fields: "wf_size (talk_to i)" "(talk_to i)\<lparr>mlen := 0\<rparr> = talk_to i" "msgType (talk_to i) = 1"
  "recverId (talk_to i) = i"
  using demo_login_fields(3) by (simp_all add: talk_to_def wf_size_def demo_login_def TransObj_default_def)

lemma talk_to_handled: "\<not> stop p \<Longrightarrow> server_handle (Some ((talk_to i)\<lparr>mlen := 0\<rparr>)) fd p = enqueue (SendMsgTask (talk_to i)) p"
  unfolding talk_to_fields(2) by (simp add: server_handle_def talk_to_fields(3) s_handleUserSendMsg_def)

definition talk_start :: demo_sys where
  "talk_start = server_start 2 3 \<lparr>connList = [0, 0], curSize = 2, maxSize = 4\<rparr> demo_rows mini_client
     (session_add 5 ''bob'' 8 mini_empty)"

lemma talk_start_reach: "server_reach demo_mysql mini_redis [] 2 4 talk_start"
  unfolding talk_start_def
  by (rule server_reach.start [of "\<lparr>connList = [], curSize = 0, maxSize = 0\<rparr>" 4 _ demo_rows])
     (simp_all add: initPool_def CreateConnection_def demo_mysql_def numeral_2_eq_2)

theorem commands_share_buffer_witness:
  "\<not> session_online (6 :: s32) (session_add 5 ''bob'' 8 mini_empty) \<and>
   (\<exists>s' :: demo_sys. server_reach demo_mysql mini_redis [] 2 4 s' \<and>
      buff (sseq (sworld s')) = [talk_to 6])"
proof -
  let ?A = "session_add 5 ''bob'' 8 mini_empty"
  obtain s where s: "server_reach demo_mysql mini_redis [] 2 4 s"
    "workers (jobs (loop s)) = [Running (SendMsgTask (talk_to 6)), Running (SendMsgTask (talk_to 5))]"
    "sworld s = sworld talk_start" "at_call s = (\<lambda>_. None)"
    using two_running [OF talk_start_reach talk_start_def talk_to_fields(1) talk_to_handled
        talk_to_fields(1) talk_to_handled] by blast
  have up: "prepare demo_mysql conn db" for conn db by (simp add: demo_mysql_def)
  have w0: "rworld (sworld s) = ?A" "rclient (sworld s) = mini_client" "buff (sseq (sworld s)) = []"
    by (simp_all add: s(3) talk_start_def server_start_def)
  let ?s1 = "s\<lparr>sworld := sworld s, at_call := (at_call s)(0 \<mapsto> send_prog (talk_to 6))\<rparr>"
  have s1: "server_reach demo_mysql mini_redis [] 2 4 ?s1"
    by (rule begin_reach [OF s(1) _ _ _ _ up, where t = "SendMsgTask (talk_to 6)"]) (simp_all add: s(2,4))
  let ?s2 = "?s1\<lparr>sworld := sworld s, at_call := (at_call ?s1)(1 \<mapsto> send_prog (talk_to 5))\<rparr>"
  have s2: "server_reach demo_mysql mini_redis [] 2 4 ?s2"
    by (rule begin_reach [OF s1 _ _ _ _ up, where t = "SendMsgTask (talk_to 5)"]) (simp_all add: s(2,4))
  have off: "\<not> session_online (6 :: s32) ?A" by code_simp
  have h: "at_call ?s2 0 = Some (send_prog (talk_to 6))" "at_call ?s2 1 = Some (send_prog (talk_to 5))"
    "redis_up mini_redis (\<lambda>A. A) (sworld ?s2)"
    "\<not> session_online (recverId (talk_to 6)) (rworld (sworld ?s2))"
    "session_online (recverId (talk_to 5)) (rworld (sworld ?s2))"
    using off by (simp_all add: redis_up_def mini_documented w0 mini_connected mini_registry registry_ok_add
        talk_to_fields(4))
  from commands_share_buffer [OF s2 zero_neq_one h up] w0(3) off show ?thesis by auto
qed

text \<open>A user logs in while another asks for the same user.\<close>

definition ask_bob :: TransObj where
  "ask_bob = demo_login\<lparr>msgType := 10\<rparr>"

lemma ask_bob_fields: "read_cstr (msg ask_bob) = Inr ''bob''" "wf_size ask_bob" "ask_bob\<lparr>mlen := 0\<rparr> = ask_bob"
  "msgType ask_bob = 10"
  using demo_login_fields(1,3)
  by (simp_all add: ask_bob_def getName_def wf_size_def demo_login_def TransObj_default_def)

lemma ask_bob_handled: "\<not> stop p \<Longrightarrow> server_handle (Some (ask_bob\<lparr>mlen := 0\<rparr>)) fd p = enqueue (AskFriendTask ask_bob fd) p"
  unfolding ask_bob_fields(3) by (simp add: server_handle_def ask_bob_fields(4) s_handleAskForFriendMsg_def)

definition duo_start :: demo_sys where
  "duo_start = server_start 2 3 \<lparr>connList = [0, 0], curSize = 2, maxSize = 4\<rparr> demo_rows mini_client mini_empty"

lemma duo_start_reach: "server_reach demo_mysql mini_redis [] 2 4 duo_start"
  unfolding duo_start_def
  by (rule server_reach.start [of "\<lparr>connList = [], curSize = 0, maxSize = 0\<rparr>" 4 _ demo_rows])
     (simp_all add: initPool_def CreateConnection_def demo_mysql_def numeral_2_eq_2)

lemma duo_query:
  assumes "connList (mpool w) = conn # rest" and "mdb w = demo_rows" and "cformat fmt args \<noteq> None"
  shows "s_query demo_mysql fmt args w =
    Inr (Ret (Some demo_rows), w\<lparr>mpool := (mpool w)\<lparr>connList := rest @ [conn]\<rparr>\<rparr>)"
  using assms by (auto simp: s_query_def ExecQuery_def GetConnection_def ReleaseConnection_def demo_mysql_def
      sql_text_def snprintf_def)

theorem half_open_session_witness:
  "\<exists>s' :: demo_sys. server_reach demo_mysql mini_redis [] 2 4 s' \<and>
     buff (sseq (sworld s')) = [ask_bob\<lparr>recverId := 5, tfd := 0\<rparr>]"
proof -
  obtain s where s: "server_reach demo_mysql mini_redis [] 2 4 s"
    "workers (jobs (loop s)) = [Running (LogTask demo_login 8), Running (AskFriendTask ask_bob 9)]"
    "sworld s = sworld duo_start" "at_call s = (\<lambda>_. None)"
    using two_running [OF duo_start_reach duo_start_def demo_login_fields(3) demo_login_handled
        ask_bob_fields(2) ask_bob_handled] by blast
  have up: "prepare demo_mysql conn db" for conn db by (simp add: demo_mysql_def)
  let ?w = "sworld s"
  have w0: "connList (mpool ?w) = [0, 0]" "mdb ?w = demo_rows" "rworld ?w = mini_empty" "rclient ?w = mini_client"
    "buff (sseq ?w) = []"
    by (simp_all add: s(3) duo_start_def server_start_def)
  let ?add = "add_prog (5 :: s32) ''bob'' 8 (\<lambda>_. accept_login_prog (setFd 8 (setId 5 demo_login)))"
  let ?q1 = "\<lambda>o1. add_prog (tid o1) ''bob'' 8 (\<lambda>_. accept_login_prog o1) :: (nat, string \<times> s32) prog"
  let ?ask = "ask_deliver_prog (ask_bob\<lparr>recverId := 5\<rparr>) :: (nat, string \<times> s32) prog"
  have g: "getString demo_mysql (''secret'', 5) ''password'' = Some ''secret''" "cstr ''secret'' = ''secret''"
    "getInt demo_mysql (''secret'', 5) ''userid'' = Some 5" "\<not> MAX_TRANS_MSG_LEN < unat (mlen demo_login)"
    using demo_login_fields(4) by (simp_all add: demo_mysql_def cstr_def NUL_def max_len_defs)
  have tid5: "tid (setFd 8 (setId 5 demo_login)) = 5" by (simp add: setter_defs)
  let ?w1 = "?w\<lparr>mpool := (mpool ?w)\<lparr>connList := [0, 0]\<rparr>\<rparr>"
  have q: "s_query demo_mysql sql_login [ArgS ''bob''] ?w = Inr (Ret (Some demo_rows), ?w1)"
    using duo_query [OF w0(1,2) demo_sql(1)] by simp
  have 1: "(prog_step demo_mysql mini_redis [])\<^sup>*\<^sup>* (task_prog demo_mysql (LogTask demo_login 8), ?w) (?add, ?w1)"
    unfolding task_prog.simps login_prog_def
    by (simp add: g(4) read_prog_def demo_login_fields(1), rule query_steps [OF q])
       (simp add: g demo_login_fields(2) read_prog_def Let_def tid5)
  let ?s1 = "s\<lparr>sworld := ?w1, at_call := (at_call s)(0 \<mapsto> ?add)\<rparr>"
  have s1: "server_reach demo_mysql mini_redis [] 2 4 ?s1"
    by (rule begin_reach [OF s(1) _ _ _ 1 up]) (simp_all add: s(2,4))
  let ?w2 = "?w1\<lparr>mpool := (mpool ?w1)\<lparr>connList := [0, 0]\<rparr>\<rparr>"
  have q2: "s_query demo_mysql sql_userid [ArgS ''bob''] ?w1 = Inr (Ret (Some demo_rows), ?w2)"
    using duo_query [of ?w1 0 "[0]", OF _ _ demo_sql(2)] w0(2) by simp
  have 2: "(prog_step demo_mysql mini_redis [])\<^sup>*\<^sup>* (task_prog demo_mysql (AskFriendTask ask_bob 9), sworld ?s1) (?ask, ?w2)"
    unfolding task_prog.simps ask_prog_def
    by (simp add: read_prog_def ask_bob_fields(1), rule query_steps [OF q2]) (simp add: g(3))
  let ?s2 = "?s1\<lparr>sworld := ?w2, at_call := (at_call ?s1)(1 \<mapsto> ?ask)\<rparr>"
  have s2: "server_reach demo_mysql mini_redis [] 2 4 ?s2"
    by (rule begin_reach [OF s1 _ _ _ 2 up]) (simp_all add: s(2,4))
  have h: "at_call ?s2 0 = Some ?add" "at_call ?s2 1 = Some ?ask" "recverId (ask_bob\<lparr>recverId := 5\<rparr>) = 5"
    "redis_up mini_redis (\<lambda>A. A) (sworld ?s2)"
    "a_hash (rworld (sworld ?s2)) (to_string (sint (5 :: s32))) ''fd'' = None"
    by (simp_all add: redis_up_def mini_documented w0(3,4) mini_connected mini_registry) (simp add: mini_empty_def)
  from half_open_session [OF s2 zero_neq_one h up] w0(5) show ?thesis by auto
qed

text \<open>A users' table whose rows are their ids, one more for each insertion.\<close>

definition ids_mysql :: "(nat, s32 list, s32) mysql" where
  "ids_mysql = \<lparr>isClosed = (\<lambda>_ _. False), connect = (\<lambda>db. (Some 0, db)), prepare = (\<lambda>_ _. True),
     executeQuery = (\<lambda>_ cmd db. if cmd = sql_max then Some [last (0 # db)] else Some []),
     executeUpdate = (\<lambda>_ cmd db. (Some 1, db @ [last (0 # db) + 1])),
     getString = (\<lambda>row c. Some []), getInt = (\<lambda>row c. Some row)\<rparr>"

lemma ids_serves: "serves_users ids_mysql (\<lambda>db. last (0 # db))"
  by (simp add: serves_users_def ids_mysql_def)

definition ids_start :: "(nat, s32 list, s32, nat, redis_abs) ServerSys" where
  "ids_start = server_start 2 3 \<lparr>connList = [0, 0], curSize = 2, maxSize = 4\<rparr> [] mini_client mini_empty"

lemma ids_start_reach: "server_reach ids_mysql mini_redis [] 2 4 ids_start"
  unfolding ids_start_def
  by (rule server_reach.start [of "\<lparr>connList = [], curSize = 0, maxSize = 0\<rparr>" 4 _ "[]"])
     (simp_all add: initPool_def CreateConnection_def ids_mysql_def numeral_2_eq_2)

definition reg_bob :: TransObj where
  "reg_bob = demo_login\<lparr>msgType := 3\<rparr>"

lemma reg_bob_fields: "getName reg_bob = Inr ''bob''" "getPasswd reg_bob = Inr ''secret''" "wf_size reg_bob"
  using demo_login_fields(1-3) by (simp_all add: reg_bob_def getName_def getPasswd_def wf_size_def)

lemma reg_bob_handled: "\<not> stop p \<Longrightarrow> server_handle (Some (reg_bob\<lparr>mlen := 0\<rparr>)) fd p = enqueue (RegTask reg_bob fd) p"
proof -
  have e: "reg_bob\<lparr>mlen := 0\<rparr> = reg_bob" "msgType reg_bob = 3" "mlen reg_bob = 0"
    by (simp_all add: reg_bob_def demo_login_def TransObj_default_def)
  then show ?thesis unfolding e(1) by (simp add: server_handle_def s_handleUserRegMsg_def)
qed

text \<open>A worker inserts its user and comes to ask for the id.\<close>

lemma ids_insert_steps:
  assumes c: "connList (mpool w) = conn # rest"
  shows "\<exists>w'. (prog_step ids_mysql mini_redis [])\<^sup>*\<^sup>* (reg_prog ids_mysql reg_bob fd, w)
             (reg_finish_prog ids_mysql (setFd fd reg_bob), w') \<and>
           mdb w' = mdb w @ [last (0 # mdb w) + 1] \<and> connList (mpool w') \<noteq> [] \<and> sseq w' = sseq w"
proof -
  let ?w = "w\<lparr>mpool := (mpool w)\<lparr>connList := rest @ [conn]\<rparr>\<rparr>"
  have n: "getName (setFd fd reg_bob) = Inr ''bob''" "getPasswd (setFd fd reg_bob) = Inr ''secret''"
    using reg_bob_fields(1,2) by (simp_all add: getName_def getPasswd_def setFd_def)
  obtain cmd where t: "sql_text sql_password [ArgS ''bob''] = Inr cmd" "cmd \<noteq> sql_max"
    by (simp add: sql_text_def snprintf_def sql_password_def sql_max_def cstr_def NUL_def)
  obtain cmd' where t': "sql_text sql_insert [ArgS ''bob'', ArgD (sint fd), ArgS ''secret''] = Inr cmd'"
    by (simp add: sql_text_def snprintf_def sql_insert_def)
  have q: "s_query ids_mysql sql_password [ArgS ''bob''] w = Inr (Ret (Some []), ?w)"
    using c t by (simp add: s_query_def ExecQuery_def GetConnection_def ReleaseConnection_def ids_mysql_def)
  obtain w' where i: "s_insert ids_mysql sql_insert [ArgS ''bob'', ArgD (sint fd), ArgS ''secret''] ?w = Inr (Ret True, w')"
    "mdb w' = mdb w @ [last (0 # mdb w) + 1]" "connList (mpool w') \<noteq> []" "sseq w' = sseq w"
    using t' by (cases rest) (simp_all add: s_insert_def ExecInsert_def GetConnection_def ReleaseConnection_def ids_mysql_def)
  have "(prog_step ids_mysql mini_redis [])\<^sup>*\<^sup>* (reg_prog ids_mysql reg_bob fd, w)
      (reg_finish_prog ids_mysql (setFd fd reg_bob), w')"
    unfolding reg_prog_def Let_def read_prog_def n sum.case
    by (rule query_steps [OF q]) (simp add: insert_steps [OF i(1)])
  with i(2-) show ?thesis by blast
qed

theorem registrations_share_id_witness:
  "\<exists>(s' :: (nat, s32 list, s32, nat, redis_abs) ServerSys) r1 r2.
     buff (sseq (sworld s')) = [r1, r2] \<and> tfd r1 = 8 \<and> tfd r2 = 9 \<and> tid r1 = 2 \<and> tid r2 = 2"
proof -
  obtain s where s: "server_reach ids_mysql mini_redis [] 2 4 s"
    "workers (jobs (loop s)) = [Running (RegTask reg_bob 8), Running (RegTask reg_bob 9)]"
    "sworld s = sworld ids_start" "at_call s = (\<lambda>_. None)"
    using two_running [OF ids_start_reach ids_start_def reg_bob_fields(3) reg_bob_handled
        reg_bob_fields(3) reg_bob_handled] by blast
  have up: "prepare ids_mysql conn db" for conn db by (simp add: ids_mysql_def)
  have w0: "connList (mpool (sworld s)) = [0, 0]" "mdb (sworld s) = []" "buff (sseq (sworld s)) = []"
    by (simp_all add: s(3) ids_start_def server_start_def)
  obtain w1 where 1: "(prog_step ids_mysql mini_redis [])\<^sup>*\<^sup>* (task_prog ids_mysql (RegTask reg_bob 8), sworld s)
      (reg_finish_prog ids_mysql (setFd 8 reg_bob), w1)" "mdb w1 = [1]" "connList (mpool w1) \<noteq> []"
      "sseq w1 = sseq (sworld s)"
    using ids_insert_steps [OF w0(1), of 8] w0(2) by auto
  let ?s1 = "s\<lparr>sworld := w1, at_call := (at_call s)(0 \<mapsto> reg_finish_prog ids_mysql (setFd 8 reg_bob))\<rparr>"
  have s1: "server_reach ids_mysql mini_redis [] 2 4 ?s1"
    by (rule begin_reach [OF s(1) _ _ _ 1(1) up]) (simp_all add: s(2,4))
  obtain w2 where 2: "(prog_step ids_mysql mini_redis [])\<^sup>*\<^sup>* (task_prog ids_mysql (RegTask reg_bob 9), w1)
      (reg_finish_prog ids_mysql (setFd 9 reg_bob), w2)" "mdb w2 = [1, 2]" "connList (mpool w2) \<noteq> []"
      "sseq w2 = sseq w1"
  proof -
    obtain conn rest where "connList (mpool w1) = conn # rest" using 1(3) by (cases "connList (mpool w1)") auto
    from ids_insert_steps [OF this, of 9] 1(2) that show thesis by auto
  qed
  let ?s2 = "?s1\<lparr>sworld := w2, at_call := (at_call ?s1)(1 \<mapsto> reg_finish_prog ids_mysql (setFd 9 reg_bob))\<rparr>"
  have s2: "server_reach ids_mysql mini_redis [] 2 4 ?s2"
    by (rule begin_reach [OF s1 _ _ _ _ up, where t = "RegTask reg_bob 9"]) (use 2(1) in \<open>simp_all add: s(2,4)\<close>)
  have "at_call ?s2 0 = Some (reg_finish_prog ids_mysql (setFd 8 reg_bob))"
    "at_call ?s2 1 = Some (reg_finish_prog ids_mysql (setFd 9 reg_bob))" "connList (mpool (sworld ?s2)) \<noteq> []"
    using 2(3) by simp_all
  from registrations_share_id [OF s2 zero_neq_one this(1,2) ids_serves this(3)] show ?thesis
    by (simp add: 1(4) 2(2,4) w0(3) setFd_def) metis
qed

end
