(* ===== verification/ChatService.thy ===== *)
theory ChatService
  imports HandleMsgServer
begin

text \<open>
  What the server's tasks promise together: a chat service with accounts and sessions. The
  tasks of \<^verbatim>\<open>HandleMsg.cpp\<close>, run one after the other over a database and a Redis that behave
  as documented, implement the abstract service \<open>chat\<close>: accounts are never lost or changed,
  a login is decided by the account, and messages go to the socket of the session.
\<close>

section \<open>The abstract service\<close>

text \<open>
  Accounts are kept by the key under which the database compares names (its collation), each
  with a password and an id; sessions by id, with the name and socket of the login.
\<close>

record 'k Chat =
  accounts :: "'k \<Rightarrow> (string \<times> s32) option"
  sessions :: "s32 \<Rightarrow> (string \<times> s32) option"

text \<open>A packet as its receiver sees it: the socket, the kind of message, the id and the text.\<close>

datatype answer = Answer s32 u32 s32 string

text \<open>The text of an answer to a registration and of a refused login is only shown to the user.\<close>

definition observe :: "TransObj \<Rightarrow> answer" where
  "observe obj = Answer (tfd obj) (msgType obj) (tid obj)
     (if msgType obj \<in> msgCode ` {MSG_REG_ACCEPT, MSG_REG_REFUSE, MSG_LOGIN_REFUSE} then []
      else cstr (msg obj))"

definition notice :: "s32 \<Rightarrow> MsgType \<Rightarrow> s32 \<Rightarrow> answer" where
  "notice fd kind i = Answer fd (msgCode kind) i []"

definition user_of :: "TransObj \<Rightarrow> string" where
  "user_of obj = cstr (msg obj)"

definition passwd_of :: "TransObj \<Rightarrow> string" where
  "passwd_of obj = cstr (drop NAME_MAX_LEN (msg obj))"

text \<open>
  One request. \<open>new\<close> is the id that the database gives to a new user, None when it has none.
  A login under an unknown name is accepted without a session, as the code has it.
\<close>

fun chat ::
  "(string \<Rightarrow> 'k) \<Rightarrow> s32 option \<Rightarrow> ServerTask \<Rightarrow> 'k Chat \<Rightarrow> answer list \<times> 'k Chat" where
  "chat key new (RegTask obj fd) c =
     (case (accounts c (key (user_of obj)), new) of
        (None, Some i) \<Rightarrow>
          ([notice fd MSG_REG_ACCEPT i], c\<lparr>accounts := (accounts c)(key (user_of obj) \<mapsto> (passwd_of obj, i))\<rparr>)
      | _ \<Rightarrow> ([notice fd MSG_REG_REFUSE (tid obj)], c))"
| "chat key new (LogTask obj fd) c =
     (case accounts c (key (user_of obj)) of
        None \<Rightarrow> ([Answer (tfd obj) (msgCode MSG_LOGIN_ACCEPT) (tid obj) (user_of obj)], c)
      | Some (pw, i) \<Rightarrow>
          if pw = passwd_of obj then
            ([Answer fd (msgCode MSG_LOGIN_ACCEPT) i (user_of obj)],
             c\<lparr>sessions := (sessions c)(i \<mapsto> (user_of obj, fd))\<rparr>)
          else ([notice (tfd obj) MSG_LOGIN_REFUSE (tid obj)], c))"
| "chat key new (LogOutTask obj) c = ([], c\<lparr>sessions := (sessions c)(tid obj := None)\<rparr>)"
| "chat key new (SendMsgTask obj) c =
     (if sessions c (recverId obj) = None then ([], c) else ([observe obj], c))"
| "chat key new (AskFriendTask obj fd) c =
     (case accounts c (key (user_of obj)) of
        None \<Rightarrow> ([observe (setFd fd (setMsgType (msgCode MSG_ASK_FOR_FRIEND_NOT_FOUND) obj))], c)
      | Some (_, i) \<Rightarrow>
          (case sessions c i of
             None \<Rightarrow> ([], c)
           | Some (_, f) \<Rightarrow> ([observe (setFd f obj)], c)))"
| "chat key new (AcceptFriendTask obj) c =
     (case sessions c (recverId obj) of
        None \<Rightarrow> ([], c)
      | Some (_, f) \<Rightarrow>
          ([observe (setFd f (snd (setMsg (case sessions c (tid obj) of None \<Rightarrow> [] | Some (n, _) \<Rightarrow> n) obj)))], c))"

text \<open>The database gives a new user an id above those it has given.\<close>

definition new_id :: "s32 option \<Rightarrow> 'k Chat \<Rightarrow> bool" where
  "new_id new c \<longleftrightarrow>
     (\<forall>i. new = Some i \<longrightarrow> (\<forall>k pw j. accounts c k = Some (pw, j) \<longrightarrow> sint j < sint i))"

text \<open>A run of requests, with all the packets it sends.\<close>

inductive chat_run ::
  "(string \<Rightarrow> 'k) \<Rightarrow> ServerTask list \<Rightarrow> 'k Chat \<Rightarrow> answer list \<Rightarrow> 'k Chat \<Rightarrow> bool" for key where
  idle: "chat_run key [] c [] c"
| serve: "new_id new c \<Longrightarrow> chat key new t c = (ps, c1) \<Longrightarrow> chat_run key ts c1 qs c2 \<Longrightarrow>
     chat_run key (t # ts) c (ps @ qs) c2"

inductive_simps chat_run_Nil [simp]: "chat_run key [] c ps c'"
inductive_cases chat_run_ConsE: "chat_run key (t # ts) c ps c'"

section \<open>What the abstract service keeps\<close>

text \<open>No two accounts have the same id.\<close>

definition ids_distinct :: "'k Chat \<Rightarrow> bool" where
  "ids_distinct c \<longleftrightarrow>
     (\<forall>k l pw qw i. accounts c k = Some (pw, i) \<longrightarrow> accounts c l = Some (qw, i) \<longrightarrow> k = l)"

lemma chat_accounts:
  assumes "chat key new t c = (ps, c')"
  shows "accounts c' = accounts c \<or>
    (\<exists>obj fd i. t = RegTask obj fd \<and> new = Some i \<and> accounts c (key (user_of obj)) = None \<and>
       accounts c' = (accounts c)(key (user_of obj) \<mapsto> (passwd_of obj, i)))"
  using assms by (cases t) (auto split: option.splits if_splits)

lemma chat_keeps_account:
  assumes "chat key new t c = (ps, c')" and "accounts c k = Some a"
  shows "accounts c' k = Some a"
  using chat_accounts [OF assms(1)] assms(2) by auto

lemma chat_ids_distinct:
  assumes "chat key new t c = (ps, c')" and "new_id new c" and "ids_distinct c"
  shows "ids_distinct c'"
  using chat_accounts [OF assms(1)]
proof (elim disjE exE conjE)
  assume "accounts c' = accounts c"
  with assms(3) show ?thesis by (simp add: ids_distinct_def)
next
  fix obj fd i
  assume n: "new = Some i" and a: "accounts c' = (accounts c)(key (user_of obj) \<mapsto> (passwd_of obj, i))"
  have "accounts c k \<noteq> Some (pw, i)" for k pw using assms(2) n by (auto simp: new_id_def)
  with assms(3) show ?thesis unfolding ids_distinct_def a by (auto split: if_splits)
qed

text \<open>An accepted registration has made the account.\<close>

lemma registration_accepted:
  assumes "chat key new (RegTask obj fd) c = (map observe [answer], c')"
    and "msgType answer = msgCode MSG_REG_ACCEPT"
  shows "accounts c' (key (user_of obj)) = Some (passwd_of obj, tid answer)"
  using assms by (auto simp: observe_def notice_def split: option.splits)

lemma chat_run_keeps:
  assumes "chat_run key ts c ps c'"
  shows "accounts c k = Some a \<Longrightarrow> accounts c' k = Some a" and "ids_distinct c \<Longrightarrow> ids_distinct c'"
  using assms by (induction rule: chat_run.induct) (auto dest: chat_keeps_account chat_ids_distinct)

text \<open>A session is opened by a login with the password of the account that has its id.\<close>

lemma chat_session:
  assumes "chat key new t c = (ps, c')" and "sessions c' i = Some (n, f)"
  shows "sessions c i = Some (n, f) \<or>
    (\<exists>obj. t = LogTask obj f \<and> user_of obj = n \<and> accounts c (key n) = Some (passwd_of obj, i))"
  using assms by (cases t) (auto split: option.splits if_splits)

lemma chat_run_session:
  assumes "chat_run key ts c ps c'" and "sessions c' i = Some (n, f)"
  shows "sessions c i = Some (n, f) \<or>
    (\<exists>obj. LogTask obj f \<in> set ts \<and> user_of obj = n \<and> accounts c' (key n) = Some (passwd_of obj, i))"
  using assms
proof (induction rule: chat_run.induct)
  case (serve new c t ps c1 ts qs c2)
  from serve.IH [OF serve.prems] show ?case
  proof
    assume "sessions c1 i = Some (n, f)"
    from chat_session [OF serve.hyps(2) this] show ?thesis
      using chat_keeps_account [OF serve.hyps(2)] chat_run_keeps(1) [OF serve.hyps(3)] by force
  qed auto
qed simp

section \<open>The database\<close>

text \<open>
  The documented behaviour of the statements, over the rows of the table \<open>userinfo\<close>: a
  selection by name gives the rows whose name has the same key, \<open>max\<close> gives the greatest id,
  and an insertion appends a row with an id above all others (\<open>AUTO_INCREMENT\<close>), or fails and
  changes nothing. A value is read back as it stood between its quotes; nothing is said of values
  with quotes or backslashes.
\<close>

record account =
  ac_name :: string
  ac_passwd :: string
  ac_id :: s32

definition sql_value :: "string \<Rightarrow> bool" where
  "sql_value s \<longleftrightarrow> CHR 0x27 \<notin> set s \<and> CHR 0x5C \<notin> set s \<and> NUL \<notin> set s"

definition quoted :: "string \<Rightarrow> string" where
  "quoted s = CHR 0x27 # s @ [CHR 0x27]"

definition select_text :: "string \<Rightarrow> string \<Rightarrow> string" where
  "select_text cols name = ''select '' @ cols @ '' from userinfo where username = '' @ quoted name @ '';''"

definition insert_text :: "string \<Rightarrow> s32 \<Rightarrow> string \<Rightarrow> string" where
  "insert_text name fd pw = ''insert into userinfo (username, fd, password) values('' @ quoted name @
     '', '' @ to_string (sint fd) @ '', '' @ quoted pw @ '');''"

definition named :: "(string \<Rightarrow> 'k) \<Rightarrow> string \<Rightarrow> account list \<Rightarrow> account list" where
  "named key name = filter (\<lambda>a. key (ac_name a) = key name)"

definition shows_passwd :: "('c, 'db, 'row) mysql \<Rightarrow> 'row \<Rightarrow> account \<Rightarrow> bool" where
  "shows_passwd m r a \<longleftrightarrow> getString m r ''password'' = Some (ac_passwd a)"

definition shows_id :: "('c, 'db, 'row) mysql \<Rightarrow> 'row \<Rightarrow> account \<Rightarrow> bool" where
  "shows_id m r a \<longleftrightarrow> getInt m r ''userid'' = Some (ac_id a)"

definition answers_with ::
  "('row \<Rightarrow> account \<Rightarrow> bool) \<Rightarrow> 'row list option \<Rightarrow> account list \<Rightarrow> bool" where
  "answers_with P r as \<longleftrightarrow> (\<exists>rows. r = Some rows \<and> list_all2 P rows as)"

definition db_documented ::
  "('c, 'db, 'row) mysql \<Rightarrow> (string \<Rightarrow> 'k) \<Rightarrow> ('db \<Rightarrow> account list) \<Rightarrow> bool" where
  "db_documented m key view \<longleftrightarrow>
     (\<forall>db. \<exists>conn db'. connect m db = (Some conn, db') \<and> view db' = view db) \<and>
     (\<forall>conn db. prepare m conn db) \<and>
     (\<forall>conn db name. sql_value name \<longrightarrow>
        answers_with (shows_passwd m) (executeQuery m conn (select_text ''password'' name) db)
          (named key name (view db)) \<and>
        answers_with (\<lambda>r a. shows_passwd m r a \<and> shows_id m r a)
          (executeQuery m conn (select_text ''password, userid'' name) db) (named key name (view db)) \<and>
        answers_with (shows_id m) (executeQuery m conn (select_text ''userid'' name) db)
          (named key name (view db))) \<and>
     (\<forall>conn db. view db \<noteq> [] \<longrightarrow>
        (\<exists>row a. executeQuery m conn sql_max db = Some [row] \<and> a \<in> set (view db) \<and>
           getInt m row ''id'' = Some (ac_id a) \<and> (\<forall>b \<in> set (view db). sint (ac_id b) \<le> sint (ac_id a)))) \<and>
     (\<forall>conn db name fd pw. sql_value name \<longrightarrow> sql_value pw \<longrightarrow>
        (\<exists>i db'. executeUpdate m conn (insert_text name fd pw) db = (Some 1, db') \<and>
           view db' = view db @ [\<lparr>ac_name = name, ac_passwd = pw, ac_id = i\<rparr>] \<and>
           (\<forall>b \<in> set (view db). sint (ac_id b) < sint i)) \<or>
        (\<exists>db'. executeUpdate m conn (insert_text name fd pw) db = (None, db') \<and> view db' = view db))"

lemma sql_text_whole:
  assumes "cformat fmt args = Some t" and "NUL \<notin> set t" and "length t \<le> 99"
  shows "sql_text fmt args = Inr t"
  using assms by (simp add: sql_text_def snprintf_def cstr_append_NUL)

lemma sql_texts:
  assumes "sql_value name" and "length name < 24"
  shows "sql_text sql_password [ArgS name] = Inr (select_text ''password'' name)"
    "sql_text sql_login [ArgS name] = Inr (select_text ''password, userid'' name)"
    "sql_text sql_userid [ArgS name] = Inr (select_text ''userid'' name)"
    "sql_text sql_max [] = Inr sql_max"
  using assms
  by (auto intro!: sql_text_whole
      simp: sql_password_def sql_login_def sql_userid_def sql_max_def select_text_def quoted_def sql_value_def)

lemma sql_insert_text:
  assumes "sql_value name" "sql_value pw"
    and "length name + length (to_string (sint (fd :: s32))) + length pw \<le> 36"
  shows "sql_text sql_insert [ArgS name, ArgD (sint fd), ArgS pw] = Inr (insert_text name fd pw)"
  using assms word_ok_NUL [OF word_ok_to_string, of "sint fd"]
  by (auto intro!: sql_text_whole simp: sql_insert_def insert_text_def quoted_def sql_value_def)

text \<open>A connection is there for a statement, and is given back.\<close>

definition pool_free :: "'c MysqlPool \<Rightarrow> bool" where
  "pool_free p \<longleftrightarrow> pool_counts p 0 \<and> 0 < maxSize p"

lemma connection_taken:
  assumes "db_documented m key view" and "pool_free p"
  shows "\<exists>conn p1 db1. GetConnection m p db = (Some conn, p1, db1) \<and> view db1 = view db \<and>
     pool_free (ReleaseConnection (Some conn) p1)"
proof -
  have "\<exists>conn db'. connect m d = (Some conn, db') \<and> view db' = view d" for d
    using assms(1) by (simp add: db_documented_def)
  then obtain conn0 db0 where c: "connect m db = (Some conn0, db0)" "view db0 = view db" by blast
  show ?thesis
  proof (cases "connList p")
    case Nil
    then have "curSize p < maxSize p" using assms(2) by (simp add: pool_free_def pool_counts_def)
    with Nil c assms(2) show ?thesis
      by (simp add: GetConnection_def CreateConnection_def ReleaseConnection_def pool_free_def pool_counts_def)
  next
    case (Cons x xs)
    with c assms(2) show ?thesis
      by (auto simp: GetConnection_def CreateConnection_def ReleaseConnection_def pool_free_def pool_counts_def)
  qed
qed

lemma query_answered:
  assumes "db_documented m key view" and "pool_free (mpool w)" and "sql_text fmt args = Inr t"
    and "\<And>conn db. view db = view (mdb w) \<Longrightarrow> \<exists>rows. executeQuery m conn t db = Some rows \<and> Q rows"
  shows "\<exists>rows p db. s_query m fmt args w = Inr (Ret (Some rows), w\<lparr>mpool := p, mdb := db\<rparr>) \<and> Q rows \<and>
     pool_free p \<and> view db = view (mdb w)"
proof -
  obtain conn p1 db1 where g: "GetConnection m (mpool w) (mdb w) = (Some conn, p1, db1)"
    "view db1 = view (mdb w)" "pool_free (ReleaseConnection (Some conn) p1)"
    using connection_taken [OF assms(1,2)] by blast
  moreover obtain rows where "executeQuery m conn t db1 = Some rows" "Q rows" using assms(4) g(2) by blast
  moreover have "prepare m conn db1" using assms(1) by (simp add: db_documented_def)
  ultimately show ?thesis using assms(3) by (simp add: s_query_def ExecQuery_def) blast
qed

lemma select_answered:
  assumes "db_documented m key view" and "pool_free (mpool w)" and "sql_text fmt args = Inr t"
    and "\<And>conn db. answers_with P (executeQuery m conn t db) (named key name (view db))"
  shows "\<exists>rows p db. s_query m fmt args w = Inr (Ret (Some rows), w\<lparr>mpool := p, mdb := db\<rparr>) \<and>
     list_all2 P rows (named key name (view (mdb w))) \<and> pool_free p \<and> view db = view (mdb w)"
proof (rule query_answered [OF assms(1-3)])
  fix conn db
  assume "view db = view (mdb w)"
  with assms(4) [of conn db] show "\<exists>rows. executeQuery m conn t db = Some rows \<and>
      list_all2 P rows (named key name (view (mdb w)))" by (simp add: answers_with_def)
qed

lemma selected:
  assumes "db_documented m key view" and "pool_free (mpool w)" and "sql_value name" "length name < 24"
  shows "\<exists>rows p db. s_query m sql_password [ArgS name] w = Inr (Ret (Some rows), w\<lparr>mpool := p, mdb := db\<rparr>) \<and>
      list_all2 (shows_passwd m) rows (named key name (view (mdb w))) \<and> pool_free p \<and> view db = view (mdb w)" (is ?q1)
    and "\<exists>rows p db. s_query m sql_login [ArgS name] w = Inr (Ret (Some rows), w\<lparr>mpool := p, mdb := db\<rparr>) \<and>
      list_all2 (\<lambda>r a. shows_passwd m r a \<and> shows_id m r a) rows (named key name (view (mdb w))) \<and>
      pool_free p \<and> view db = view (mdb w)" (is ?q2)
    and "\<exists>rows p db. s_query m sql_userid [ArgS name] w = Inr (Ret (Some rows), w\<lparr>mpool := p, mdb := db\<rparr>) \<and>
      list_all2 (shows_id m) rows (named key name (view (mdb w))) \<and> pool_free p \<and> view db = view (mdb w)" (is ?q3)
proof -
  have d: "answers_with (shows_passwd m) (executeQuery m conn (select_text ''password'' name) db) (named key name (view db))"
    "answers_with (\<lambda>r a. shows_passwd m r a \<and> shows_id m r a)
       (executeQuery m conn (select_text ''password, userid'' name) db) (named key name (view db))"
    "answers_with (shows_id m) (executeQuery m conn (select_text ''userid'' name) db) (named key name (view db))"
    for conn db using assms(1,3) unfolding db_documented_def by blast+
  note t = sql_texts(1-3) [OF assms(3,4)]
  show ?q1 by (rule select_answered [OF assms(1,2) t(1) d(1)])
  show ?q2 by (rule select_answered [OF assms(1,2) t(2) d(2)])
  show ?q3 by (rule select_answered [OF assms(1,2) t(3) d(3)])
qed

lemma greatest_id:
  assumes "db_documented m key view" and "pool_free (mpool w)" and "view (mdb w) = as @ [a]"
    and "\<forall>b \<in> set as. sint (ac_id b) < sint (ac_id a)"
  shows "\<exists>row p db. s_query m sql_max [] w = Inr (Ret (Some [row]), w\<lparr>mpool := p, mdb := db\<rparr>) \<and>
     getInt m row ''id'' = Some (ac_id a) \<and> pool_free p \<and> view db = view (mdb w)"
proof -
  have max: "\<exists>rows. executeQuery m conn sql_max db = Some rows \<and> (\<exists>row. rows = [row] \<and> getInt m row ''id'' = Some (ac_id a))"
    if v: "view db = view (mdb w)" for conn db
  proof -
    have "view db \<noteq> []" using v assms(3) by simp
    then obtain row b where r: "executeQuery m conn sql_max db = Some [row]" "b \<in> set (view db)"
      "getInt m row ''id'' = Some (ac_id b)" "\<forall>c \<in> set (view db). sint (ac_id c) \<le> sint (ac_id b)"
      using assms(1) unfolding db_documented_def by meson
    then have "sint (ac_id a) \<le> sint (ac_id b)" "b = a \<or> b \<in> set as" using v assms(3) by auto
    with assms(4) have "b = a" by force
    with r show ?thesis by simp
  qed
  have "sql_text sql_max [] = Inr sql_max" using sql_texts(4) [of "[]"] by (simp add: sql_value_def)
  from query_answered [OF assms(1,2) this max] show ?thesis by auto
qed

lemma inserted:
  assumes "db_documented m key view" and "pool_free (mpool w)" and "sql_value name" "sql_value pw"
    and "length name + length (to_string (sint (fd :: s32))) + length pw \<le> 36"
  shows "\<exists>ok p db. s_insert m sql_insert [ArgS name, ArgD (sint fd), ArgS pw] w =
       Inr (Ret ok, w\<lparr>mpool := p, mdb := db\<rparr>) \<and> pool_free p \<and>
     (ok \<longrightarrow> (\<exists>i. view db = view (mdb w) @ [\<lparr>ac_name = name, ac_passwd = pw, ac_id = i\<rparr>] \<and>
          (\<forall>b \<in> set (view (mdb w)). sint (ac_id b) < sint i))) \<and>
     (\<not> ok \<longrightarrow> view db = view (mdb w))"
proof -
  obtain conn p1 db1 where g: "GetConnection m (mpool w) (mdb w) = (Some conn, p1, db1)"
    "view db1 = view (mdb w)" "pool_free (ReleaseConnection (Some conn) p1)"
    using connection_taken [OF assms(1,2)] by blast
  have p: "prepare m conn db1" using assms(1) by (simp add: db_documented_def)
  note t = sql_insert_text [OF assms(3-5)]
  from assms(1,3,4) consider (added) i db2 where "executeUpdate m conn (insert_text name fd pw) db1 = (Some 1, db2)"
      "view db2 = view db1 @ [\<lparr>ac_name = name, ac_passwd = pw, ac_id = i\<rparr>]"
      "\<forall>b \<in> set (view db1). sint (ac_id b) < sint i"
    | (failed) db2 where "executeUpdate m conn (insert_text name fd pw) db1 = (None, db2)" "view db2 = view db1"
    unfolding db_documented_def by meson
  then show ?thesis
  proof cases
    case added
    with g p t have "s_insert m sql_insert [ArgS name, ArgD (sint fd), ArgS pw] w =
        Inr (Ret True, w\<lparr>mpool := ReleaseConnection (Some conn) p1, mdb := db2\<rparr>)"
      by (simp add: s_insert_def ExecInsert_def)
    with g(2,3) added(2,3) show ?thesis by (intro exI [of _ True]) auto
  next
    case failed
    with g p t have "s_insert m sql_insert [ArgS name, ArgD (sint fd), ArgS pw] w =
        Inr (Ret False, w\<lparr>mpool := ReleaseConnection (Some conn) p1, mdb := db2\<rparr>)"
      by (simp add: s_insert_def ExecInsert_def)
    with g(2,3) failed(2) show ?thesis by (intro exI [of _ False]) auto
  qed
qed

section \<open>The state as the service sees it\<close>

definition accounts_of :: "(string \<Rightarrow> 'k) \<Rightarrow> account list \<Rightarrow> 'k \<Rightarrow> (string \<times> s32) option" where
  "accounts_of key rows k =
     map_option (\<lambda>a. (cstr (ac_passwd a), ac_id a)) (find (\<lambda>a. key (ac_name a) = k) rows)"

definition sessions_of :: "redis_abs \<Rightarrow> s32 \<Rightarrow> (string \<times> s32) option" where
  "sessions_of A i = (if session_online i A then Some (session_name i A, session_fd i A) else None)"

definition chat_of ::
  "(string \<Rightarrow> 'k) \<Rightarrow> ('db \<Rightarrow> account list) \<Rightarrow> ('rd \<Rightarrow> redis_abs) \<Rightarrow> ('c, 'db, 'x, 'rd) ServerWorld \<Rightarrow> 'k Chat"
where
  "chat_of key view rview w =
     \<lparr>accounts = accounts_of key (view (mdb w)), sessions = sessions_of (rview (rworld w))\<rparr>"

text \<open>A user without a session has no name in the registry, and names fit a message's name field.\<close>

definition names_ok :: "redis_abs \<Rightarrow> bool" where
  "names_ok A \<longleftrightarrow>
     (\<forall>i. length (session_name i A) < 24 \<and> NUL \<notin> set (session_name i A) \<and>
        (\<not> session_online i A \<longrightarrow> session_name i A = []))"

definition service_up ::
  "('c, 'db, 'row) mysql \<Rightarrow> (string \<Rightarrow> 'k) \<Rightarrow> ('db \<Rightarrow> account list) \<Rightarrow> ('x, 'rd) redis \<Rightarrow>
   ('rd \<Rightarrow> redis_abs) \<Rightarrow> ('c, 'db, 'x, 'rd) ServerWorld \<Rightarrow> bool" where
  "service_up m key view ra rview w \<longleftrightarrow>
     db_documented m key view \<and> pool_free (mpool w) \<and> redis_up ra rview w \<and> names_ok (rview (rworld w))"

lemma accounts_of_named:
  "named key name rows = [] \<longleftrightarrow> accounts_of key rows (key name) = None"
  "named key name rows = a # as \<Longrightarrow> accounts_of key rows (key name) = Some (cstr (ac_passwd a), ac_id a)"
  by (induction rows) (auto simp: named_def accounts_of_def)

lemma accounts_of_snoc:
  "accounts_of key rows (key (ac_name a)) = None \<Longrightarrow>
   accounts_of key (rows @ [a]) = (accounts_of key rows)(key (ac_name a) \<mapsto> (cstr (ac_passwd a), ac_id a))"
  by (induction rows) (auto simp: accounts_of_def fun_eq_iff split: if_splits)

lemma accounts_of_id: "accounts_of key rows k = Some (pw, i) \<Longrightarrow> \<exists>a \<in> set rows. ac_id a = i"
  by (induction rows) (auto simp: accounts_of_def split: if_splits)

lemma session_name_other:
  "session_name j (session_add i name fd A) = (if j = i then name else session_name j A)"
  "session_name j (session_remove i A) = (if j = i then [] else session_name j A)"
  by (simp_all add: session_name_def session_add_def session_remove_def Let_def to_string_s32_inj)

lemma sessions_of_add: "sessions_of (session_add i name fd A) = (sessions_of A)(i \<mapsto> (name, fd))"
proof
  fix j
  show "sessions_of (session_add i name fd A) j = ((sessions_of A)(i \<mapsto> (name, fd))) j"
    by (cases "j = i") (simp_all add: sessions_of_def session_after session_other session_name_other)
qed

lemma sessions_of_remove: "sessions_of (session_remove i A) = (sessions_of A)(i := None)"
proof
  fix j
  show "sessions_of (session_remove i A) j = ((sessions_of A)(i := None)) j"
    by (cases "j = i") (simp_all add: sessions_of_def session_after session_other session_name_other)
qed

lemma names_ok_add: "names_ok A \<Longrightarrow> length name < 24 \<Longrightarrow> NUL \<notin> set name \<Longrightarrow> names_ok (session_add i name fd A)"
proof -
  assume a: "names_ok A" "length name < 24" "NUL \<notin> set name"
  have "session_online j (session_add i name fd A) \<longleftrightarrow> j = i \<or> session_online j A" for j
    by (cases "j = i") (simp_all add: session_after session_other)
  with a show ?thesis by (auto simp: names_ok_def session_name_other)
qed

lemma names_ok_remove: "names_ok A \<Longrightarrow> names_ok (session_remove i A)"
proof -
  assume a: "names_ok A"
  have "session_online j (session_remove i A) \<longleftrightarrow> j \<noteq> i \<and> session_online j A" for j
    by (cases "j = i") (simp_all add: session_after session_other)
  with a show ?thesis by (auto simp: names_ok_def session_name_other)
qed

text \<open>What the registry's getters report.\<close>

lemma s_com_session_fd:
  assumes "redis_up ra view w"
  shows "\<exists>w'. s_com (getTalkerFd ra pw i) w = Inr (session_fd i (view (rworld w)), w') \<and>
     redis_up ra view w' \<and> view (rworld w') = view (rworld w) \<and> sseq w' = sseq w \<and>
     mpool w' = mpool w \<and> mdb w' = mdb w"
proof -
  obtain k' rd' where "getTalkerFd ra pw i (rclient w) (rworld w) = Inr (session_fd i (view (rworld w)), k', rd')"
      "connected k'" "view rd' = view (rworld w)"
    using assms fd_refines [of ra view "rclient w" "rworld w" pw i] by (auto simp: redis_up_def session_fd_def)
  with assms show ?thesis by (simp add: s_com_def redis_up_def)
qed

lemma s_com_session_name:
  assumes "redis_up ra view w"
  shows "\<exists>w'. s_com (getTalkerName ra pw i) w = Inr (Some (session_name i (view (rworld w))), w') \<and>
     redis_up ra view w' \<and> view (rworld w') = view (rworld w) \<and> sseq w' = sseq w \<and>
     mpool w' = mpool w \<and> mdb w' = mdb w"
proof -
  obtain k' rd' where "getTalkerName ra pw i (rclient w) (rworld w) =
      Inr (Some (session_name i (view (rworld w))), k', rd')" "connected k'" "view rd' = view (rworld w)"
    using assms name_refines [of ra view "rclient w" "rworld w" pw i] by (auto simp: redis_up_def session_name_def)
  with assms show ?thesis by (simp add: s_com_def redis_up_def)
qed

section \<open>Each task implements its request\<close>

text \<open>The messages for which the service promises anything.\<close>

fun task_sound :: "ServerTask \<Rightarrow> bool" where
  "task_sound (RegTask obj fd) \<longleftrightarrow>
     NUL \<in> set (drop 24 (msg obj)) \<and> sql_value (user_of obj) \<and> length (user_of obj) < 24 \<and>
     sql_value (passwd_of obj) \<and>
     length (user_of obj) + length (to_string (sint fd)) + length (passwd_of obj) \<le> 36"
| "task_sound (LogTask obj fd) \<longleftrightarrow>
     NUL \<in> set (drop 24 (msg obj)) \<and> unat (mlen obj) \<le> 64 \<and> sql_value (user_of obj) \<and>
     word_ok (user_of obj) \<and> length (user_of obj) < 24"
| "task_sound (AskFriendTask obj fd) \<longleftrightarrow>
     NUL \<in> set (msg obj) \<and> sql_value (user_of obj) \<and> length (user_of obj) < 24"
| "task_sound (AcceptFriendTask obj) \<longleftrightarrow> wf_size obj"
| "task_sound _ \<longleftrightarrow> True"

definition serves ::
  "('c, 'db, 'row) mysql \<Rightarrow> ('x, 'rd) redis \<Rightarrow> string \<Rightarrow> ServerTask \<Rightarrow> ('c, 'db, 'x, 'rd) ServerWorld \<Rightarrow>
   TransObj list \<Rightarrow> ('c, 'db, 'x, 'rd) ServerWorld \<Rightarrow> bool" where
  "serves m ra pw t w objs w' \<longleftrightarrow>
     (\<exists>n. run_task m ra pw t w = Inr (Done n, w')) \<and>
     sseq w' = (sseq w)\<lparr>buff := buff (sseq w) @ objs\<rparr>"

lemma reads:
  assumes "NUL \<in> set (drop 24 (msg obj))"
  shows "getName obj = Inr (user_of obj)" "getPasswd obj = Inr (passwd_of obj)"
  using assms in_set_dropD [OF assms] by (simp_all add: getName_def getPasswd_def read_cstr_def user_of_def passwd_of_def NAME_MAX_LEN_def)

lemma user_of_setters [simp]: "user_of (setFd fd obj) = user_of obj" "passwd_of (setFd fd obj) = passwd_of obj"
  by (simp_all add: user_of_def passwd_of_def setFd_def)

lemma pushBuff_buff: "pushBuff obj q = q\<lparr>buff := buff q @ [obj]\<rparr>"
  by (simp add: pushBuff_def cq_push_def)

lemma observe_refusal:
  "observe (snd (setMsg s (setMsgType (msgCode MSG_REG_REFUSE) obj))) = notice (tfd obj) MSG_REG_REFUSE (tid obj)"
  "observe (snd (setMsg s (setMsgType (msgCode MSG_LOGIN_REFUSE) obj))) = notice (tfd obj) MSG_LOGIN_REFUSE (tid obj)"
  "observe (snd (setMsg s (setId i (setMsgType (msgCode MSG_REG_ACCEPT) obj)))) = notice (tfd obj) MSG_REG_ACCEPT i"
  by (simp_all add: observe_def notice_def setMsg_def clearMsg_def Let_def setMsgType_def setId_def)

text \<open>A task serves its request when it goes through, leaves the service up and does what \<open>chat\<close> does.\<close>

definition implements ::
  "('c, 'db, 'row) mysql \<Rightarrow> (string \<Rightarrow> 'k) \<Rightarrow> ('db \<Rightarrow> account list) \<Rightarrow> ('x, 'rd) redis \<Rightarrow>
   ('rd \<Rightarrow> redis_abs) \<Rightarrow> string \<Rightarrow> ServerTask \<Rightarrow> ('c, 'db, 'x, 'rd) ServerWorld \<Rightarrow> bool" where
  "implements m key view ra rview pw t w \<longleftrightarrow>
     (\<exists>objs w' new. serves m ra pw t w objs w' \<and> service_up m key view ra rview w' \<and>
        new_id new (chat_of key view rview w) \<and>
        chat key new t (chat_of key view rview w) = (map observe objs, chat_of key view rview w'))"

lemma new_id_None [simp]: "new_id None c"
  by (simp add: new_id_def)

lemma implements_intro:
  assumes "run_task m ra pw t w = Inr (Done n, w')" "sseq w' = (sseq w)\<lparr>buff := buff (sseq w) @ objs\<rparr>"
    and "service_up m key view ra rview w'" "new_id new (chat_of key view rview w)"
    and "chat key new t (chat_of key view rview w) = (map observe objs, chat_of key view rview w')"
  shows "implements m key view ra rview pw t w"
  using assms unfolding implements_def serves_def by blast

lemma implements_logout:
  assumes up: "service_up m key view ra rview w"
  shows "implements m key view ra rview pw (LogOutTask obj) w"
proof -
  have r: "redis_up ra rview w" using up by (simp add: service_up_def)
  obtain w1 where 1: "s_com (removeSessionTalker ra pw (tid obj)) w = Inr (True, w1)" "redis_up ra rview w1"
    "rview (rworld w1) = session_remove (tid obj) (rview (rworld w))" "sseq w1 = sseq w"
    "mpool w1 = mpool w" "mdb w1 = mdb w"
    using s_com_remove [OF r] by blast
  show ?thesis
  proof (rule implements_intro [where w' = w1 and objs = "[]" and new = None and n = 0])
    show "service_up m key view ra rview w1" using up 1 by (simp add: service_up_def names_ok_remove)
  qed (use 1 in \<open>simp_all add: logout_task_def chat_of_def sessions_of_remove\<close>)
qed

lemma implements_send:
  assumes up: "service_up m key view ra rview w"
  shows "implements m key view ra rview pw (SendMsgTask obj) w"
proof -
  have r: "redis_up ra rview w" using up by (simp add: service_up_def)
  let ?on = "session_online (recverId obj) (rview (rworld w))"
  obtain w1 where 1: "s_com (isTalkerOnline ra pw (recverId obj)) w = Inr (?on, w1)" "redis_up ra rview w1"
    "rview (rworld w1) = rview (rworld w)" "sseq w1 = sseq w" "mpool w1 = mpool w" "mdb w1 = mdb w"
    using s_com_online [OF r] by blast
  let ?w' = "if ?on then reply_obj obj w1 else w1"
  show ?thesis
  proof (rule implements_intro [where w' = ?w' and objs = "if ?on then [obj] else []" and new = None and n = 0])
    show "service_up m key view ra rview ?w'" using up 1 by (simp add: service_up_def redis_up_def)
  qed (use 1 in \<open>simp_all add: send_task_def chat_of_def sessions_of_def pushBuff_buff\<close>)
qed

lemma implements_accept:
  assumes up: "service_up m key view ra rview w" and size: "wf_size obj"
  shows "implements m key view ra rview pw (AcceptFriendTask obj) w"
proof -
  let ?A = "rview (rworld w)"
  have r: "redis_up ra rview w" and names: "names_ok ?A" using up by (simp_all add: service_up_def)
  let ?on = "session_online (recverId obj) ?A"
  obtain w1 where 1: "s_com (isTalkerOnline ra pw (recverId obj)) w = Inr (?on, w1)" "redis_up ra rview w1"
    "rview (rworld w1) = ?A" "sseq w1 = sseq w" "mpool w1 = mpool w" "mdb w1 = mdb w"
    using s_com_online [OF r] by blast
  show ?thesis
  proof (cases ?on)
    case False
    show ?thesis
    proof (rule implements_intro [where w' = w1 and objs = "[]" and new = None and n = "-1"])
      show "service_up m key view ra rview w1" using up 1 by (simp add: service_up_def)
    qed (use 1 False in \<open>simp_all add: accept_task_def chat_of_def sessions_of_def\<close>)
  next
    case True
    let ?fd = "session_fd (recverId obj) ?A" and ?name = "session_name (tid obj) ?A"
    obtain w2 where 2: "s_com (getTalkerFd ra pw (recverId obj)) w1 = Inr (?fd, w2)" "redis_up ra rview w2"
      "rview (rworld w2) = ?A" "sseq w2 = sseq w" "mpool w2 = mpool w" "mdb w2 = mdb w"
      using s_com_session_fd [OF 1(2), of pw "recverId obj"] 1 by auto
    obtain w3 where 3: "s_com (getTalkerName ra pw (tid obj)) w2 = Inr (Some ?name, w3)" "redis_up ra rview w3"
      "rview (rworld w3) = ?A" "sseq w3 = sseq w" "mpool w3 = mpool w" "mdb w3 = mdb w"
      using s_com_session_name [OF 2(2), of pw "tid obj"] 2 by auto
    have len: "length ?name < 24" using names by (simp add: names_ok_def)
    have name: "(case sessions_of ?A (tid obj) of None \<Rightarrow> [] | Some (n, _) \<Rightarrow> n) = ?name"
      using names by (simp add: names_ok_def sessions_of_def)
    let ?obj = "snd (setMsg ?name (setFd ?fd obj))"
    have o: "?obj = setFd ?fd (snd (setMsg ?name obj))"
      by (simp add: setFd_def setMsg_def clearMsg_def Let_def)
    show ?thesis
    proof (rule implements_intro [where w' = "reply_obj ?obj w3" and objs = "[?obj]" and new = None and n = 1])
      show "service_up m key view ra rview (reply_obj ?obj w3)" using up 3 by (simp add: service_up_def redis_up_def)
      show "run_task m ra pw (AcceptFriendTask obj) w = Inr (Done 1, reply_obj ?obj w3)"
        using True 1 2 3 len by (simp add: accept_task_def Let_def NAME_MAX_LEN_def setFd_def)
      show "chat key None (AcceptFriendTask obj) (chat_of key view rview w) =
          (map observe [?obj], chat_of key view rview (reply_obj ?obj w3))"
        using True 3 name by (simp add: chat_of_def sessions_of_def o)
    qed (use 3 in \<open>simp_all add: pushBuff_buff\<close>)
  qed
qed

lemma service_up_db:
  assumes "service_up m key view ra rview w" and "pool_free p"
  shows "service_up m key view ra rview (w\<lparr>mpool := p, mdb := db\<rparr>)"
    "service_up m key view ra rview (reply_obj obj (w\<lparr>mpool := p, mdb := db\<rparr>))"
  using assms by (simp_all add: service_up_def redis_up_def)

lemma chat_of_db:
  "view db = view (mdb w) \<Longrightarrow> chat_of key view rview (w\<lparr>mpool := p, mdb := db\<rparr>) = chat_of key view rview w"
  "chat_of key view rview (reply_obj obj w) = chat_of key view rview w"
  by (simp_all add: chat_of_def)

lemma implements_login:
  assumes up: "service_up m key view ra rview w" and sound: "task_sound (LogTask obj fd)"
  shows "implements m key view ra rview pw (LogTask obj fd) w"
proof -
  let ?name = "user_of obj" and ?rows = "view (mdb w)"
  have r: "getName obj = Inr ?name" "getPasswd obj = Inr (passwd_of obj)" using sound reads by simp_all
  have up': "db_documented m key view" "pool_free (mpool w)" "redis_up ra rview w" "names_ok (rview (rworld w))"
    using up by (simp_all add: service_up_def)
  obtain rows p db where q: "s_query m sql_login [ArgS ?name] w = Inr (Ret (Some rows), w\<lparr>mpool := p, mdb := db\<rparr>)"
    "list_all2 (\<lambda>r a. shows_passwd m r a \<and> shows_id m r a) rows (named key ?name ?rows)"
    "pool_free p" "view db = ?rows"
    using selected(2) [OF up'(1,2), of ?name] sound by auto
  let ?w1 = "w\<lparr>mpool := p, mdb := db\<rparr>"
  have len: "\<not> 64 < unat (mlen obj)" using sound by simp
  show ?thesis
  proof (cases "named key ?name ?rows")
    case Nil
    let ?obj = "setMsgType (msgCode MSG_LOGIN_ACCEPT) obj"
    have a: "accounts_of key ?rows (key ?name) = None" using Nil by (simp add: accounts_of_named)
    show ?thesis
    proof (rule implements_intro [where w' = "reply_obj ?obj ?w1" and objs = "[?obj]" and new = None and n = 1])
      show "run_task m ra pw (LogTask obj fd) w = Inr (Done 1, reply_obj ?obj ?w1)"
        using r q Nil len by (simp add: login_task_def MAX_TRANS_MSG_LEN_def login_accept_def)
      show "chat key None (LogTask obj fd) (chat_of key view rview w) =
          (map observe [?obj], chat_of key view rview (reply_obj ?obj ?w1))"
        using a q(4) by (simp add: chat_of_def observe_def setMsgType_def user_of_def)
    qed (use service_up_db(2) [OF up q(3)] in \<open>simp_all add: pushBuff_buff\<close>)
  next
    case (Cons acc rest)
    then obtain row rows' where rows: "rows = row # rows'" "getString m row ''password'' = Some (ac_passwd acc)"
      "getInt m row ''userid'' = Some (ac_id acc)"
      using q(2) by (auto simp: list_all2_Cons2 shows_passwd_def shows_id_def)
    have a: "accounts_of key ?rows (key ?name) = Some (cstr (ac_passwd acc), ac_id acc)"
      using accounts_of_named(2) [OF Cons] .
    show ?thesis
    proof (cases "cstr (ac_passwd acc) = passwd_of obj")
      case False
      let ?obj = "snd (setMsg (''Login err! password not equal!'' @ [CHR 0x0A])
        (setMsgType (msgCode MSG_LOGIN_REFUSE) obj))"
      show ?thesis
      proof (rule implements_intro [where w' = "reply_obj ?obj ?w1" and objs = "[?obj]" and new = None and n = 0])
        show "run_task m ra pw (LogTask obj fd) w = Inr (Done 0, reply_obj ?obj ?w1)"
          using r q rows False len by (simp add: login_task_def MAX_TRANS_MSG_LEN_def login_refuse_def)
        show "chat key None (LogTask obj fd) (chat_of key view rview w) =
            (map observe [?obj], chat_of key view rview (reply_obj ?obj ?w1))"
          using a q(4) False by (simp add: chat_of_def observe_refusal del: msgCode.simps)
      qed (use service_up_db(2) [OF up q(3)] in \<open>simp_all add: pushBuff_buff\<close>)
    next
      case True
      let ?obj = "setMsgType (msgCode MSG_LOGIN_ACCEPT) (setFd fd (setId (ac_id acc) obj))"
      have up1: "redis_up ra rview ?w1" using up'(3) by (simp add: redis_up_def)
      have n: "word_ok ?name" "length ?name \<le> 61" "length ?name < 24" "NUL \<notin> set ?name"
        using sound by (simp_all add: sql_value_def)
      obtain w2 where 2: "s_com (addSessionTalker ra pw (ac_id acc) ?name fd) ?w1 = Inr (True, w2)"
        "redis_up ra rview w2" "rview (rworld w2) = session_add (ac_id acc) ?name fd (rview (rworld w))"
        "sseq w2 = sseq w" "mpool w2 = p" "mdb w2 = db"
        using s_com_add [OF up1 n(1,2), of pw "ac_id acc" fd] by auto
      show ?thesis
      proof (rule implements_intro [where w' = "reply_obj ?obj w2" and objs = "[?obj]" and new = None and n = 1])
        show "run_task m ra pw (LogTask obj fd) w = Inr (Done 1, reply_obj ?obj w2)"
          using r q rows True len 2
          by (simp add: login_task_def MAX_TRANS_MSG_LEN_def login_accept_def Let_def setFd_def setId_def)
        show "service_up m key view ra rview (reply_obj ?obj w2)"
          using up' 2 q(3) n names_ok_add [OF up'(4) n(3,4)] by (simp add: service_up_def redis_up_def)
        show "chat key None (LogTask obj fd) (chat_of key view rview w) =
            (map observe [?obj], chat_of key view rview (reply_obj ?obj w2))"
          using a q(4) True 2
          by (simp add: chat_of_def observe_def setter_defs user_of_def sessions_of_add)
      qed (use 2 in \<open>simp_all add: pushBuff_buff\<close>)
    qed
  qed
qed

lemma implements_ask:
  assumes up: "service_up m key view ra rview w" and sound: "task_sound (AskFriendTask obj fd)"
  shows "implements m key view ra rview pw (AskFriendTask obj fd) w"
proof -
  let ?name = "user_of obj" and ?rows = "view (mdb w)" and ?A = "rview (rworld w)"
  have r: "read_cstr (msg obj) = Inr ?name" using sound by (simp add: read_cstr_def user_of_def)
  have up': "db_documented m key view" "pool_free (mpool w)" "redis_up ra rview w"
    using up by (simp_all add: service_up_def)
  obtain rows p db where q: "s_query m sql_userid [ArgS ?name] w = Inr (Ret (Some rows), w\<lparr>mpool := p, mdb := db\<rparr>)"
    "list_all2 (shows_id m) rows (named key ?name ?rows)" "pool_free p" "view db = ?rows"
    using selected(3) [OF up'(1,2), of ?name] sound by auto
  let ?w1 = "w\<lparr>mpool := p, mdb := db\<rparr>"
  have up1: "redis_up ra rview ?w1" using up'(3) by (simp add: redis_up_def)
  show ?thesis
  proof (cases "named key ?name ?rows")
    case Nil
    let ?obj = "setFd fd (setMsgType (msgCode MSG_ASK_FOR_FRIEND_NOT_FOUND) obj)"
    have a: "accounts_of key ?rows (key ?name) = None" using Nil by (simp add: accounts_of_named)
    show ?thesis
    proof (rule implements_intro [where w' = "reply_obj ?obj ?w1" and objs = "[?obj]" and new = None and n = 0])
      show "run_task m ra pw (AskFriendTask obj fd) w = Inr (Done 0, reply_obj ?obj ?w1)"
        using r q Nil by (simp add: ask_task_def)
      show "chat key None (AskFriendTask obj fd) (chat_of key view rview w) =
          (map observe [?obj], chat_of key view rview (reply_obj ?obj ?w1))"
        using a q(4) by (simp add: chat_of_def)
    qed (use service_up_db(2) [OF up q(3)] in \<open>simp_all add: pushBuff_buff\<close>)
  next
    case (Cons acc rest)
    then obtain row rows' where rows: "rows = row # rows'" "getInt m row ''userid'' = Some (ac_id acc)"
      using q(2) by (auto simp: list_all2_Cons2 shows_id_def)
    have a: "accounts_of key ?rows (key ?name) = Some (cstr (ac_passwd acc), ac_id acc)"
      using accounts_of_named(2) [OF Cons] .
    let ?i = "ac_id acc"
    obtain w2 where 2: "s_com (isTalkerOnline ra pw ?i) ?w1 = Inr (session_online ?i ?A, w2)"
      "redis_up ra rview w2" "rview (rworld w2) = ?A" "sseq w2 = sseq w" "mpool w2 = p" "mdb w2 = db"
      using s_com_online [OF up1, of pw ?i] by auto
    show ?thesis
    proof (cases "session_online ?i ?A")
      case False
      show ?thesis
      proof (rule implements_intro [where w' = w2 and objs = "[]" and new = None and n = 0])
        show "service_up m key view ra rview w2" using up 2 q(3) by (simp add: service_up_def redis_up_def)
      qed (use r q rows 2 False a in \<open>simp_all add: ask_task_def Let_def chat_of_def sessions_of_def\<close>)
    next
      case True
      let ?obj = "obj\<lparr>recverId := ?i, tfd := session_fd ?i ?A\<rparr>"
      obtain w3 where 3: "s_com (getTalkerFd ra pw ?i) w2 = Inr (session_fd ?i ?A, w3)"
        "redis_up ra rview w3" "rview (rworld w3) = ?A" "sseq w3 = sseq w" "mpool w3 = p" "mdb w3 = db"
        using s_com_session_fd [OF 2(2), of pw ?i] 2 by auto
      show ?thesis
      proof (rule implements_intro [where w' = "reply_obj ?obj w3" and objs = "[?obj]" and new = None and n = 1])
        show "run_task m ra pw (AskFriendTask obj fd) w = Inr (Done 1, reply_obj ?obj w3)"
          using r q rows 2 3 True by (simp add: ask_task_def Let_def)
        show "service_up m key view ra rview (reply_obj ?obj w3)"
          using up 3 q(3) by (simp add: service_up_def redis_up_def)
        show "chat key None (AskFriendTask obj fd) (chat_of key view rview w) =
            (map observe [?obj], chat_of key view rview (reply_obj ?obj w3))"
          using a q(4) True 3 by (simp add: chat_of_def sessions_of_def observe_def setFd_def)
      qed (use 3 in \<open>simp_all add: pushBuff_buff\<close>)
    qed
  qed
qed

lemma implements_reg:
  assumes up: "service_up m key view ra rview w" and sound: "task_sound (RegTask obj fd)"
  shows "implements m key view ra rview pw (RegTask obj fd) w"
proof -
  let ?name = "user_of obj" and ?rows = "view (mdb w)" and ?obj = "setFd fd obj" and ?pw = "passwd_of obj"
  have "NUL \<in> set (drop 24 (msg ?obj))" using sound by (simp add: setFd_def)
  from reads [OF this] have r: "getName ?obj = Inr ?name" "getPasswd ?obj = Inr ?pw" by simp_all
  have up': "db_documented m key view" "pool_free (mpool w)" using up by (simp_all add: service_up_def)
  have ids: "tfd ?obj = fd" "tid ?obj = tid obj" by (simp_all add: setFd_def)
  obtain rows p db where q: "s_query m sql_password [ArgS ?name] w = Inr (Ret (Some rows), w\<lparr>mpool := p, mdb := db\<rparr>)"
    "list_all2 (shows_passwd m) rows (named key ?name ?rows)" "pool_free p" "view db = ?rows"
    using selected(1) [OF up', of ?name] sound by auto
  let ?w1 = "w\<lparr>mpool := p, mdb := db\<rparr>"
  define refuse where "refuse s = snd (setMsg s (setMsgType (msgCode MSG_REG_REFUSE) ?obj))" for s
  have refused: "observe (refuse s) = notice fd MSG_REG_REFUSE (tid obj)" for s
    unfolding refuse_def observe_refusal ids ..
  show ?thesis
  proof (cases "named key ?name ?rows")
    case (Cons acc rest)
    let ?o = "refuse ''regin err! name reg exists already!''"
    have a: "accounts_of key ?rows (key ?name) \<noteq> None"
      unfolding accounts_of_named(1) [symmetric] Cons by simp
    show ?thesis
    proof (rule implements_intro [where w' = "reply_obj ?o ?w1" and objs = "[?o]" and new = None and n = 0])
      show "run_task m ra pw (RegTask obj fd) w = Inr (Done 0, reply_obj ?o ?w1)"
        using r q Cons by (auto simp: reg_task_def Let_def refuse_def list_all2_Cons2)
      show "chat key None (RegTask obj fd) (chat_of key view rview w) =
          (map observe [?o], chat_of key view rview (reply_obj ?o ?w1))"
        using a q(4) refused by (auto simp: chat_of_def)
    qed (use service_up_db(2) [OF up q(3)] in \<open>simp_all add: pushBuff_buff\<close>)
  next
    case Nil
    have a: "accounts_of key ?rows (key ?name) = None" using Nil by (simp add: accounts_of_named)
    have fits: "sql_value ?name" "sql_value ?pw"
      "length ?name + length (to_string (sint fd)) + length ?pw \<le> 36" using sound by simp_all
    have "pool_free (mpool ?w1)" using q(3) by simp
    from inserted [OF up'(1) this fits] q(4) obtain ok p2 db2
      where i: "s_insert m sql_insert [ArgS ?name, ArgD (sint fd), ArgS ?pw] ?w1 =
          Inr (Ret ok, ?w1\<lparr>mpool := p2, mdb := db2\<rparr>)" "pool_free p2"
        "ok \<longrightarrow> (\<exists>i. view db2 = ?rows @ [\<lparr>ac_name = ?name, ac_passwd = ?pw, ac_id = i\<rparr>] \<and>
            (\<forall>b \<in> set ?rows. sint (ac_id b) < sint i))" "\<not> ok \<longrightarrow> view db2 = ?rows" by auto
    let ?w2 = "w\<lparr>mpool := p2, mdb := db2\<rparr>"
    have w2: "?w1\<lparr>mpool := p2, mdb := db2\<rparr> = ?w2" by simp
    show ?thesis
    proof (cases ok)
      case False
      let ?o = "refuse (''regin err! insert error!'' @ [CHR 0x0A])"
      have v: "view db2 = ?rows" using i(4) False by simp
      show ?thesis
      proof (rule implements_intro [where w' = "reply_obj ?o ?w2" and objs = "[?o]" and new = None and n = 0])
        show "run_task m ra pw (RegTask obj fd) w = Inr (Done 0, reply_obj ?o ?w2)"
          using r q Nil i(1) False by (simp add: reg_task_def Let_def refuse_def)
        show "chat key None (RegTask obj fd) (chat_of key view rview w) =
            (map observe [?o], chat_of key view rview (reply_obj ?o ?w2))"
          using a v refused by (simp add: chat_of_def)
      qed (use service_up_db(2) [OF up i(2)] in \<open>simp_all add: pushBuff_buff\<close>)
    next
      case True
      with i(3) obtain j where j: "view db2 = ?rows @ [\<lparr>ac_name = ?name, ac_passwd = ?pw, ac_id = j\<rparr>]"
        "\<forall>b \<in> set ?rows. sint (ac_id b) < sint j" by auto
      have up2: "pool_free (mpool ?w2)" "view (mdb ?w2) = ?rows @ [\<lparr>ac_name = ?name, ac_passwd = ?pw, ac_id = j\<rparr>]"
        using i(2) j(1) by simp_all
      have "\<forall>b \<in> set ?rows. sint (ac_id b) < sint (ac_id \<lparr>ac_name = ?name, ac_passwd = ?pw, ac_id = j\<rparr>)"
        using j(2) by simp
      from greatest_id [OF up'(1) up2 this] j(1) obtain row p3 db3
        where g: "s_query m sql_max [] ?w2 = Inr (Ret (Some [row]), ?w2\<lparr>mpool := p3, mdb := db3\<rparr>)"
          "getInt m row ''id'' = Some j" "pool_free p3"
          "view db3 = ?rows @ [\<lparr>ac_name = ?name, ac_passwd = ?pw, ac_id = j\<rparr>]" by auto
      let ?w3 = "w\<lparr>mpool := p3, mdb := db3\<rparr>"
      let ?o = "snd (setMsg (''regin accepted! '' @ [CHR 0x0A]) (setId j (setMsgType (msgCode MSG_REG_ACCEPT) ?obj)))"
      have acc: "observe ?o = notice fd MSG_REG_ACCEPT j" unfolding observe_refusal ids ..
      have pw: "cstr ?pw = ?pw" by (simp add: passwd_of_def)
      have snoc: "accounts_of key (view db3) = (accounts_of key ?rows)(key ?name \<mapsto> (?pw, j))"
        using accounts_of_snoc [of key ?rows "\<lparr>ac_name = ?name, ac_passwd = ?pw, ac_id = j\<rparr>"] a g(4) pw by simp
      show ?thesis
      proof (rule implements_intro [where w' = "reply_obj ?o ?w3" and objs = "[?o]" and new = "Some j" and n = 1])
        show "run_task m ra pw (RegTask obj fd) w = Inr (Done 1, reply_obj ?o ?w3)"
          using r q Nil i(1) True g(1,2) by (simp add: reg_task_def reg_finish_def Let_def)
        show "new_id (Some j) (chat_of key view rview w)"
          using j(2) by (fastforce simp: new_id_def chat_of_def dest: accounts_of_id)
        show "chat key (Some j) (RegTask obj fd) (chat_of key view rview w) =
            (map observe [?o], chat_of key view rview (reply_obj ?o ?w3))"
          using a snoc acc by (simp add: chat_of_def del: msgCode.simps)
      qed (use service_up_db(2) [OF up g(3)] in \<open>simp_all add: pushBuff_buff\<close>)
    qed
  qed
qed

lemma task_implements:
  assumes "service_up m key view ra rview w" and "task_sound t"
  shows "implements m key view ra rview pw t w"
  using assms
  by (cases t) (simp_all only: task_sound.simps implements_send implements_reg implements_login implements_logout
      implements_ask implements_accept)

section \<open>Contract\<close>

text \<open>A run of requests against a provider, with the objects it queues for sending.\<close>

inductive serve_run ::
  "('w \<Rightarrow> ServerTask \<Rightarrow> TransObj list \<Rightarrow> 'w \<Rightarrow> bool) \<Rightarrow> ServerTask list \<Rightarrow> 'w \<Rightarrow> TransObj list \<Rightarrow> 'w \<Rightarrow> bool"
  for serve where
  idle: "serve_run serve [] w [] w"
| serve: "serve w t objs w1 \<Longrightarrow> serve_run serve ts w1 rest w2 \<Longrightarrow> serve_run serve (t # ts) w (objs @ rest) w2"

inductive_simps serve_run_Nil [simp]: "serve_run serve [] w objs w'"
inductive_cases serve_run_ConsE: "serve_run serve (t # ts) w objs w'"

text \<open>
  What a provider of the chat service promises: while it is up every sound request goes
  through, does what the abstract service does, and leaves it up.
\<close>

locale chat_provider =
  fixes up :: "'w \<Rightarrow> bool" and state :: "'w \<Rightarrow> 'k Chat" and key :: "string \<Rightarrow> 'k"
    and sound :: "ServerTask \<Rightarrow> bool" and serve :: "'w \<Rightarrow> ServerTask \<Rightarrow> TransObj list \<Rightarrow> 'w \<Rightarrow> bool"
  assumes total: "up w \<Longrightarrow> sound t \<Longrightarrow> \<exists>objs w'. serve w t objs w'"
    and law: "up w \<Longrightarrow> sound t \<Longrightarrow> serve w t objs w' \<Longrightarrow>
      up w' \<and> (\<exists>new. new_id new (state w) \<and> chat key new t (state w) = (map observe objs, state w'))"
begin

lemma run_refines:
  assumes "serve_run serve ts w objs w'" and "up w" and "\<forall>t \<in> set ts. sound t"
  shows "up w' \<and> chat_run key ts (state w) (map observe objs) (state w')"
  using assms
proof (induction rule: serve_run.induct)
  case (idle w)
  then show ?case by (simp add: chat_run.idle)
next
  case (serve w t objs w1 ts rest w2)
  then obtain new where "up w1" "new_id new (state w)" "chat key new t (state w) = (map observe objs, state w1)"
    using law [of w t objs w1] by auto
  with serve show ?case using chat_run.serve by fastforce
qed

lemma run_total:
  assumes "up w" and "\<forall>t \<in> set ts. sound t"
  shows "\<exists>objs w'. serve_run serve ts w objs w'"
  using assms
proof (induction ts arbitrary: w)
  case (Cons t ts)
  then obtain objs w1 where 1: "serve w t objs w1" using total [of w t] by auto
  moreover have "up w1" using law [OF _ _ 1] Cons.prems by auto
  ultimately show ?case using Cons serve_run.serve by (metis list.set_intros(2))
qed (intro exI, rule serve_run.idle)

text \<open>An account, once made, decides the logins under its name for ever after.\<close>

lemma login_later:
  assumes run: "serve_run serve ts w objs w1" and up: "up w" and sound: "\<forall>t \<in> set ts. sound t"
    and acc: "accounts (state w) (key (user_of obj)) = Some (pw, i)"
    and login: "serve w1 (LogTask obj fd) as w2" "sound (LogTask obj fd)"
  shows "map observe as =
      [if pw = passwd_of obj then Answer fd (msgCode MSG_LOGIN_ACCEPT) i (user_of obj)
       else notice (tfd obj) MSG_LOGIN_REFUSE (tid obj)]"
    and "pw = passwd_of obj \<Longrightarrow> sessions (state w2) i = Some (user_of obj, fd)"
proof -
  have r: "up w1" "chat_run key ts (state w) (map observe objs) (state w1)"
    using run_refines [OF run up sound] by simp_all
  have "accounts (state w1) (key (user_of obj)) = Some (pw, i)" by (rule chat_run_keeps(1) [OF r(2) acc])
  moreover obtain new where "chat key new (LogTask obj fd) (state w1) = (map observe as, state w2)"
    using law [OF r(1) login(2,1)] by blast
  then have "map observe as = fst (chat key new (LogTask obj fd) (state w1))"
    "state w2 = snd (chat key new (LogTask obj fd) (state w1))" by simp_all
  ultimately show "map observe as =
      [if pw = passwd_of obj then Answer fd (msgCode MSG_LOGIN_ACCEPT) i (user_of obj)
       else notice (tfd obj) MSG_LOGIN_REFUSE (tid obj)]"
    and "pw = passwd_of obj \<Longrightarrow> sessions (state w2) i = Some (user_of obj, fd)"
    by simp_all
qed

text \<open>A session that a run opened was opened by the password of the one account with its id.\<close>

lemma session_authentic:
  assumes run: "serve_run serve ts w objs w'" and up: "up w" and sound: "\<forall>t \<in> set ts. sound t"
    and ids: "ids_distinct (state w)" and new: "sessions (state w) i = None" "sessions (state w') i = Some (n, f)"
  shows "\<exists>obj. LogTask obj f \<in> set ts \<and> user_of obj = n \<and>
     accounts (state w') (key n) = Some (passwd_of obj, i) \<and>
     (\<forall>k pw. accounts (state w') k = Some (pw, i) \<longrightarrow> k = key n)"
proof -
  have c: "chat_run key ts (state w) (map observe objs) (state w')" using run_refines [OF run up sound] by simp
  then have "ids_distinct (state w')" using chat_run_keeps(2) ids by blast
  with chat_run_session [OF c new(2)] new(1) show ?thesis unfolding ids_distinct_def by (metis option.distinct(1))
qed

end

section \<open>The tasks provide the service\<close>

text \<open>Tasks run one after the other; the end of one does not stop the next.\<close>

fun run_tasks ::
  "('c, 'db, 'row) mysql \<Rightarrow> ('x, 'rd) redis \<Rightarrow> string \<Rightarrow> ServerTask list \<Rightarrow>
   ('c, 'db, 'x, 'rd) ServerWorld \<Rightarrow> ('c, 'db, 'x, 'rd) ServerWorld res" where
  "run_tasks m ra pw [] w = Inr w"
| "run_tasks m ra pw (t # ts) w = bind_res (run_task m ra pw t w) (\<lambda>(_, w1). run_tasks m ra pw ts w1)"

lemma serves_unique:
  assumes "serves m ra pw t w objs w'" and "serves m ra pw t w objs2 w2"
  shows "objs = objs2 \<and> w' = w2"
proof -
  have w: "w' = w2" using assms by (auto simp: serves_def)
  have "buff (sseq w') = buff (sseq w) @ objs" "buff (sseq w2) = buff (sseq w) @ objs2"
    using assms by (simp_all add: serves_def)
  with w show ?thesis by simp
qed

interpretation service: chat_provider "service_up m key view ra rview" "chat_of key view rview" key task_sound
    "\<lambda>w t. serves m ra pw t w"
  for m :: "('c, 'db, 'row) mysql" and key :: "string \<Rightarrow> 'k" and view :: "'db \<Rightarrow> account list"
    and ra :: "('x, 'rd) redis" and rview :: "'rd \<Rightarrow> redis_abs" and pw :: string
proof
  fix w :: "('c, 'db, 'x, 'rd) ServerWorld" and t objs w'
  assume a: "service_up m key view ra rview w" "task_sound t"
  then have i: "implements m key view ra rview pw t w" by (rule task_implements)
  then show "\<exists>objs w'. serves m ra pw t w objs w'" by (auto simp: implements_def)
  assume "serves m ra pw t w objs w'"
  with i show "service_up m key view ra rview w' \<and> (\<exists>new. new_id new (chat_of key view rview w) \<and>
      chat key new t (chat_of key view rview w) = (map observe objs, chat_of key view rview w'))"
    unfolding implements_def using serves_unique by blast
qed

lemma serve_run_tasks:
  "serve_run (\<lambda>w t. serves m ra pw t w) ts w objs w' \<Longrightarrow>
   run_tasks m ra pw ts w = Inr w' \<and> sseq w' = (sseq w)\<lparr>buff := buff (sseq w) @ objs\<rparr>"
  by (induction rule: serve_run.induct) (auto simp: serves_def)

section \<open>A small database\<close>

text \<open>
  A table that answers the statements of the tasks, to show that the documented behaviour can
  hold: it splits a statement at the quotes, and numbers its rows one after the other.
\<close>

definition greatest :: "account list \<Rightarrow> account list" where
  "greatest db = take 1 (filter (\<lambda>a. \<forall>b \<in> set db. sint (ac_id b) \<le> sint (ac_id a)) db)"

definition mini_query :: "string \<Rightarrow> account list \<Rightarrow> account list option" where
  "mini_query cmd db =
     (if cmd = sql_max then Some (greatest db)
      else case split_char (CHR 0x27) cmd of [_, name, _] \<Rightarrow> Some (named id name db) | _ \<Rightarrow> None)"

definition mini_next :: "account list \<Rightarrow> s32 option" where
  "mini_next db =
     (case greatest db of
        [] \<Rightarrow> Some 1
      | a # _ \<Rightarrow> if sint (ac_id a) = 2 ^ 31 - 1 then None else Some (word_of_int (sint (ac_id a) + 1)))"

definition mini_update :: "string \<Rightarrow> account list \<Rightarrow> int option \<times> account list" where
  "mini_update cmd db =
     (case split_char (CHR 0x27) cmd of
        [_, name, _, pw, _] \<Rightarrow>
          (case mini_next db of
             None \<Rightarrow> (None, db)
           | Some i \<Rightarrow> (Some 1, db @ [\<lparr>ac_name = name, ac_passwd = pw, ac_id = i\<rparr>]))
      | _ \<Rightarrow> (None, db))"

definition mini_mysql :: "(nat, account list, account) mysql" where
  "mini_mysql = \<lparr>isClosed = (\<lambda>_ _. False), connect = (\<lambda>db. (Some 0, db)), prepare = (\<lambda>_ _. True),
     executeQuery = (\<lambda>_. mini_query), executeUpdate = (\<lambda>_. mini_update),
     getString = (\<lambda>a _. Some (ac_passwd a)), getInt = (\<lambda>a _. Some (ac_id a))\<rparr>"

lemma greatest_exists: "db \<noteq> [] \<Longrightarrow> greatest db \<noteq> []"
proof -
  assume "db \<noteq> []"
  let ?ids = "(\<lambda>a. sint (ac_id a)) ` set db"
  have fin: "finite ?ids" "?ids \<noteq> {}" using \<open>db \<noteq> []\<close> by simp_all
  from Max_in [OF fin] obtain a where a: "Max ?ids = sint (ac_id a)" "a \<in> set db" by (rule imageE)
  have "sint (ac_id b) \<le> sint (ac_id a)" if "b \<in> set db" for b
    unfolding a(1) [symmetric] by (rule Max_ge [OF fin(1)]) (use that in simp)
  with a(2) have "filter (\<lambda>a. \<forall>b \<in> set db. sint (ac_id b) \<le> sint (ac_id a)) db \<noteq> []"
    unfolding filter_empty_conv by blast
  then show ?thesis by (simp add: greatest_def)
qed

lemma greatest_is: "greatest db = a # as \<Longrightarrow>
    as = [] \<and> a \<in> set db \<and> (\<forall>b \<in> set db. sint (ac_id b) \<le> sint (ac_id a))"
proof -
  assume g: "greatest db = a # as"
  let ?f = "filter (\<lambda>a. \<forall>b \<in> set db. sint (ac_id b) \<le> sint (ac_id a)) db"
  from g have "take 1 ?f = a # as" by (simp add: greatest_def)
  then have "as = []" "a \<in> set ?f" by (cases ?f; simp)+
  then show ?thesis by auto
qed

lemma mini_next_above: "mini_next db = Some i \<Longrightarrow> b \<in> set db \<Longrightarrow> sint (ac_id b) < sint i"
proof -
  assume n: "mini_next db = Some i" and b: "b \<in> set db"
  then have "db \<noteq> []" by auto
  then obtain a as where g: "greatest db = a # as" using greatest_exists by (cases "greatest db") auto
  then have i: "sint (ac_id a) \<noteq> 2 ^ 31 - 1" "i = word_of_int (sint (ac_id a) + 1)"
    using n by (simp_all add: mini_next_def split: if_splits)
  have "sint (ac_id a) < 2 ^ 31" "- (2 ^ 31) \<le> sint (ac_id a)"
    using sint_lt [of "ac_id a"] sint_ge [of "ac_id a"] by simp_all
  with i(1) have "signed_take_bit 31 (sint (ac_id a) + 1) = sint (ac_id a) + 1"
    by (intro signed_take_bit_int_eq_self) simp_all
  moreover have "sint i = signed_take_bit 31 (sint (ac_id a) + 1)" unfolding i(2) sint_sbintrunc' by simp
  ultimately have "sint i = sint (ac_id a) + 1" by simp
  with greatest_is [OF g] b show ?thesis by fastforce
qed

lemma mini_select:
  assumes "CHR 0x27 \<notin> set cols" and "sql_value name"
  shows "mini_query (select_text cols name) db = Some (named id name db)"
proof -
  have "split_char (CHR 0x27) (select_text cols name) =
      [''select '' @ cols @ '' from userinfo where username = '', name, '';'']"
    using assms split_char_sep [of "CHR 0x27" "''select '' @ cols @ '' from userinfo where username = ''" "name @ CHR 0x27 # '';''"]
    by (simp add: select_text_def quoted_def sql_value_def split_char_sep split_char_no_sep)
  moreover have "CHR 0x27 \<in> set (select_text cols name)" "CHR 0x27 \<notin> set sql_max"
    by (simp_all add: select_text_def quoted_def sql_max_def)
  then have "select_text cols name \<noteq> sql_max" by metis
  ultimately show ?thesis by (simp add: mini_query_def)
qed

lemma mini_insert:
  assumes "sql_value name" and "sql_value pw"
  shows "mini_update (insert_text name fd pw) db =
     (case mini_next db of
        None \<Rightarrow> (None, db)
      | Some i \<Rightarrow> (Some 1, db @ [\<lparr>ac_name = name, ac_passwd = pw, ac_id = i\<rparr>]))"
proof -
  let ?n = "to_string (sint fd)"
  have "CHR 0x27 \<notin> set ?n" using set_to_string by (fastforce simp: is_digit_def)
  then have m: "CHR 0x27 \<notin> set ('', '' @ ?n @ '', '')" by simp
  have "split_char (CHR 0x27) (insert_text name fd pw) =
      [''insert into userinfo (username, fd, password) values('', name, '', '' @ ?n @ '', '', pw, '');'']"
    using assms split_char_sep [OF m, of "pw @ CHR 0x27 # '');''"]
    by (simp add: insert_text_def quoted_def sql_value_def split_char_sep split_char_no_sep)
  then show ?thesis by (simp add: mini_update_def)
qed

lemma mini_sql_documented: "db_documented mini_mysql id (\<lambda>db. db)"
  unfolding db_documented_def
proof (intro conjI allI impI)
  fix conn :: nat and db :: "account list" and name pw :: string and fd :: s32
  show "\<exists>conn db'. connect mini_mysql db = (Some conn, db') \<and> db' = db" "prepare mini_mysql conn db"
    by (simp_all add: mini_mysql_def)
  show "\<exists>row a. executeQuery mini_mysql conn sql_max db = Some [row] \<and> a \<in> set db \<and>
      getInt mini_mysql row ''id'' = Some (ac_id a) \<and> (\<forall>b \<in> set db. sint (ac_id b) \<le> sint (ac_id a))"
    if ne: "db \<noteq> []"
  proof -
    obtain a as where g: "greatest db = a # as" using greatest_exists [OF ne] by (cases "greatest db") auto
    with greatest_is [OF g] show ?thesis by (auto simp: mini_mysql_def mini_query_def)
  qed
  assume n: "sql_value name"
  have same: "list_all2 P xs xs" if "\<And>a. P a a" for P and xs :: "account list"
    using that by (simp add: list_all2_refl)
  show "answers_with (shows_passwd mini_mysql)
      (executeQuery mini_mysql conn (select_text ''password'' name) db) (named id name db)"
    "answers_with (\<lambda>r a. shows_passwd mini_mysql r a \<and> shows_id mini_mysql r a)
      (executeQuery mini_mysql conn (select_text ''password, userid'' name) db) (named id name db)"
    "answers_with (shows_id mini_mysql)
      (executeQuery mini_mysql conn (select_text ''userid'' name) db) (named id name db)"
    using mini_select [OF _ n] same
    by (simp_all add: mini_mysql_def answers_with_def shows_passwd_def shows_id_def)
  assume p: "sql_value pw"
  show "(\<exists>i db'. executeUpdate mini_mysql conn (insert_text name fd pw) db = (Some 1, db') \<and>
        db' = db @ [\<lparr>ac_name = name, ac_passwd = pw, ac_id = i\<rparr>] \<and> (\<forall>b \<in> set db. sint (ac_id b) < sint i)) \<or>
      (\<exists>db'. executeUpdate mini_mysql conn (insert_text name fd pw) db = (None, db') \<and> db' = db)"
    using mini_insert [OF n p, of fd db] mini_next_above [of db]
    by (cases "mini_next db") (auto simp: mini_mysql_def)
qed

text \<open>A server over this database and the small Redis.\<close>

definition mini_server :: "account list \<Rightarrow> redis_abs \<Rightarrow> (nat, account list, nat, redis_abs) ServerWorld" where
  "mini_server db A = \<lparr>sseq = \<lparr>buff = [], rcvBuff = [], sysBuff = []\<rparr>,
     mpool = \<lparr>connList = [0], curSize = 1, maxSize = 1\<rparr>, mdb = db, rclient = mini_client, rworld = A\<rparr>"

lemma mini_server_up: "service_up mini_mysql id (\<lambda>db. db) mini_redis (\<lambda>A. A) (mini_server db mini_empty)"
proof -
  have "session_name i mini_empty = []" for i by (simp add: session_name_def mini_empty_def)
  then show ?thesis
    using mini_sql_documented mini_documented mini_connected mini_registry
    by (simp add: service_up_def mini_server_def pool_free_def pool_counts_def redis_up_def names_ok_def)
qed

section \<open>Properties\<close>

lemma demo_sound: "task_sound (RegTask demo_login 9)" "task_sound (LogTask demo_login 9)"
  and demo_user: "user_of demo_login = ''bob''" "passwd_of demo_login = ''secret''"
proof -
  show u: "user_of demo_login = ''bob''" "passwd_of demo_login = ''secret''"
    by (simp_all add: demo_login_def user_of_def passwd_of_def cstr_def NUL_def NAME_MAX_LEN_def)
  have "to_string 9 = ''9''" by code_simp
  with u demo_word_ok show "task_sound (RegTask demo_login 9)" "task_sound (LogTask demo_login 9)"
    by (auto simp: sql_value_def demo_login_def NUL_def TransObj_default_def)
qed

lemma mini_server_state:
  "chat_of id (\<lambda>db. db) (\<lambda>A. A) (mini_server [] mini_empty) = \<lparr>accounts = (\<lambda>_. None), sessions = (\<lambda>_. None)\<rparr>"
  by (simp add: chat_of_def mini_server_def accounts_of_def sessions_of_def session_online_def mini_empty_def fun_eq_iff)

lemma demo_registers:
  "\<exists>w1 answer. run_task mini_mysql mini_redis [] (RegTask demo_login 9) (mini_server [] mini_empty) = Inr (Done 1, w1) \<and>
     sseq w1 = pushBuff answer (sseq (mini_server [] mini_empty)) \<and> msgType answer = msgCode MSG_REG_ACCEPT"
proof -
  have bob: "sql_value ''bob''" "sql_value ''secret''" by (simp_all add: sql_value_def NUL_def)
  have "to_string (sint (9 :: s32)) = ''9''" by code_simp
  then have "sql_text sql_insert [ArgS ''bob'', ArgD (sint (9 :: s32)), ArgS ''secret''] =
      Inr (insert_text ''bob'' 9 ''secret'')" using bob by (intro sql_insert_text) simp_all
  moreover have "mini_update (insert_text ''bob'' 9 ''secret'') [] =
      (Some 1, [\<lparr>ac_name = ''bob'', ac_passwd = ''secret'', ac_id = 1\<rparr>])"
    using mini_insert [OF bob] by (simp add: mini_next_def greatest_def)
  moreover have "mini_query (select_text ''password'' ''bob'') [] = Some []"
    using mini_select [OF _ bob(1)] by (simp add: named_def)
  moreover have "mini_query sql_max [a] = Some [a]" for a by (simp add: mini_query_def greatest_def)
  moreover have "getName (setFd 9 demo_login) = Inr ''bob''" "getPasswd (setFd 9 demo_login) = Inr ''secret''"
    using demo_login_fields(1,2) by (simp_all add: getName_def getPasswd_def setFd_def)
  ultimately show ?thesis
    using sql_texts [OF bob(1)]
    by (auto simp: mini_server_def mini_mysql_def reg_task_def reg_finish_def s_query_def s_insert_def ExecQuery_def
        ExecInsert_def GetConnection_def ReleaseConnection_def Let_def setter_defs)
qed

lemma demo_logs_in:
  "\<exists>w'. run_tasks mini_mysql mini_redis [] [LogTask demo_login 9]
       (mini_server [\<lparr>ac_name = ''bob'', ac_passwd = ''secret'', ac_id = 5\<rparr>] mini_empty) = Inr w' \<and>
     session_online 5 (rworld w')"
proof -
  let ?w = "mini_server [\<lparr>ac_name = ''bob'', ac_passwd = ''secret'', ac_id = 5\<rparr>] mini_empty"
  let ?up = "service_up mini_mysql id (\<lambda>db. db) mini_redis (\<lambda>A. A)" and ?c = "chat_of id (\<lambda>db. db) (\<lambda>A. A)"
  have up: "?up ?w" by (rule mini_server_up)
  have bob: "accounts (?c ?w) (id (user_of demo_login)) = Some (passwd_of demo_login, 5)"
    unfolding demo_user by (simp add: chat_of_def mini_server_def accounts_of_def cstr_def NUL_def)
  obtain as w' where l: "serves mini_mysql mini_redis [] (LogTask demo_login 9) ?w as w'"
    using service.total [OF up demo_sound(2), of "[]"] by blast
  have "serve_run (\<lambda>w t. serves mini_mysql mini_redis [] t w) [] ?w [] ?w" by (rule serve_run.idle)
  from service.login_later(2) [OF this up _ bob l demo_sound(2) refl]
  have "sessions (?c w') 5 \<noteq> None" by simp
  then have "session_online 5 (rworld w')" by (auto simp: chat_of_def sessions_of_def split: if_splits)
  then show ?thesis using l by (auto simp: serves_def)
qed

text \<open>C2: Over a database and a Redis that behave as documented, any sequence of sound tasks,
  registrations, logins, logouts, messages and friend requests, runs through and does exactly
  what the abstract chat service does: it queues the same answers and messages for the same
  sockets, and leaves the same accounts and sessions.\<close>

theorem server_refines_chat:
  assumes "service_up m key view ra rview w" and "\<forall>t \<in> set ts. task_sound t"
  shows "\<exists>objs w'. run_tasks m ra pw ts w = Inr w' \<and> service_up m key view ra rview w' \<and>
     sseq w' = (sseq w)\<lparr>buff := buff (sseq w) @ objs\<rparr> \<and>
     chat_run key ts (chat_of key view rview w) (map observe objs) (chat_of key view rview w')"
proof -
  obtain objs w' where r: "serve_run (\<lambda>w t. serves m ra pw t w) ts w objs w'"
    using service.run_total [OF assms, of pw] by blast
  from service.run_refines [OF r assms] serve_run_tasks [OF r] show ?thesis by blast
qed

theorem server_refines_chat_witness:
  "\<exists>objs w'. run_tasks mini_mysql mini_redis [] [RegTask demo_login 9, LogTask demo_login 9]
       (mini_server [] mini_empty) = Inr w' \<and> buff (sseq w') = objs \<and>
     chat_run id [RegTask demo_login 9, LogTask demo_login 9] \<lparr>accounts = (\<lambda>_. None), sessions = (\<lambda>_. None)\<rparr>
       (map observe objs) (chat_of id (\<lambda>db. db) (\<lambda>A. A) w')"
proof -
  have "\<forall>t \<in> set [RegTask demo_login 9, LogTask demo_login 9]. task_sound t"
    using demo_sound by (simp del: task_sound.simps)
  from server_refines_chat [OF mini_server_up [of "[]"] this, of "[]"] mini_server_state
  show ?thesis by (auto simp: mini_server_def)
qed

text \<open>C3: A registered user can log in. Once a registration was accepted, whatever sound tasks run
  after it, a login under the name (as the database compares names) is decided by the password
  of the registration: with it, the login is accepted with the id the registration was answered
  with, and opens a session for its socket; with any other, it is refused.\<close>

theorem registered_user_logs_in:
  assumes "service_up m key view ra rview w"
    and "task_sound (RegTask reg rfd)" "\<forall>t \<in> set ts. task_sound t" "task_sound (LogTask log fd)"
    and "run_task m ra pw (RegTask reg rfd) w = Inr (e, w1)" "sseq w1 = pushBuff answer (sseq w)"
    and "msgType answer = msgCode MSG_REG_ACCEPT" and "key (user_of log) = key (user_of reg)"
  shows "\<exists>w2 n w3 obj. run_tasks m ra pw ts w1 = Inr w2 \<and>
     run_task m ra pw (LogTask log fd) w2 = Inr (Done n, w3) \<and> sseq w3 = pushBuff obj (sseq w2) \<and>
     (if passwd_of log = passwd_of reg
      then tfd obj = fd \<and> msgType obj = msgCode MSG_LOGIN_ACCEPT \<and> tid obj = tid answer \<and>
        sessions_of (rview (rworld w3)) (tid answer) = Some (user_of log, fd)
      else tfd obj = tfd log \<and> msgType obj = msgCode MSG_LOGIN_REFUSE \<and> tid obj = tid log)"
proof -
  let ?c = "chat_of key view rview"
  have r: "serves m ra pw (RegTask reg rfd) w [answer] w1"
    using service.total [OF assms(1,2), of pw] assms(5,6) by (auto simp: serves_def pushBuff_buff)
  obtain new where up1: "service_up m key view ra rview w1"
    and c: "chat key new (RegTask reg rfd) (?c w) = (map observe [answer], ?c w1)"
    using service.law [OF assms(1,2) r] by blast
  have acc: "accounts (?c w1) (key (user_of log)) = Some (passwd_of reg, tid answer)"
    using registration_accepted [OF c assms(7)] assms(8) by simp
  obtain objs w2 where run: "serve_run (\<lambda>w t. serves m ra pw t w) ts w1 objs w2"
    using service.run_total [OF up1 assms(3), of pw] by blast
  then have up2: "service_up m key view ra rview w2" using service.run_refines [OF run up1 assms(3)] by blast
  obtain as w3 where l: "serves m ra pw (LogTask log fd) w2 as w3"
    using service.total [OF up2 assms(4), of pw] by blast
  note later = service.login_later [OF run up1 assms(3) acc l assms(4)]
  then obtain obj where o: "as = [obj]" by auto
  obtain n where n: "run_task m ra pw (LogTask log fd) w2 = Inr (Done n, w3)" "sseq w3 = pushBuff obj (sseq w2)"
    using l o by (auto simp: serves_def pushBuff_buff)
  have "run_tasks m ra pw ts w1 = Inr w2" using serve_run_tasks [OF run] by blast
  moreover have "if passwd_of log = passwd_of reg
      then tfd obj = fd \<and> msgType obj = msgCode MSG_LOGIN_ACCEPT \<and> tid obj = tid answer \<and>
        sessions_of (rview (rworld w3)) (tid answer) = Some (user_of log, fd)
      else tfd obj = tfd log \<and> msgType obj = msgCode MSG_LOGIN_REFUSE \<and> tid obj = tid log"
  proof (cases "passwd_of log = passwd_of reg")
    case True
    then show ?thesis using later by (simp add: o observe_def chat_of_def)
  next
    case False
    then show ?thesis using later(1) by (auto simp: o observe_def notice_def)
  qed
  ultimately show ?thesis using n by blast
qed

theorem registered_user_logs_in_witness:
  "\<exists>w1 w2 n w3 obj. run_task mini_mysql mini_redis [] (RegTask demo_login 9) (mini_server [] mini_empty) = Inr (Done 1, w1) \<and>
     run_tasks mini_mysql mini_redis [] [SendMsgTask demo_login] w1 = Inr w2 \<and>
     run_task mini_mysql mini_redis [] (LogTask demo_login 9) w2 = Inr (Done n, w3) \<and>
     sseq w3 = pushBuff obj (sseq w2) \<and> msgType obj = msgCode MSG_LOGIN_ACCEPT"
proof -
  obtain w1 answer where
    1: "run_task mini_mysql mini_redis [] (RegTask demo_login 9) (mini_server [] mini_empty) = Inr (Done 1, w1)"
      "sseq w1 = pushBuff answer (sseq (mini_server [] mini_empty))" "msgType answer = msgCode MSG_REG_ACCEPT"
    using demo_registers by blast
  have "\<forall>t \<in> set [SendMsgTask demo_login]. task_sound t" by simp
  from registered_user_logs_in [OF mini_server_up demo_sound(1) this demo_sound(2) 1] 1(1)
  show ?thesis by (auto simp del: run_task.simps run_tasks.simps)
qed

text \<open>C13: Sessions stand for passwords when tasks do not overlap. When a user who was not online is online after a sequence of sound
  tasks, one of them was a login with exactly the password of the account with that id, the session
  has the name and the socket of this login, and no other account has the id.\<close>

theorem session_means_password:
  assumes "service_up m key view ra rview w" and "\<forall>t \<in> set ts. task_sound t"
    and "ids_distinct (chat_of key view rview w)" and "run_tasks m ra pw ts w = Inr w'"
    and "\<not> session_online i (rview (rworld w))" "session_online i (rview (rworld w'))"
  shows "\<exists>obj fd. LogTask obj fd \<in> set ts \<and> sessions_of (rview (rworld w')) i = Some (user_of obj, fd) \<and>
     accounts_of key (view (mdb w')) (key (user_of obj)) = Some (passwd_of obj, i) \<and>
     (\<forall>k p. accounts_of key (view (mdb w')) k = Some (p, i) \<longrightarrow> k = key (user_of obj))"
proof -
  obtain objs w2 where r: "serve_run (\<lambda>w t. serves m ra pw t w) ts w objs w2"
    using service.run_total [OF assms(1,2), of pw] by blast
  with serve_run_tasks [OF r] assms(4) have "w2 = w'" by simp
  with r have r': "serve_run (\<lambda>w t. serves m ra pw t w) ts w objs w'" by simp
  let ?n = "session_name i (rview (rworld w'))" and ?f = "session_fd i (rview (rworld w'))"
  have s: "sessions (chat_of key view rview w) i = None" "sessions (chat_of key view rview w') i = Some (?n, ?f)"
    using assms(5,6) by (simp_all add: chat_of_def sessions_of_def)
  from service.session_authentic [OF r' assms(1-3) s] show ?thesis
    using s(2) by (auto simp: chat_of_def)
qed

theorem session_means_password_witness:
  "\<exists>w' fd. run_tasks mini_mysql mini_redis [] [LogTask demo_login 9]
       (mini_server [\<lparr>ac_name = ''bob'', ac_passwd = ''secret'', ac_id = 5\<rparr>] mini_empty) = Inr w' \<and>
     sessions_of (rworld w') 5 = Some (''bob'', fd)"
proof -
  let ?w = "mini_server [\<lparr>ac_name = ''bob'', ac_passwd = ''secret'', ac_id = 5\<rparr>] mini_empty"
  obtain w' where r: "run_tasks mini_mysql mini_redis [] [LogTask demo_login 9] ?w = Inr w'" "session_online 5 (rworld w')"
    using demo_logs_in by blast
  have s: "\<forall>t \<in> set [LogTask demo_login 9]. task_sound t" using demo_sound(2) by (simp del: task_sound.simps)
  have i: "ids_distinct (chat_of id (\<lambda>db. db) (\<lambda>A. A) ?w)"
    by (auto simp: ids_distinct_def chat_of_def mini_server_def accounts_of_def split: if_splits)
  have "\<not> session_online 5 (rworld ?w)" by (simp add: mini_server_def mini_empty_def session_online_def)
  from session_means_password [OF mini_server_up s i r(1) this r(2)] r(1) demo_user(1)
  show ?thesis by (auto simp del: run_tasks.simps)
qed

end
