(* ===== verification/TornCommands.thy ===== *)
theory TornCommands
  imports AuthSessions
begin

text \<open>
  What an overlap at the command buffer can do. Two workers register two users who have given
  their passwords; the second writes its command over the buffer while the first's is already
  there, and what is sent is a third command, for an id that nobody asked for.
\<close>

section \<open>Two commands in one buffer\<close>





section \<open>Properties\<close>








end
