(* ===== verification/ConcList.thy ===== *)
theory ConcList
  imports ConcQueue
begin

text \<open>
  The concurrent list of \<^verbatim>\<open>smer/Util/inc/ConcList.h\<close>: a \<open>std::list\<close> with its own
  element counter \<open>size\<close> (here \<open>csize\<close>), and what each method does while it holds the
  mutex. None is a call that would block.
\<close>

record 'a ConcList =
  csize :: int
  elems :: "'a list"

definition cl_new :: "'a ConcList" where
  "cl_new = \<lparr>csize = 0, elems = []\<rparr>"

text \<open>The copy constructor copies the elements and leaves the counter \<open>g\<close> uninitialised.\<close>

definition cl_copy :: "int \<Rightarrow> 'a ConcList \<Rightarrow> 'a ConcList" where
  "cl_copy g other = \<lparr>csize = g, elems = elems other\<rparr>"

definition cl_push_back :: "'a \<Rightarrow> 'a ConcList \<Rightarrow> 'a ConcList" where
  "cl_push_back x l = l\<lparr>elems := elems l @ [x], csize := csize l + 1\<rparr>"

definition cl_push_front :: "'a \<Rightarrow> 'a ConcList \<Rightarrow> 'a ConcList" where
  "cl_push_front x l = l\<lparr>elems := x # elems l, csize := csize l + 1\<rparr>"

definition cl_front :: "'a ConcList \<Rightarrow> 'a res" where
  "cl_front l = (case elems l of [] \<Rightarrow> Inl OutOfBounds | x # _ \<Rightarrow> Inr x)"

definition cl_back :: "'a ConcList \<Rightarrow> 'a res" where
  "cl_back l = (if elems l = [] then Inl OutOfBounds else Inr (last (elems l)))"

definition cl_pop_back :: "'a ConcList \<Rightarrow> ('a \<times> 'a ConcList) option" where
  "cl_pop_back l =
     (if elems l = [] then None
      else Some (last (elems l), l\<lparr>elems := butlast (elems l), csize := csize l - 1\<rparr>))"

definition cl_pop_front :: "'a ConcList \<Rightarrow> ('a \<times> 'a ConcList) option" where
  "cl_pop_front l =
     (case elems l of
        [] \<Rightarrow> None
      | value # rest \<Rightarrow> Some (value, l\<lparr>elems := rest, csize := csize l - 1\<rparr>))"

definition cl_empty :: "'a ConcList \<Rightarrow> bool" where
  "cl_empty l \<longleftrightarrow> elems l = []"

definition cl_waitTillNotEmpty :: "'a ConcList \<Rightarrow> bool option" where
  "cl_waitTillNotEmpty l = (if elems l = [] then None else Some True)"

text \<open>\<open>waitPushTillEmpty\<close> appends without counting.\<close>

definition cl_waitPushTillEmpty :: "'a \<Rightarrow> 'a ConcList \<Rightarrow> 'a ConcList option" where
  "cl_waitPushTillEmpty value l =
     (if elems l = [] then Some (l\<lparr>elems := elems l @ [value]\<rparr>) else None)"

text \<open>\<open>getAllData\<close> appends every element to the caller's list.\<close>

definition cl_getAllData :: "'a ConcList \<Rightarrow> 'a list \<Rightarrow> 'a list" where
  "cl_getAllData l target = fold (\<lambda>x t. t @ [x]) (elems l) target"

text \<open>
  \<open>erase\<close> and \<open>getOneRequest\<close> check the index against the counter and then advance an
  iterator, which must not pass the end of the list.
\<close>

definition cl_erase :: "int \<Rightarrow> 'a ConcList \<Rightarrow> (bool \<times> 'a ConcList) res" where
  "cl_erase index l =
     (if index < 0 \<or> csize l \<le> index then Inr (False, l)
      else if nat index < length (elems l)
        then Inr (True, l\<lparr>elems := take (nat index) (elems l) @ drop (Suc (nat index)) (elems l),
                          csize := csize l - 1\<rparr>)
      else Inl OutOfBounds)"

definition cl_getSize :: "'a ConcList \<Rightarrow> int" where
  "cl_getSize l = csize l"

text \<open>The out-parameter is only written on success.\<close>

definition cl_getOneRequest :: "int \<Rightarrow> 'a ConcList \<Rightarrow> 'a option res" where
  "cl_getOneRequest index l =
     (if 0 \<le> index \<and> index < csize l
      then (if nat index < length (elems l) then Inr (Some (elems l ! nat index))
            else Inl OutOfBounds)
      else Inr None)"

lemmas cl_defs = cl_new_def cl_copy_def cl_push_back_def cl_push_front_def cl_front_def
  cl_back_def cl_pop_back_def cl_pop_front_def cl_empty_def cl_waitTillNotEmpty_def
  cl_waitPushTillEmpty_def cl_erase_def cl_getSize_def cl_getOneRequest_def

section \<open>The counter\<close>

definition cl_inv :: "'a ConcList \<Rightarrow> bool" where
  "cl_inv l \<longleftrightarrow> csize l = int (length (elems l))"

lemma cl_inv_new: "cl_inv cl_new"
  by (simp add: cl_inv_def cl_new_def)

lemma cl_inv_push: "cl_inv l \<Longrightarrow> cl_inv (cl_push_back x l)" "cl_inv l \<Longrightarrow> cl_inv (cl_push_front x l)"
  by (simp_all add: cl_inv_def cl_defs)

lemma cl_inv_pop:
  "cl_inv l \<Longrightarrow> cl_pop_back l = Some (x, l') \<Longrightarrow> cl_inv l'"
  "cl_inv l \<Longrightarrow> cl_pop_front l = Some (x, l') \<Longrightarrow> cl_inv l'"
  by (auto simp: cl_inv_def cl_defs of_nat_diff Suc_leI split: if_splits list.splits)

lemma cl_inv_erase: "cl_inv l \<Longrightarrow> cl_erase i l = Inr (b, l') \<Longrightarrow> cl_inv l'"
  by (auto simp: cl_inv_def cl_defs split: if_splits)

text \<open>With a counter that agrees, the index checks are exact and nothing is out of bounds.\<close>

lemma cl_getOneRequest_exact:
  assumes "cl_inv l"
  shows "cl_getOneRequest i l =
    Inr (if 0 \<le> i \<and> i < int (length (elems l)) then Some (elems l ! nat i) else None)"
  using assms by (auto simp: cl_inv_def cl_getOneRequest_def)

lemma cl_erase_exact:
  assumes "cl_inv l"
  shows "cl_erase i l =
    Inr (if 0 \<le> i \<and> i < int (length (elems l))
         then (True, l\<lparr>elems := take (nat i) (elems l) @ drop (Suc (nat i)) (elems l),
                       csize := csize l - 1\<rparr>)
         else (False, l))"
  using assms by (auto simp: cl_inv_def cl_erase_def)

lemma cl_getAllData_append: "cl_getAllData l target = target @ elems l"
proof -
  have "fold (\<lambda>x t. t @ [x]) xs t = t @ xs" for xs t :: "'a list"
    by (induction xs arbitrary: t) simp_all
  then show ?thesis by (simp add: cl_getAllData_def)
qed

interpretation cl: mailbox cl_push_back cl_pop_front elems cl_inv
  by unfold_locales
     (auto simp: cl_inv_push(1) cl_push_back_def cl_pop_front_def cl_inv_def split: list.splits)

section \<open>Properties\<close>

text \<open>While the counter of the list agrees with its contents, looking up and erasing by
  index succeed exactly for the indices of the elements, erase removes exactly that element
  and keeps the counter right, and no access is out of bounds.\<close>

lemma list_index_exact:
  assumes "cl_inv l"
  shows "cl_getOneRequest i l =
           Inr (if 0 \<le> i \<and> i < int (length (elems l)) then Some (elems l ! nat i) else None) \<and>
         (\<exists>b l'. cl_erase i l = Inr (b, l') \<and> cl_inv l' \<and> b = (0 \<le> i \<and> i < int (length (elems l))) \<and>
           elems l' = (if b then take (nat i) (elems l) @ drop (Suc (nat i)) (elems l) else elems l))"
proof (intro conjI)
  show "cl_getOneRequest i l =
      Inr (if 0 \<le> i \<and> i < int (length (elems l)) then Some (elems l ! nat i) else None)"
    using assms by (rule cl_getOneRequest_exact)
  show "\<exists>b l'. cl_erase i l = Inr (b, l') \<and> cl_inv l' \<and> b = (0 \<le> i \<and> i < int (length (elems l))) \<and>
      elems l' = (if b then take (nat i) (elems l) @ drop (Suc (nat i)) (elems l) else elems l)"
    using cl_erase_exact [OF assms, of i] cl_inv_erase [OF assms, of i] by (auto split: if_splits)
qed

lemma list_index_exact_example:
  "cl_getOneRequest 1 (cl_push_back (6::nat) (cl_push_back 5 cl_new)) = Inr (Some 6)"
  using list_index_exact [of "cl_push_back (6::nat) (cl_push_back 5 cl_new)" 1]
  by (simp add: cl_inv_push(1) cl_inv_new) (simp add: cl_push_back_def cl_new_def)

text \<open>\<open>waitPushTillEmpty\<close> stores its value but does not count it, so the element cannot
  be reached by index and the counter stays wrong.\<close>

lemma waitPush_uncounted:
  assumes "cl_inv l" and "cl_waitPushTillEmpty v l = Some l'"
  shows "elems l' = [v] \<and> cl_getSize l' = 0 \<and> \<not> cl_inv l' \<and> cl_getOneRequest 0 l' = Inr None \<and>
         cl_erase 0 l' = Inr (False, l')"
  using assms by (auto simp: cl_inv_def cl_defs split: if_splits)

text \<open>Over any sequence of \<open>push_back\<close> and \<open>pop_front\<close> the list is first in, first out
  and its counter stays right.\<close>

lemma list_fifo:
  assumes "cl_inv l" and "mb_run cl_push_back cl_pop_front ops l = (out, l')"
  shows "cl_inv l' \<and> elems l @ mb_puts ops = out @ elems l'"
  using cl.fifo [OF assms] .

lemma list_fifo_example:
  "elems cl_new @ mb_puts [Put (1::nat), Put 2, Get] = [1] @ elems \<lparr>csize = 1, elems = [2::nat]\<rparr>"
  using list_fifo [of cl_new "[Put (1::nat), Put 2, Get]" "[1]" "\<lparr>csize = 1, elems = [2::nat]\<rparr>"]
  by (simp add: cl_inv_new) (simp add: cl_defs)

end
