(* ===== verification/StdMap.thy ===== *)
theory StdMap
  imports Prelude "HOL-Library.Char_ord" "HOL-Library.List_Lexorder"
begin

text \<open>
  \<open>std::map\<close> as the program uses it: an association list in strictly ascending key
  order, so that iterating over it visits the keys as the C++ container does. Strings
  are ordered lexicographically by their unsigned bytes.
\<close>

section \<open>The operations\<close>

fun om_set :: "'k::linorder \<Rightarrow> 'v \<Rightarrow> ('k \<times> 'v) list \<Rightarrow> ('k \<times> 'v) list" where
  "om_set k v [] = [(k, v)]"
| "om_set k v ((k', v') # m) =
     (if k < k' then (k, v) # (k', v') # m
      else if k = k' then (k, v) # m
      else (k', v') # om_set k v m)"

definition om_get :: "('k \<times> 'v) list \<Rightarrow> 'k \<Rightarrow> 'v option" where
  "om_get m k = map_of m k"

definition om_count :: "('k \<times> 'v) list \<Rightarrow> 'k \<Rightarrow> nat" where
  "om_count m k = (if om_get m k = None then 0 else 1)"

text \<open>\<open>operator[]\<close>: the element, inserted with a default value when it is missing.\<close>

definition om_index :: "'v \<Rightarrow> 'k::linorder \<Rightarrow> ('k \<times> 'v) list \<Rightarrow> 'v \<times> ('k \<times> 'v) list" where
  "om_index dflt k m = (case om_get m k of Some v \<Rightarrow> (v, m) | None \<Rightarrow> (dflt, om_set k dflt m))"

definition om_ok :: "('k::linorder \<times> 'v) list \<Rightarrow> bool" where
  "om_ok m \<longleftrightarrow> sorted_wrt (<) (map fst m)"

section \<open>The map interface\<close>

locale std_map =
  fixes get :: "'m \<Rightarrow> 'k \<Rightarrow> 'v option"
    and set_key :: "'k \<Rightarrow> 'v \<Rightarrow> 'm \<Rightarrow> 'm"
    and ok :: "'m \<Rightarrow> bool"
  assumes ok_set: "ok m \<Longrightarrow> ok (set_key k v m)"
    and get_set: "ok m \<Longrightarrow> get (set_key k v m) = (get m)(k \<mapsto> v)"
begin

lemma get_set_same: "ok m \<Longrightarrow> get (set_key k v m) k = Some v"
  by (simp add: get_set)

lemma get_set_other: "ok m \<Longrightarrow> k' \<noteq> k \<Longrightarrow> get (set_key k v m) k' = get m k'"
  by (simp add: get_set)

lemma dom_set: "ok m \<Longrightarrow> dom (get (set_key k v m)) = insert k (dom (get m))"
  by (simp add: get_set)

lemma set_twice: "ok m \<Longrightarrow> get (set_key k v (set_key k w m)) = get (set_key k v m)"
  by (simp add: get_set ok_set)

end

section \<open>The ordered list provides it\<close>

lemma set_om_set: "fst ` set (om_set k v m) = insert k (fst ` set m)"
  by (induction k v m rule: om_set.induct) auto

lemma om_ok_set: "om_ok m \<Longrightarrow> om_ok (om_set k v m)"
proof (induction k v m rule: om_set.induct)
  case (1 k v)
  then show ?case by (simp add: om_ok_def)
next
  case (2 k v k' v' m)
  consider "k < k'" | "k = k'" | "k' < k" by fastforce
  then show ?case
  proof cases
    case 3
    have "om_ok (om_set k v m)" using 2 3 by (simp add: om_ok_def)
    moreover have "\<forall>x \<in> fst ` set (om_set k v m). k' < x"
      using 2(2) 3 by (auto simp: om_ok_def set_om_set)
    ultimately show ?thesis using 3 by (auto simp: om_ok_def)
  qed (use 2 in \<open>auto simp: om_ok_def\<close>)
qed

lemma om_get_set: "om_ok m \<Longrightarrow> om_get (om_set k v m) = (om_get m)(k \<mapsto> v)"
proof (induction k v m rule: om_set.induct)
  case (1 k v)
  then show ?case by (simp add: om_get_def)
next
  case (2 k v k' v' m)
  then show ?case by (auto simp: om_get_def om_ok_def fun_upd_twist)
qed

interpretation om: std_map om_get om_set om_ok
  by unfold_locales (simp_all add: om_ok_set om_get_set)

text \<open>\<open>std::unordered_map\<close> is used through the same interface; its order is never read.\<close>

interpretation um: std_map "\<lambda>m. m" "\<lambda>k v m. m(k \<mapsto> v)" "\<lambda>_. True"
  by unfold_locales simp_all

lemma length_om_set:
  "om_ok m \<Longrightarrow> length (om_set k v m) = (if om_get m k = None then Suc (length m) else length m)"
proof (induction k v m rule: om_set.induct)
  case (1 k v)
  then show ?case by (simp add: om_get_def)
next
  case (2 k v k' v' m)
  consider "k < k'" | "k = k'" | "k' < k" by fastforce
  then show ?case
  proof cases
    case 1
    then have "k \<notin> fst ` set m" using 2(2) by (auto simp: om_ok_def)
    with 1 show ?thesis by (auto simp: om_get_def map_of_eq_None_iff)
  qed (use 2 in \<open>auto simp: om_get_def om_ok_def\<close>)
qed

end
