(* ===== verification/Player.thy ===== *)
theory Player
  imports StdMap CLib
begin

text \<open>
  The player of \<^verbatim>\<open>smer/Player\<close>: identity, friends and login flag, and the data file.
  A friend is a heap object holding an id; a deleted friend's map entry stays with a
  null pointer (None). Boost's binary archive is a parameter: \<open>oa\<close> turns what
  \<open>serialize\<close> visits into bytes, \<open>ia\<close> reads it back (None: it throws).
\<close>

section \<open>State\<close>

definition MAX_FRIENDS_NUM :: nat where
  "MAX_FRIENDS_NUM = 3000"

record Player =
  pid :: s32
  pname :: string
  ppassword :: string
  friends :: "(string \<times> s32 option) list"
  isFriendsChanged :: bool
  talkerName :: string
  logined :: bool

text \<open>The file \<open>PLAYER_DATA_FILE\<close> and whether it can be opened for writing.\<close>

record Disk =
  writable :: bool
  playerFile :: "bytes option"

type_synonym image = "s32 \<times> string \<times> string \<times> (string \<times> s32 option) list"

definition player_image :: "Player \<Rightarrow> image" where
  "player_image p = (pid p, pname p, ppassword p, friends p)"

definition set_image :: "image \<Rightarrow> Player \<Rightarrow> Player" where
  "set_image im p = (case im of (i, n, w, fs) \<Rightarrow>
     p\<lparr>pid := i, pname := n, ppassword := w, friends := fs\<rparr>)"

section \<open>Identity and login\<close>

definition player_init :: "string \<Rightarrow> string \<Rightarrow> s32 \<Rightarrow> Player \<Rightarrow> Player" where
  "player_init name password i p = p\<lparr>pname := name, ppassword := password, pid := i\<rparr>"

definition setPlayerId :: "s32 \<Rightarrow> Player \<Rightarrow> Player" where
  "setPlayerId i p = p\<lparr>pid := i\<rparr>"

definition setPlayerName :: "string \<Rightarrow> Player \<Rightarrow> Player" where
  "setPlayerName s p = p\<lparr>pname := cstr s\<rparr>"

definition setPlayerPasswd :: "string \<Rightarrow> Player \<Rightarrow> Player" where
  "setPlayerPasswd s p = p\<lparr>ppassword := cstr s\<rparr>"

definition setLoginStatus :: "bool \<Rightarrow> Player \<Rightarrow> Player" where
  "setLoginStatus b p = p\<lparr>logined := b\<rparr>"

definition setPlayerLogin :: "s32 \<Rightarrow> string \<Rightarrow> string \<Rightarrow> Player \<Rightarrow> Player" where
  "setPlayerLogin i name passwd p =
     setPlayerPasswd passwd (setPlayerName name (setPlayerId i (setLoginStatus True p)))"

definition getPlayerName :: "Player \<Rightarrow> string" where
  "getPlayerName p = pname p"

definition getPlayerPwd :: "Player \<Rightarrow> string" where
  "getPlayerPwd p = ppassword p"

definition getPlayerId :: "Player \<Rightarrow> s32" where
  "getPlayerId p = pid p"

definition getTalkerName_player :: "Player \<Rightarrow> string" where
  "getTalkerName_player p = talkerName p"

definition getAllFriends :: "Player \<Rightarrow> (string \<times> s32 option) list" where
  "getAllFriends p = friends p"

definition isLogined :: "Player \<Rightarrow> bool" where
  "isLogined p = logined p"

definition setTalkerName :: "string \<Rightarrow> Player \<Rightarrow> Player" where
  "setTalkerName name p = p\<lparr>talkerName := name\<rparr>"

text \<open>\<open>friends[talkerName]->id\<close>: inserts a null entry for a stranger and dereferences it.\<close>

definition getTalkerId :: "Player \<Rightarrow> (s32 \<times> Player) res" where
  "getTalkerId p =
     (case om_index None (talkerName p) (friends p) of
        (None, fs) \<Rightarrow> Inl NullDeref
      | (Some i, fs) \<Rightarrow> Inr (i, p\<lparr>friends := fs\<rparr>))"

lemmas player_defs = player_init_def setPlayerId_def setPlayerName_def setPlayerPasswd_def
  setLoginStatus_def setPlayerLogin_def setTalkerName_def

section \<open>The data file\<close>

definition savePlayerData :: "(image \<Rightarrow> bytes) \<Rightarrow> Player \<Rightarrow> Disk \<Rightarrow> bool \<times> Disk" where
  "savePlayerData oa p d =
     (if writable d then (True, d\<lparr>playerFile := Some (oa (player_image p))\<rparr>)
      else (False, d))"

datatype load_error = ArchiveException

definition loadPlayerData ::
  "(bytes \<Rightarrow> image option) \<Rightarrow> Disk \<Rightarrow> Player \<Rightarrow> load_error + (bool \<times> Player)" where
  "loadPlayerData ia d p =
     (case playerFile d of
        None \<Rightarrow> Inr (False, p)
      | Some file \<Rightarrow>
          if file = [] then Inr (False, p)
          else (case ia file of
                  None \<Rightarrow> Inl ArchiveException
                | Some im \<Rightarrow> Inr (True, set_image im p)))"

text \<open>
  What the code relies on of the archive: what was written is read back, and an archive
  is never empty (it starts with a signature).
\<close>

definition archive_ok :: "(image \<Rightarrow> bytes) \<Rightarrow> (bytes \<Rightarrow> image option) \<Rightarrow> bool" where
  "archive_ok oa ia \<longleftrightarrow> (\<forall>im. ia (oa im) = Some im \<and> oa im \<noteq> [])"

section \<open>Friends\<close>

text \<open>
  \<open>addFriend\<close> in two parts: the check of the limit, and what it does to the map once the check has
  passed. Nothing keeps another thread from the map between the two.
\<close>

definition addFriend_inserts ::
  "(image \<Rightarrow> bytes) \<Rightarrow> string \<Rightarrow> s32 \<Rightarrow> Player \<Rightarrow> Disk \<Rightarrow> (bool \<times> Player \<times> Disk) res" where
  "addFriend_inserts oa name i p d =
     (if 0 < om_count (friends p) name
        then (case om_index None name (friends p) of
                (None, _) \<Rightarrow> Inl NullDeref
              | (Some _, fs) \<Rightarrow>
                  Inr (True, p\<lparr>friends := om_set name (Some i) fs, isFriendsChanged := True\<rparr>, d))
      else (let p1 = p\<lparr>friends := om_set name (Some i) (friends p), isFriendsChanged := True\<rparr>
            in (case savePlayerData oa p1 d of (b, d1) \<Rightarrow> Inr (b, p1, d1))))"

definition addFriend ::
  "(image \<Rightarrow> bytes) \<Rightarrow> string \<Rightarrow> s32 \<Rightarrow> Player \<Rightarrow> Disk \<Rightarrow> (bool \<times> Player \<times> Disk) res" where
  "addFriend oa name i p d =
     (if MAX_FRIENDS_NUM \<le> length (friends p) then Inr (False, p, d) else addFriend_inserts oa name i p d)"

definition delFriend ::
  "(image \<Rightarrow> bytes) \<Rightarrow> string \<Rightarrow> Player \<Rightarrow> Disk \<Rightarrow> bool \<times> Player \<times> Disk" where
  "delFriend oa name p d =
     (if 0 < om_count (friends p) name
      then (True, p\<lparr>friends := om_set name None (friends p), isFriendsChanged := True\<rparr>, d)
      else (case savePlayerData oa p d of (b, d1) \<Rightarrow> (b, p, d1)))"

section \<open>Invariant and behaviour\<close>

definition player_ok :: "Player \<Rightarrow> bool" where
  "player_ok p \<longleftrightarrow> om_ok (friends p) \<and> length (friends p) \<le> MAX_FRIENDS_NUM"

text \<open>The live friends, as a map from names to ids.\<close>

definition live_friends :: "Player \<Rightarrow> string \<Rightarrow> s32 option" where
  "live_friends p name = Option.bind (om_get (friends p) name) (\<lambda>x. x)"

lemma addFriend_ok:
  assumes "player_ok p" and "addFriend oa name i p d = Inr (b, p', d')"
  shows "player_ok p'"
  using assms
  by (auto simp: addFriend_def addFriend_inserts_def player_ok_def om_ok_set length_om_set om_index_def Let_def
      om_count_def savePlayerData_def split: if_splits option.splits)

lemma delFriend_ok:
  assumes "player_ok p" and "delFriend oa name p d = (b, p', d')"
  shows "player_ok p'"
  using assms
  by (auto simp: delFriend_def player_ok_def om_ok_set length_om_set om_count_def
      savePlayerData_def split: if_splits)

lemma addFriend_live:
  assumes "player_ok p" and "addFriend oa name i p d = Inr (b, p', d')"
    and "length (friends p) < MAX_FRIENDS_NUM"
  shows "live_friends p' = (live_friends p)(name \<mapsto> i)"
  using assms
  by (auto simp: addFriend_def addFriend_inserts_def player_ok_def live_friends_def om_get_set om_index_def
      om_count_def savePlayerData_def fun_eq_iff Let_def
      split: if_splits option.splits prod.splits)

lemma delFriend_live:
  assumes "player_ok p" and "delFriend oa name p d = (b, p', d')"
  shows "live_friends p' = (live_friends p)(name := None)"
  using assms
  by (auto simp: delFriend_def player_ok_def live_friends_def om_get_set om_count_def
      savePlayerData_def fun_eq_iff split: if_splits)

text \<open>Adding a friend crashes exactly on the null entry a deletion left behind.\<close>

lemma addFriend_null:
  "addFriend oa name i p d = Inl e \<longleftrightarrow>
   e = NullDeref \<and> length (friends p) < MAX_FRIENDS_NUM \<and> om_get (friends p) name = Some None"
  by (auto simp: addFriend_def addFriend_inserts_def om_count_def om_index_def Let_def
      split: option.splits prod.splits)

text \<open>
  Two threads past the check at one place below the limit: both insert, and the map is one over
  the limit.
\<close>

lemma addFriend_overlap:
  assumes "player_ok p" and "Suc (length (friends p)) = MAX_FRIENDS_NUM" and "n \<noteq> n'"
    and "om_get (friends p) n = None" "om_get (friends p) n' = None"
    and "addFriend_inserts oa n i p d = Inr (b, p1, d1)" and "addFriend_inserts oa n' i' p1 d1 = Inr (b', p2, d2)"
  shows "length (friends p2) = Suc MAX_FRIENDS_NUM" "\<not> player_ok p2"
proof -
  have ok: "om_ok (friends p)" using assms(1) by (simp add: player_ok_def)
  have p1: "friends p1 = om_set n (Some i) (friends p)"
    using assms(4,6) by (auto simp: addFriend_inserts_def om_count_def Let_def split: prod.splits)
  have none: "om_get (friends p1) n' = None" using assms(3,5) by (simp add: p1 om_get_set [OF ok])
  have p2: "friends p2 = om_set n' (Some i') (friends p1)"
    using assms(7) none by (auto simp: addFriend_inserts_def om_count_def Let_def split: prod.splits)
  have "om_ok (friends p1)" unfolding p1 using ok by (rule om_ok_set)
  then show "length (friends p2) = Suc MAX_FRIENDS_NUM"
    using assms(2,4) ok none by (simp add: p2 length_om_set p1)
  then show "\<not> player_ok p2" by (simp add: player_ok_def)
qed

section \<open>Properties\<close>

text \<open>Saving the player and loading the file gives back the id, name, password and
  friends, and leaves the login flag and the chosen talker of the loading player alone.\<close>

lemma save_load_roundtrip:
  assumes "archive_ok oa ia" and "writable d"
  shows "\<exists>d'. savePlayerData oa p d = (True, d') \<and>
           loadPlayerData ia d' q =
             Inr (True, q\<lparr>pid := pid p, pname := pname p, ppassword := ppassword p, friends := friends p\<rparr>)"
  using assms by (simp add: savePlayerData_def loadPlayerData_def archive_ok_def set_image_def
      player_image_def)

text \<open>
  An archive, to show that the assumption can hold: every value is written as a string
  of marked characters with an end mark.
\<close>

fun put_string :: "string \<Rightarrow> bytes" where
  "put_string [] = ''.''"
| "put_string (c # s) = CHR ''x'' # c # put_string s"

fun get_string :: "bytes \<Rightarrow> (string \<times> bytes) option" where
  "get_string (m # c # r) =
     (if m = CHR ''x'' then map_option (\<lambda>(s, rest). (c # s, rest)) (get_string r)
      else Some ([], c # r))"
| "get_string [m] = Some ([], [])"
| "get_string [] = None"

lemma get_put_string: "get_string (put_string s @ r) = Some (s, r)"
proof (induction s)
  case Nil
  then show ?case by (cases r) simp_all
qed simp

definition put_id :: "s32 \<Rightarrow> bytes" where
  "put_id i = put_string (to_string (sint i))"

definition get_id :: "bytes \<Rightarrow> (s32 \<times> bytes) option" where
  "get_id b = map_option (\<lambda>(s, r). (atoi s, r)) (get_string b)"

lemma get_put_id: "get_id (put_id i @ r) = Some (i, r)"
  by (simp add: put_id_def get_id_def get_put_string atoi_to_string)

fun put_friends :: "(string \<times> s32 option) list \<Rightarrow> bytes" where
  "put_friends [] = ''.''"
| "put_friends ((n, f) # fs) =
     (case f of None \<Rightarrow> CHR ''n'' # put_string n | Some i \<Rightarrow> CHR ''f'' # put_string n @ put_id i) @
     put_friends fs"

fun get_friends :: "nat \<Rightarrow> bytes \<Rightarrow> (string \<times> s32 option) list option" where
  "get_friends (Suc k) (m # r) =
     (if m = CHR ''.'' then Some []
      else Option.bind (get_string r) (\<lambda>(n, r1).
        if m = CHR ''n'' then map_option ((#) (n, None)) (get_friends k r1)
        else Option.bind (get_id r1) (\<lambda>(i, r2). map_option ((#) (n, Some i)) (get_friends k r2))))"
| "get_friends k b = None"

lemma get_put_friends: "length fs < k \<Longrightarrow> get_friends k (put_friends fs) = Some fs"
proof (induction fs arbitrary: k)
  case Nil
  then show ?case by (cases k) simp_all
next
  case (Cons x fs)
  obtain n f where x: "x = (n, f)" by force
  obtain j where "k = Suc j" using Cons.prems by (cases k) auto
  with Cons x show ?case by (cases f) (simp_all add: get_put_string get_put_id)
qed

definition demo_oa :: "image \<Rightarrow> bytes" where
  "demo_oa im = (case im of (i, n, p, fs) \<Rightarrow> put_id i @ put_string n @ put_string p @ put_friends fs)"

definition demo_ia :: "bytes \<Rightarrow> image option" where
  "demo_ia b =
     Option.bind (get_id b) (\<lambda>(i, b1). Option.bind (get_string b1) (\<lambda>(n, b2).
     Option.bind (get_string b2) (\<lambda>(p, b3).
       map_option (\<lambda>fs. (i, n, p, fs)) (get_friends (Suc (length b3)) b3))))"

lemma length_put_friends: "length fs < length (put_friends fs)"
  by (induction fs rule: put_friends.induct) (auto split: option.split)

lemma put_string_ne: "put_string s \<noteq> []"
  by (cases s) simp_all

lemma demo_archive_ok: "archive_ok demo_oa demo_ia"
proof -
  have "demo_ia (demo_oa (i, n, p, fs)) = Some (i, n, p, fs)" for i n p fs
    using length_put_friends [of fs]
    by (simp add: demo_oa_def demo_ia_def get_put_string get_put_id get_put_friends)
  moreover have "demo_oa im \<noteq> []" for im
    by (simp add: demo_oa_def put_id_def put_string_ne split: prod.split)
  ultimately show ?thesis by (simp add: archive_ok_def split_paired_all)
qed

definition demo_player :: Player where
  "demo_player = \<lparr>pid = 4, pname = ''bob'', ppassword = ''secret'', friends = [(''amy'', Some 9)],
     isFriendsChanged = False, talkerName = [], logined = False\<rparr>"

definition demo_disk :: Disk where
  "demo_disk = \<lparr>writable = True, playerFile = None\<rparr>"

lemma save_load_roundtrip_example:
  "\<exists>d'. savePlayerData demo_oa demo_player demo_disk = (True, d') \<and>
        loadPlayerData demo_ia d' (demo_player\<lparr>pid := 0, friends := []\<rparr>) = Inr (True, demo_player)"
  using save_load_roundtrip [OF demo_archive_ok, of demo_disk demo_player
      "demo_player\<lparr>pid := 0, friends := []\<rparr>"]
  by (simp add: demo_disk_def demo_player_def)

text \<open>C36: Adding a friend is undefined exactly when there is room below the limit and the name is the entry
  of a friend deleted before (its null pointer is dereferenced); in every other case it is defined
  and keeps the friend map sound, below the limit it makes the name a live friend with that id and
  changes no other, and at the limit it changes nothing, also for a deleted entry.\<close>

theorem addFriend_outcome:
  assumes "player_ok p"
  shows "case addFriend oa name i p d of
           Inl e \<Rightarrow> e = NullDeref \<and> length (friends p) < MAX_FRIENDS_NUM \<and> om_get (friends p) name = Some None
         | Inr (b, p', d') \<Rightarrow> \<not> (length (friends p) < MAX_FRIENDS_NUM \<and> om_get (friends p) name = Some None) \<and>
             player_ok p' \<and>
             (if length (friends p) < MAX_FRIENDS_NUM then live_friends p' = (live_friends p)(name \<mapsto> i)
              else p' = p \<and> d' = d \<and> \<not> b)"
proof (cases "addFriend oa name i p d")
  case (Inl e)
  then have "e = NullDeref \<and> length (friends p) < MAX_FRIENDS_NUM \<and> om_get (friends p) name = Some None"
    by (simp add: addFriend_null)
  with Inl show ?thesis by simp
next
  case (Inr r)
  obtain b p' d' where r: "r = (b, p', d')" by (cases r)
  have "player_ok p'" using addFriend_ok [OF assms] Inr r by blast
  moreover have "\<not> (length (friends p) < MAX_FRIENDS_NUM \<and> om_get (friends p) name = Some None)"
    using addFriend_null [of oa name i p d NullDeref] Inr by simp
  moreover have "p' = p \<and> d' = d \<and> \<not> b" if "\<not> length (friends p) < MAX_FRIENDS_NUM"
    using that Inr r by (simp add: addFriend_def)
  ultimately show ?thesis using addFriend_live [OF assms] Inr r by auto
qed

theorem addFriend_outcome_witness:
  "case addFriend demo_oa ''zoe'' 3 demo_player demo_disk of
     Inl e \<Rightarrow> False
   | Inr (b, p', d') \<Rightarrow> live_friends p' = (live_friends demo_player)(''zoe'' \<mapsto> 3)"
proof -
  have "player_ok demo_player"
    by (simp add: player_ok_def demo_player_def om_ok_def MAX_FRIENDS_NUM_def)
  from addFriend_outcome [OF this, where oa = demo_oa and name = "''zoe''" and i = 3 and d = demo_disk] show ?thesis
    by (auto simp: demo_player_def om_get_def MAX_FRIENDS_NUM_def split: sum.splits prod.splits)
qed

text \<open>A friend that was deleted cannot be added again: the entry left behind is null and
  is dereferenced.\<close>

lemma readd_deleted_friend:
  assumes "player_ok p" and "om_get (friends p) name = Some (Some i)"
    and "length (friends p) < MAX_FRIENDS_NUM" and "delFriend oa name p d = (b, p', d')"
  shows "b \<and> live_friends p' = (live_friends p)(name := None) \<and>
         addFriend oa name j p' d' = Inl NullDeref"
proof -
  have p': "b" "p' = p\<lparr>friends := om_set name None (friends p), isFriendsChanged := True\<rparr>"
    using assms(2,4) by (simp_all add: delFriend_def om_count_def)
  have ok: "om_ok (friends p)" using assms(1) by (simp add: player_ok_def)
  have "length (friends p') < MAX_FRIENDS_NUM" "om_get (friends p') name = Some None"
    using assms(2,3) by (simp_all add: p' length_om_set ok om.get_set)
  then show ?thesis
    using p'(1) delFriend_live [OF assms(1,4)] by (simp add: addFriend_null)
qed

lemma readd_deleted_friend_example:
  "addFriend demo_oa ''amy'' 9
     (demo_player\<lparr>friends := [(''amy'', None)], isFriendsChanged := True\<rparr>) demo_disk = Inl NullDeref"
  using readd_deleted_friend [of demo_player "''amy''" 9 demo_oa demo_disk True
      "demo_player\<lparr>friends := [(''amy'', None)], isFriendsChanged := True\<rparr>" demo_disk 9]
  by (simp add: player_ok_def demo_player_def om_ok_def MAX_FRIENDS_NUM_def om_get_def
      delFriend_def om_count_def)

end
