(* ===== verification/ClientState.thy ===== *)
theory ClientState
  imports SeqToBin ConcList Player
begin

text \<open>
  The state of the client process: the singletons \<open>SeqToBin\<close> (its queues),
  \<open>IOManger\<close> (talk flag and output queue), \<open>Player\<close> with its data file, \<open>ReadKey\<close> (two
  command queues) and \<open>SysManger\<close> (the pending friend requests), and the lines printed
  on the console. Also the operations of \<open>IOManger\<close> that other components call.
\<close>

section \<open>IOManger, ReadKey and the whole client\<close>

record IOManger =
  talking :: bool
  outputMsg :: "string conc_queue"

text \<open>A queued \<open>Command*\<close> is the command's type.\<close>

record ReadKey =
  cmdQue :: "u32 list"
  sysCmdQue :: "u32 list"

record ClientWorld =
  seq :: SeqToBin
  io :: IOManger
  player :: Player
  disk :: Disk
  keys :: ReadKey
  reqBuff :: "TransObj ConcList"
  console :: "string list"

definition IOManger_new :: IOManger where
  "IOManger_new = \<lparr>talking = False, outputMsg = []\<rparr>"

definition isTalking :: "IOManger \<Rightarrow> bool" where
  "isTalking m = talking m"

definition turnToTalk :: "IOManger \<Rightarrow> IOManger" where
  "turnToTalk m = m\<lparr>talking := True\<rparr>"

definition putOutputMsg :: "string \<Rightarrow> IOManger \<Rightarrow> IOManger" where
  "putOutputMsg ss m = m\<lparr>outputMsg := cq_push ss (outputMsg m)\<rparr>"

definition IOManger_doCommand :: "u32 \<Rightarrow> IOManger \<Rightarrow> IOManger" where
  "IOManger_doCommand cmdType m = (if cmdType = cmdCode CMD_ENTER then turnToTalk m else m)"

definition nl :: string where
  "nl = [CHR 0x0A]"

text \<open>Queue a text for output by the system manager.\<close>

definition put_text :: "string \<Rightarrow> ClientWorld \<Rightarrow> ClientWorld" where
  "put_text ss w = w\<lparr>seq := putSysMsg (SystemMsgObj_text SYS_OUTPUT_MSG ss) (seq w)\<rparr>"

definition login_hint :: string where
  "login_hint =
     ''You should login first.(if not regin -- regin and login first to use the function!)'' @ nl @
     ''Try Regin ==> Regin@yourname|yourpassword'' @ nl @
     ''Try Login ==> Login@yourname|yourpassword'' @ nl @ ''(-_-)'' @ nl"

definition tryLoginFirst :: "ClientWorld \<Rightarrow> bool \<times> ClientWorld" where
  "tryLoginFirst w =
     (if \<not> logined (player w) then (True, put_text login_hint w) else (False, w))"

definition println :: "string \<Rightarrow> ClientWorld \<Rightarrow> ClientWorld" where
  "println s w = w\<lparr>console := console w @ [s]\<rparr>"

lemmas client_defs = putSysMsg_def tryGetSysMsg_def pushBuff_def pushRcvBuff_def turnToTalk_def
  putOutputMsg_def IOManger_doCommand_def put_text_def tryLoginFirst_def println_def

section \<open>The client's invariant\<close>

text \<open>
  The request list's counter is right, the player's friends are an ordered map within
  bounds, and every queued object has a message array of the right size.
\<close>

definition client_ok :: "ClientWorld \<Rightarrow> bool" where
  "client_ok w \<longleftrightarrow>
     cl_inv (reqBuff w) \<and> player_ok (player w) \<and>
     (\<forall>obj \<in> set (buff (seq w)) \<union> set (rcvBuff (seq w)) \<union> set (elems (reqBuff w)).
        wf_size obj)"

lemma put_text_ok [simp]: "client_ok (put_text ss w) = client_ok w"
  by (simp add: client_ok_def client_defs)

lemma tryLoginFirst_ok [simp]: "client_ok (snd (tryLoginFirst w)) = client_ok w"
  by (simp add: tryLoginFirst_def)

lemma tryLoginFirst_frame:
  "player (snd (tryLoginFirst w)) = player w"
  "buff (seq (snd (tryLoginFirst w))) = buff (seq w)"
  "reqBuff (snd (tryLoginFirst w)) = reqBuff w"
  by (simp_all add: client_defs)

end
