(* ===== verification/HandleMsgClient.thy ===== *)
theory HandleMsgClient
  imports ClientState MsgTable
begin

text \<open>
  The message handlers of \<^verbatim>\<open>smer/HandleMsg/src/HandleMsg.cpp\<close> as compiled into the client
  (\<^verbatim>\<open>CLIENT_COMPARE\<close>). A handler's null check on its object is the case None of the
  dispatcher. Reading a message as a C string can run out of the array.
\<close>

section \<open>Handlers\<close>

definition c_handleMsgCmd :: "TransObj \<Rightarrow> s32 \<Rightarrow> ClientWorld \<Rightarrow> ClientWorld res" where
  "c_handleMsgCmd obj fd w = Inr w"

definition c_handleUserSendMsg :: "TransObj \<Rightarrow> ClientWorld \<Rightarrow> ClientWorld res" where
  "c_handleUserSendMsg obj w =
     bind_res (read_cstr (msg obj))
       (\<lambda>m. Inr (put_text (''You just got message from '' @ to_string (sint (tid obj)) @ '' :'' @ nl @
                           m @ '' '' @ nl) w))"

definition c_handleUserRegRefusedMsg :: "TransObj \<Rightarrow> ClientWorld \<Rightarrow> ClientWorld res" where
  "c_handleUserRegRefusedMsg obj w = bind_res (getMsg obj) (\<lambda>m. Inr (put_text m w))"

definition c_handleUserRegAcceptedMsg :: "TransObj \<Rightarrow> ClientWorld \<Rightarrow> ClientWorld res" where
  "c_handleUserRegAcceptedMsg obj w =
     Inr (put_text (''Regin success!'' @ nl) (w\<lparr>player := setPlayerId (tid obj) (player w)\<rparr>))"

definition c_handleUserLogRefusedMsg :: "TransObj \<Rightarrow> ClientWorld \<Rightarrow> ClientWorld res" where
  "c_handleUserLogRefusedMsg obj w = bind_res (read_cstr (msg obj)) (\<lambda>m. Inr (put_text m w))"

definition c_handleUserLogAcceptedMsg ::
  "(image \<Rightarrow> bytes) \<Rightarrow> TransObj \<Rightarrow> ClientWorld \<Rightarrow> ClientWorld res" where
  "c_handleUserLogAcceptedMsg oa obj w =
     bind_res (getName obj) (\<lambda>name. bind_res (getPasswd obj) (\<lambda>passwd.
       let p = setPlayerLogin (tid obj) name passwd (player w);
           (_, d) = savePlayerData oa p (disk w)
       in Inr (put_text (''you have login in success!'' @ nl) (w\<lparr>player := p, disk := d\<rparr>))))"

definition c_handleAskForFriendMsg :: "TransObj \<Rightarrow> ClientWorld \<Rightarrow> ClientWorld res" where
  "c_handleAskForFriendMsg obj w =
     bind_res (read_cstr (msg obj))
       (\<lambda>name. let w1 = put_text (''You have a request from '' @ name) w
               in Inr (w1\<lparr>reqBuff := cl_push_back obj (reqBuff w1)\<rparr>))"

definition c_handleAskForFriendNotFoundMsg :: "TransObj \<Rightarrow> ClientWorld \<Rightarrow> ClientWorld res" where
  "c_handleAskForFriendNotFoundMsg obj w =
     bind_res (read_cstr (msg obj))
       (\<lambda>m. Inr (put_text (''the friend you asked '' @ m @ '' do not exists!'' @ nl) w))"

definition c_handleAskForFriendAcceptMsg ::
  "(image \<Rightarrow> bytes) \<Rightarrow> TransObj \<Rightarrow> ClientWorld \<Rightarrow> ClientWorld res" where
  "c_handleAskForFriendAcceptMsg oa obj w =
     bind_res (getName obj)
       (\<lambda>name. if NAME_MAX_LEN \<le> length name then Inr w
               else bind_res (addFriend oa name (tid obj) (player w) (disk w))
                 (\<lambda>(b, p, d).
                    let w1 = w\<lparr>player := p, disk := d\<rparr>
                    in Inr (if b then put_text
                              (''Your ask friend request had been accepted from '' @ name @ nl) w1
                            else w1)))"

fun client_handler ::
  "(image \<Rightarrow> bytes) \<Rightarrow> MsgHandlerId \<Rightarrow> TransObj \<Rightarrow> s32 \<Rightarrow> ClientWorld \<Rightarrow> ClientWorld res" where
  "client_handler oa H_MsgCmd obj fd w = c_handleMsgCmd obj fd w"
| "client_handler oa H_UserSendMsg obj fd w = c_handleUserSendMsg obj w"
| "client_handler oa H_UserRegMsg obj fd w = Inr w"
| "client_handler oa H_UserRegRefusedMsg obj fd w = c_handleUserRegRefusedMsg obj w"
| "client_handler oa H_UserRegAcceptedMsg obj fd w = c_handleUserRegAcceptedMsg obj w"
| "client_handler oa H_UserLogMsg obj fd w = Inr w"
| "client_handler oa H_UserLogRefusedMsg obj fd w = c_handleUserLogRefusedMsg obj w"
| "client_handler oa H_UserLogAcceptedMsg obj fd w = c_handleUserLogAcceptedMsg oa obj w"
| "client_handler oa H_AskForFriendMsg obj fd w = c_handleAskForFriendMsg obj w"
| "client_handler oa H_AskForFriendNotFoundMsg obj fd w = c_handleAskForFriendNotFoundMsg obj w"
| "client_handler oa H_AskForFriendAcceptMsg obj fd w = c_handleAskForFriendAcceptMsg oa obj w"

definition client_handle ::
  "(image \<Rightarrow> bytes) \<Rightarrow> TransObj option \<Rightarrow> s32 \<Rightarrow> ClientWorld \<Rightarrow> ClientWorld res" where
  "client_handle oa obj fd w =
     (case obj of
        None \<Rightarrow> Inr w
      | Some ob \<Rightarrow> (case find_handler g_msgHandle (msgType ob) of
                      None \<Rightarrow> Inr w
                    | Some h \<Rightarrow> client_handler oa h ob fd w))"

lemmas c_handler_defs = c_handleMsgCmd_def c_handleUserSendMsg_def c_handleUserRegRefusedMsg_def
  c_handleUserRegAcceptedMsg_def c_handleUserLogRefusedMsg_def c_handleUserLogAcceptedMsg_def
  c_handleAskForFriendMsg_def c_handleAskForFriendNotFoundMsg_def c_handleAskForFriendAcceptMsg_def

section \<open>Invariant\<close>

lemma put_text_fields [simp]:
  "player (put_text ss w) = player w" "disk (put_text ss w) = disk w"
  "reqBuff (put_text ss w) = reqBuff w" "buff (seq (put_text ss w)) = buff (seq w)"
  "rcvBuff (seq (put_text ss w)) = rcvBuff (seq w)" "io (put_text ss w) = io w"
  "keys (put_text ss w) = keys w" "console (put_text ss w) = console w"
  by (simp_all add: client_defs)

lemma player_ok_login [simp]: "player_ok (setPlayerLogin i n p pl) = player_ok pl"
  by (simp add: player_ok_def player_defs)

lemma player_ok_setId [simp]: "player_ok (setPlayerId i pl) = player_ok pl"
  by (simp add: player_ok_def player_defs)

lemma addFriend_accept_ok:
  assumes "c_handleAskForFriendAcceptMsg oa obj w = Inr w'" and "client_ok w"
  shows "client_ok w'"
proof -
  have "player_ok (player w)" using assms(2) by (simp add: client_ok_def)
  then have "player_ok p" if "addFriend oa n i (player w) (disk w) = Inr (b, p, d)" for n i b p d
    using that by (rule addFriend_ok)
  with assms show ?thesis
    by (auto simp: c_handleAskForFriendAcceptMsg_def client_ok_def Let_def
        split: if_splits prod.splits)
qed

text \<open>Handling a full-size message keeps the client's invariant.\<close>

lemma client_handle_ok:
  assumes "client_handle oa (Some obj) fd w = Inr w'" and "client_ok w" and "wf_size obj"
  shows "client_ok w'"
proof (cases "find_handler g_msgHandle (msgType obj)")
  case None
  with assms show ?thesis by (simp add: client_handle_def)
next
  case (Some h)
  with assms(1) have run: "client_handler oa h obj fd w = Inr w'"
    by (simp add: client_handle_def)
  show ?thesis
  proof (cases "h = H_AskForFriendAcceptMsg")
    case True
    with run assms(2) show ?thesis by (auto intro: addFriend_accept_ok)
  next
    case False
    with run assms(2,3) show ?thesis
      by (cases h)
         (auto simp: c_handler_defs client_ok_def Let_def cl_inv_push(1) cl_push_back_def
           cl_inv_def split_beta)
  qed
qed

section \<open>Properties\<close>

text \<open>C35: A message that holds its two C strings is handled without undefined behaviour, unless
  it accepts a friendship with someone whose entry was deleted.
\<close>

theorem client_handle_defined:
  assumes "NUL \<in> set (msg obj)" and "NUL \<in> set (drop 24 (msg obj))"
    and "client_handle oa (Some obj) fd w = Inl e"
  shows "msgType obj = msgCode MSG_ASK_FOR_FRIEND_ACCEPT \<and> e = NullDeref \<and>
         om_get (friends (player w)) (cstr (msg obj)) = Some None"
proof (cases "find_handler g_msgHandle (msgType obj)")
  case None
  with assms(3) show ?thesis by (simp add: client_handle_def)
next
  case (Some h)
  with assms(3) have run: "client_handler oa h obj fd w = Inl e"
    by (simp add: client_handle_def)
  have t: "msgType obj = msgCode MSG_ASK_FOR_FRIEND_ACCEPT" if "h = H_AskForFriendAcceptMsg"
    using Some that by (auto simp: g_msgHandle_def split: if_splits)
  show ?thesis
    using run t assms(1,2)
    by (cases h)
       (auto simp: c_handler_defs read_cstr_def getName_def getMsg_def getPasswd_def Let_def
         NAME_MAX_LEN_def addFriend_null bind_res_Inl_iff split: if_splits prod.splits)
qed

theorem client_handle_defined_witness:
  "\<exists>w :: ClientWorld. client_handle demo_oa (Some (TransObj_default\<lparr>msgType := 12\<rparr>)) (-1) w = Inl NullDeref \<and>
     om_get (friends (player w)) (cstr (msg TransObj_default)) = Some None"
proof -
  let ?w = "\<lparr>seq = \<lparr>buff = [], rcvBuff = [], sysBuff = []\<rparr>, io = \<lparr>talking = False, outputMsg = []\<rparr>,
     player = demo_player\<lparr>friends := [([], None)]\<rparr>, disk = demo_disk,
     keys = \<lparr>cmdQue = [], sysCmdQue = []\<rparr>, reqBuff = cl_new, console = []\<rparr> :: ClientWorld"
  have "client_handle demo_oa (Some (TransObj_default\<lparr>msgType := 12\<rparr>)) (-1) ?w = Inl NullDeref"
    by (simp add: client_handle_def c_handleAskForFriendAcceptMsg_def getName_def read_cstr_def
        TransObj_default_def cstr_def max_len_defs addFriend_null bind_res_Inl_iff om_get_def
        MAX_FRIENDS_NUM_def)
  with client_handle_defined [OF _ _ this] show ?thesis
    by (intro exI [of _ ?w]) (simp add: TransObj_default_def max_len_defs)
qed

end
