(* ===== verification/SysManger.thy ===== *)
theory SysManger
  imports HandleMsgClient
begin

text \<open>
  The system manager of \<^verbatim>\<open>smer/SmerSystem\<close>: once per frame it takes one system message,
  one received message and one system command. \<open>getAllRequests\<close> takes its list by value,
  so what \<open>getAllData\<close> appends never reaches the caller.
\<close>

section \<open>The request buffer\<close>

definition pushBackReq :: "TransObj \<Rightarrow> ClientWorld \<Rightarrow> ClientWorld" where
  "pushBackReq req w = w\<lparr>reqBuff := cl_push_back req (reqBuff w)\<rparr>"

definition pushFrontReq :: "TransObj \<Rightarrow> ClientWorld \<Rightarrow> ClientWorld" where
  "pushFrontReq req w = w\<lparr>reqBuff := cl_push_front req (reqBuff w)\<rparr>"

definition popBackReq :: "ClientWorld \<Rightarrow> (TransObj \<times> ClientWorld) option" where
  "popBackReq w = map_option (\<lambda>(x, l). (x, w\<lparr>reqBuff := l\<rparr>)) (cl_pop_back (reqBuff w))"

definition popFrontReq :: "ClientWorld \<Rightarrow> (TransObj \<times> ClientWorld) option" where
  "popFrontReq w = map_option (\<lambda>(x, l). (x, w\<lparr>reqBuff := l\<rparr>)) (cl_pop_front (reqBuff w))"

definition eraseOneReq :: "int \<Rightarrow> ClientWorld \<Rightarrow> (bool \<times> ClientWorld) res" where
  "eraseOneReq index w =
     bind_res (cl_erase index (reqBuff w)) (\<lambda>(b, l). Inr (b, w\<lparr>reqBuff := l\<rparr>))"

definition getOneRequest :: "int \<Rightarrow> ClientWorld \<Rightarrow> TransObj option res" where
  "getOneRequest index w = cl_getOneRequest index (reqBuff w)"

text \<open>The caller's list after \<open>getAllRequests(reqs)\<close>: the parameter is a copy.\<close>

definition getAllRequests :: "ClientWorld \<Rightarrow> TransObj list \<Rightarrow> TransObj list" where
  "getAllRequests w reqs = (let _ = cl_getAllData (reqBuff w) reqs in reqs)"

section \<open>System messages\<close>

definition handleSysMsgOfShowOutputMsg :: "SystemMsgObj \<Rightarrow> ClientWorld \<Rightarrow> ClientWorld" where
  "handleSysMsgOfShowOutputMsg sysObj w =
     (case sysMsgPtr sysObj of
        None \<Rightarrow> w
      | Some sspt \<Rightarrow> w\<lparr>io := putOutputMsg sspt (io w)\<rparr>)"

text \<open>The loop over the requests prints the index 0 for each: \<open>i\<close> is never incremented.\<close>

fun request_lines :: "TransObj list \<Rightarrow> string res" where
  "request_lines [] = Inr []"
| "request_lines (r # rs) =
     bind_res (read_cstr (msg r)) (\<lambda>m. bind_res (request_lines rs)
       (\<lambda>rest. Inr (to_string 0 @ '': '' @ m @ '' '' @ nl @ rest)))"

definition handleSysMsgOfShowAskForFriendReq :: "SystemMsgObj option \<Rightarrow> ClientWorld \<Rightarrow> ClientWorld res" where
  "handleSysMsgOfShowAskForFriendReq sysObj w =
     (case sysObj of
        None \<Rightarrow> Inr w
      | Some _ \<Rightarrow>
          bind_res (request_lines (getAllRequests w []))
            (\<lambda>t. Inr (w\<lparr>io := putOutputMsg (''All requests list down here: '' @ nl @ t) (io w)\<rparr>)))"

text \<open>Live friends in name order, numbered from 1, a line break after every third.\<close>

fun friend_lines :: "int \<Rightarrow> (string \<times> s32 option) list \<Rightarrow> string" where
  "friend_lines i [] = []"
| "friend_lines i ((name, f) # fs) =
     (case f of
        None \<Rightarrow> friend_lines i fs
      | Some _ \<Rightarrow>
          to_string i @ '': '' @ name @ ''. '' @ (if (i + 1) mod 3 = 0 then nl else []) @
          friend_lines (i + 1) fs)"

definition handleSysMsgOfShowFriends :: "SystemMsgObj \<Rightarrow> ClientWorld \<Rightarrow> ClientWorld" where
  "handleSysMsgOfShowFriends sysObj w =
     w\<lparr>io := putOutputMsg (friend_lines 1 (friends (player w))) (io w)\<rparr>"

text \<open>The table; its loop runs every entry whose type matches.\<close>

datatype SysHandlerId = ShowOutputMsg | ShowFriends | ShowAskForFriendReq

definition sysMsgHandleTable :: "(u32 \<times> SysHandlerId) list" where
  "sysMsgHandleTable =
     [(sysMsgCode SYS_OUTPUT_MSG, ShowOutputMsg),
      (sysMsgCode SYS_SHOW_FRIENDS_MSG, ShowFriends),
      (sysMsgCode SYS_SHOW_ASK_FOR_FRIEND_REQ, ShowAskForFriendReq)]"

fun run_sys_handler :: "SysHandlerId \<Rightarrow> SystemMsgObj \<Rightarrow> ClientWorld \<Rightarrow> ClientWorld res" where
  "run_sys_handler ShowOutputMsg m w = Inr (handleSysMsgOfShowOutputMsg m w)"
| "run_sys_handler ShowFriends m w = Inr (handleSysMsgOfShowFriends m w)"
| "run_sys_handler ShowAskForFriendReq m w = handleSysMsgOfShowAskForFriendReq (Some m) w"

fun run_sys_table :: "(u32 \<times> SysHandlerId) list \<Rightarrow> SystemMsgObj \<Rightarrow> ClientWorld \<Rightarrow> ClientWorld res" where
  "run_sys_table [] m w = Inr w"
| "run_sys_table ((t, h) # table) m w =
     (if t = sysMsgType m then bind_res (run_sys_handler h m w) (run_sys_table table m)
      else run_sys_table table m w)"

definition handleSysMsg :: "ClientWorld \<Rightarrow> ClientWorld res" where
  "handleSysMsg w =
     (case tryGetSysMsg (seq w) of
        (None, s) \<Rightarrow> Inr (w\<lparr>seq := s\<rparr>)
      | (Some m, s) \<Rightarrow> run_sys_table sysMsgHandleTable m (w\<lparr>seq := s\<rparr>))"

section \<open>Received messages, system commands, the whole step\<close>

definition handleRecvMsg :: "(image \<Rightarrow> bytes) \<Rightarrow> ClientWorld \<Rightarrow> ClientWorld res" where
  "handleRecvMsg oa w =
     (case cq_tryAndPop (rcvBuff (seq w)) of
        (None, q) \<Rightarrow> Inr w
      | (Some obj, q) \<Rightarrow> client_handle oa (Some obj) (-1) (w\<lparr>seq := (seq w)\<lparr>rcvBuff := q\<rparr>\<rparr>))"

definition handleSysInput :: "ClientWorld \<Rightarrow> ClientWorld" where
  "handleSysInput w =
     (case sysCmdQue (keys w) of
        [] \<Rightarrow> w
      | cmd # rest \<Rightarrow>
          (let w1 = w\<lparr>keys := (keys w)\<lparr>sysCmdQue := rest\<rparr>\<rparr>
           in if cmd = cmdCode CMD_ENTER
              then w1\<lparr>io := IOManger_doCommand cmd (io w1)\<rparr> else w1))"

definition handleSystem :: "(image \<Rightarrow> bytes) \<Rightarrow> ClientWorld \<Rightarrow> ClientWorld res" where
  "handleSystem oa w =
     bind_res (handleSysMsg w) (\<lambda>w1. bind_res (handleRecvMsg oa w1) (\<lambda>w2. Inr (handleSysInput w2)))"

section \<open>What the frame does\<close>

lemma sys_table_code [simp]:
  "run_sys_table sysMsgHandleTable (SystemMsgObj_text SYS_OUTPUT_MSG ss) w =
     Inr (w\<lparr>io := putOutputMsg ss (io w)\<rparr>)"
  by (simp add: sysMsgHandleTable_def SystemMsgObj_text_def handleSysMsgOfShowOutputMsg_def)

text \<open>The text at the head of the system queue moves to the output queue.\<close>

lemma handleSysMsg_text:
  assumes "sysBuff (seq w) = SystemMsgObj_text SYS_OUTPUT_MSG ss # rest"
  shows "handleSysMsg w =
     Inr (w\<lparr>seq := (seq w)\<lparr>sysBuff := rest\<rparr>, io := putOutputMsg ss (io w)\<rparr>)"
  using assms by (simp add: handleSysMsg_def tryGetSysMsg_def cq_defs)

text \<open>Asked for the pending requests, the client prints the heading only.\<close>

lemma show_requests_empty:
  "handleSysMsgOfShowAskForFriendReq (Some m) w =
     Inr (w\<lparr>io := putOutputMsg (''All requests list down here: '' @ nl) (io w)\<rparr>)"
  by (simp add: handleSysMsgOfShowAskForFriendReq_def getAllRequests_def Let_def)

lemma handleSysMsg_ok:
  assumes "handleSysMsg w = Inr w'" and "client_ok w"
  shows "client_ok w'"
proof (cases "sysBuff (seq w)")
  case Nil
  with assms show ?thesis
    by (auto simp: handleSysMsg_def tryGetSysMsg_def cq_defs client_ok_def)
next
  case (Cons m rest)
  with assms show ?thesis
    by (auto simp: handleSysMsg_def tryGetSysMsg_def cq_defs client_ok_def sysMsgHandleTable_def
        show_requests_empty handleSysMsgOfShowFriends_def handleSysMsgOfShowOutputMsg_def
        split: if_splits option.splits)
qed

text \<open>Handling a system message is always defined.\<close>

lemma handleSysMsg_defined: "handleSysMsg w \<noteq> Inl e"
  by (auto simp: handleSysMsg_def tryGetSysMsg_def cq_defs sysMsgHandleTable_def
      show_requests_empty split: list.splits)

lemma handleRecvMsg_ok:
  assumes "handleRecvMsg oa w = Inr w'" and "client_ok w"
  shows "client_ok w'"
proof (cases "rcvBuff (seq w)")
  case Nil
  with assms show ?thesis by (simp add: handleRecvMsg_def cq_defs)
next
  case (Cons obj rest)
  let ?w = "w\<lparr>seq := (seq w)\<lparr>rcvBuff := rest\<rparr>\<rparr>"
  have "client_ok ?w" "wf_size obj" using assms(2) Cons by (auto simp: client_ok_def)
  moreover have "client_handle oa (Some obj) (-1) ?w = Inr w'"
    using assms(1) Cons by (simp add: handleRecvMsg_def cq_defs)
  ultimately show ?thesis by (blast intro: client_handle_ok)
qed

lemma handleSysInput_ok: "client_ok w \<Longrightarrow> client_ok (handleSysInput w)"
  by (auto simp: handleSysInput_def client_ok_def Let_def split: list.splits)

lemma handleSystem_ok:
  assumes "handleSystem oa w = Inr w'" and "client_ok w"
  shows "client_ok w'"
  using assms
  by (auto simp: handleSystem_def
      dest: handleSysMsg_ok handleRecvMsg_ok intro: handleSysInput_ok)

section \<open>Properties\<close>

text \<open>Asked to show the pending friend requests, the client prints the heading only,
  however many requests are pending.\<close>

lemma pending_requests_not_shown:
  assumes "sysBuff (seq w) = SystemMsgObj_type SYS_SHOW_ASK_FOR_FRIEND_REQ # rest"
  shows "handleSysMsg w =
     Inr (w\<lparr>seq := (seq w)\<lparr>sysBuff := rest\<rparr>,
            io := putOutputMsg (''All requests list down here: '' @ nl) (io w)\<rparr>)"
  using assms
  by (simp add: handleSysMsg_def tryGetSysMsg_def cq_defs SystemMsgObj_type_def
      sysMsgHandleTable_def show_requests_empty)

lemma pending_requests_not_shown_example:
  "\<exists>w. length (elems (reqBuff w)) = 1 \<and>
     (\<exists>w'. handleSysMsg w = Inr w' \<and> outputMsg (io w') = [''All requests list down here: '' @ nl])"
proof -
  define w where "w = \<lparr>seq = \<lparr>buff = [], rcvBuff = [],
       sysBuff = [SystemMsgObj_type SYS_SHOW_ASK_FOR_FRIEND_REQ]\<rparr>,
     io = \<lparr>talking = False, outputMsg = []\<rparr>, player = demo_player, disk = demo_disk,
     keys = \<lparr>cmdQue = [], sysCmdQue = []\<rparr>, reqBuff = cl_push_back TransObj_default cl_new,
     console = []\<rparr>"
  have "handleSysMsg w =
     Inr (w\<lparr>seq := (seq w)\<lparr>sysBuff := []\<rparr>,
            io := putOutputMsg (''All requests list down here: '' @ nl) (io w)\<rparr>)"
    by (rule pending_requests_not_shown) (simp add: w_def)
  then show ?thesis
    by (intro exI [of _ w]) (simp add: w_def putOutputMsg_def cq_push_def cl_push_back_def cl_new_def)
qed

end
