(* ===== verification/InputUtil.thy ===== *)
theory InputUtil
  imports ClientState
begin

text \<open>
  The command line of the client, \<^verbatim>\<open>smer/Util/src/Util.cpp\<close>: a typed line is split at
  \<open>@\<close> into a command word and its argument and handed to the command's handler, which
  may produce a message to send. \<open>boost::split\<close> is the parameter \<open>split\<close> (source, set
  of separators); \<open>oa\<close> is the archive of the player file and \<open>g\<close> what uninitialised
  message storage holds.
\<close>

section \<open>Splitting\<close>

text \<open>
  The documented behaviour of \<open>boost::split\<close> with \<open>is_any_of\<close> and no token
  compression: joining the tokens with a single separator gives the source, no token
  holds the separator, and there is at least one token.
\<close>

definition join :: "char \<Rightarrow> string list \<Rightarrow> string" where
  "join c ts = (case ts of [] \<Rightarrow> [] | t # rest \<Rightarrow> t @ concat (map (\<lambda>u. c # u) rest))"

definition boost_split_ok :: "(string \<Rightarrow> string \<Rightarrow> string list) \<Rightarrow> bool" where
  "boost_split_ok split \<longleftrightarrow>
     (\<forall>s c. split s [c] \<noteq> [] \<and> join c (split s [c]) = s \<and>
            (\<forall>t \<in> set (split s [c]). c \<notin> set t))"

definition splitStr :: "(string \<Rightarrow> string \<Rightarrow> string list) \<Rightarrow> string \<Rightarrow> string \<Rightarrow> string list" where
  "splitStr split source fg = split source fg"

definition splitInputStr2NameAndPwd ::
  "(string \<Rightarrow> string \<Rightarrow> string list) \<Rightarrow> string \<Rightarrow> bool \<times> string list" where
  "splitInputStr2NameAndPwd split input =
     (let res = splitStr split input ''|''
      in (if length res \<le> 1 \<or> length res > 2 \<or> length (res ! 0) > NAME_MAX_LEN - 1 \<or>
             length (res ! 1) > PASSWORD_MAX_LEN - 1
          then (False, res) else (True, res)))"

section \<open>The handlers of the commands\<close>

type_synonym input_result = "(TransObj option \<times> ClientWorld) res"

definition handleInputOfLogin ::
  "(string \<Rightarrow> string \<Rightarrow> string list) \<Rightarrow> TransObj \<Rightarrow> string \<Rightarrow> ClientWorld \<Rightarrow> input_result" where
  "handleInputOfLogin split g input w =
     (case splitInputStr2NameAndPwd split input of
        (False, _) \<Rightarrow> Inr (None, w)
      | (True, res) \<Rightarrow>
          bind_res (setNamePasswd (res ! 0) (res ! 1)
                      (TransObj_all g (-1) (-1) (msgCode MSG_LOGIN) (of_nat MAX_TRANS_MSG_LEN) (-1)))
            (\<lambda>(ok, obj). Inr (if ok then Some obj else None, w)))"

definition handleInputOfLogout :: "TransObj \<Rightarrow> string \<Rightarrow> ClientWorld \<Rightarrow> input_result" where
  "handleInputOfLogout g input w =
     (case tryLoginFirst w of
        (True, w1) \<Rightarrow> Inr (None, w1)
      | (False, w1) \<Rightarrow>
          Inr (Some (setMsgType (msgCode MSG_LOGOUT)
                       (TransObj_all g (-1) (-1) (msgCode MSG_LOGOUT) (-1) (-1))), w1))"

definition handleInputOfRegin ::
  "(string \<Rightarrow> string \<Rightarrow> string list) \<Rightarrow> TransObj \<Rightarrow> string \<Rightarrow> ClientWorld \<Rightarrow> input_result" where
  "handleInputOfRegin split g input w =
     (case splitInputStr2NameAndPwd split input of
        (False, _) \<Rightarrow> Inr (None, w)
      | (True, res) \<Rightarrow>
          bind_res (setNamePasswd (res ! 0) (res ! 1)
                      (TransObj_all g (-1) (-1) (msgCode MSG_REG) (of_nat MAX_TRANS_MSG_LEN) (-1)))
            (\<lambda>(ok, obj). Inr (if ok then Some obj else None, w)))"

definition handleInputOfAskForFriend :: "TransObj \<Rightarrow> string \<Rightarrow> ClientWorld \<Rightarrow> input_result" where
  "handleInputOfAskForFriend g input w =
     (case tryLoginFirst w of
        (True, w1) \<Rightarrow> Inr (None, w1)
      | (False, w1) \<Rightarrow>
          if NAME_MAX_LEN \<le> length input then Inr (None, w1)
          else Inr (Some (snd (setMsg input
                      (TransObj_all g (-1) (-1) (msgCode MSG_ASK_FOR_FRIEND)
                         (of_nat MAX_TRANS_MSG_LEN) (-1)))), w1))"

definition handleInputOfChoseTalker :: "TransObj \<Rightarrow> string \<Rightarrow> ClientWorld \<Rightarrow> input_result" where
  "handleInputOfChoseTalker g input w =
     (case tryLoginFirst w of
        (True, w1) \<Rightarrow> Inr (None, w1)
      | (False, w1) \<Rightarrow>
          if NAME_MAX_LEN \<le> length input then Inr (None, w1)
          else Inr (Some (snd (setMsg input
                      (TransObj_all g (-1) (-1) (msgCode MSG_ASK_FOR_FRIEND)
                         (of_nat MAX_TRANS_MSG_LEN) (-1)))),
                    w1\<lparr>player := setTalkerName input (player w1)\<rparr>))"

definition handleInputOfShowFriends :: "string \<Rightarrow> ClientWorld \<Rightarrow> input_result" where
  "handleInputOfShowFriends input w =
     (case tryLoginFirst w of
        (True, w1) \<Rightarrow> Inr (None, w1)
      | (False, w1) \<Rightarrow>
          Inr (None, w1\<lparr>seq := putSysMsg (SystemMsgObj_type SYS_SHOW_FRIENDS_MSG) (seq w1)\<rparr>))"

definition handleInputOfShowRequests :: "string \<Rightarrow> ClientWorld \<Rightarrow> input_result" where
  "handleInputOfShowRequests input w =
     (case tryLoginFirst w of
        (True, w1) \<Rightarrow> Inr (None, w1)
      | (False, w1) \<Rightarrow>
          Inr (None, w1\<lparr>seq := putSysMsg (SystemMsgObj_type SYS_SHOW_ASK_FOR_FRIEND_REQ) (seq w1)\<rparr>))"

definition containsReqIdx :: "int \<Rightarrow> ClientWorld \<Rightarrow> bool" where
  "containsReqIdx index w \<longleftrightarrow> 0 \<le> index \<and> index < cl_getSize (reqBuff w)"

definition handleInputOfAccRequest ::
  "(image \<Rightarrow> bytes) \<Rightarrow> TransObj \<Rightarrow> string \<Rightarrow> ClientWorld \<Rightarrow> input_result" where
  "handleInputOfAccRequest oa g input w =
     (case tryLoginFirst w of
        (True, w1) \<Rightarrow> Inr (None, w1)
      | (False, w1) \<Rightarrow>
          (let index = sint (atoi input)
           in if containsReqIdx index w1
              then bind_res (cl_getOneRequest index (reqBuff w1))
                (\<lambda>found. case found of
                   None \<Rightarrow>
                     Inr (None, put_text (''Your command of accept the request send err'' @ '' '' @ nl) w1)
                 | Some reqObj \<Rightarrow>
                     bind_res (read_cstr (msg reqObj))
                       (\<lambda>name.
                          let obj = TransObj_all g (pid (player w1)) (tid reqObj)
                                      (msgCode MSG_ASK_FOR_FRIEND_ACCEPT)
                                      (of_nat MAX_TRANS_MSG_LEN) (-1);
                              w2 = put_text
                                (''Your command of accept the request have been send'' @ '' '' @ nl) w1
                          in bind_res (addFriend oa name (tid reqObj) (player w2) (disk w2))
                               (\<lambda>(_, p, d). Inr (Some obj, w2\<lparr>player := p, disk := d\<rparr>))))
              else Inr (None, put_text
                (''Your input number of accepted request id not exists ==> '' @ input @ '' '' @ nl) w1)))"

definition handleInputOfShowMySelf :: "string \<Rightarrow> ClientWorld \<Rightarrow> input_result" where
  "handleInputOfShowMySelf input w =
     Inr (None, put_text
       (''Your info: '' @ '' '' @ nl @
        ''id: '' @ to_string (sint (pid (player w))) @ '' '' @ nl @
        ''name: '' @ pname (player w) @ '' '' @ nl @
        ''passwd: '' @ ppassword (player w) @ '' '' @ nl) w)"

section \<open>The command table\<close>

datatype InputHandler =
    OfLogin | OfLogout | OfRegin | OfAskForFriend | OfChoseTalker | OfShowFriends
  | OfShowRequests | OfAccRequest | OfShowMySelf

definition communicationCmdTable :: "(string \<times> InputHandler) list" where
  "communicationCmdTable =
     [(''li'', OfLogin), (''login'', OfLogin), (''Login'', OfLogin), (''LOGIN'', OfLogin),
      (''lo'', OfLogout), (''logout'', OfLogout), (''Logout'', OfLogout), (''LOGOUT'', OfLogout),
      (''rg'', OfRegin), (''regin'', OfRegin), (''Regin'', OfRegin), (''REGIN'', OfRegin),
      (''ad'', OfAskForFriend), (''add'', OfAskForFriend), (''Add'', OfAskForFriend),
      (''ch'', OfChoseTalker), (''chose'', OfChoseTalker), (''Chose'', OfChoseTalker),
      (''CHOSE'', OfChoseTalker),
      (''sf'', OfShowFriends), (''showfriends'', OfShowFriends), (''showFriends'', OfShowFriends),
      (''ShowFriends'', OfShowFriends),
      (''sr'', OfShowRequests), (''showrequests'', OfShowRequests),
      (''showRequests'', OfShowRequests), (''ShowRequests'', OfShowRequests),
      (''SHOWREQUESTS'', OfShowRequests),
      (''ar'', OfAccRequest), (''acceptrequest'', OfAccRequest), (''acceptRequest'', OfAccRequest),
      (''Acceptrequest'', OfAccRequest), (''ACCEPTREQUEST'', OfAccRequest),
      (''Me'', OfShowMySelf), (''me'', OfShowMySelf)]"

fun run_handler ::
  "(string \<Rightarrow> string \<Rightarrow> string list) \<Rightarrow> (image \<Rightarrow> bytes) \<Rightarrow> TransObj \<Rightarrow> InputHandler \<Rightarrow> string \<Rightarrow>
   ClientWorld \<Rightarrow> input_result" where
  "run_handler split oa g OfLogin = handleInputOfLogin split g"
| "run_handler split oa g OfLogout = handleInputOfLogout g"
| "run_handler split oa g OfRegin = handleInputOfRegin split g"
| "run_handler split oa g OfAskForFriend = handleInputOfAskForFriend g"
| "run_handler split oa g OfChoseTalker = handleInputOfChoseTalker g"
| "run_handler split oa g OfShowFriends = handleInputOfShowFriends"
| "run_handler split oa g OfShowRequests = handleInputOfShowRequests"
| "run_handler split oa g OfAccRequest = handleInputOfAccRequest oa g"
| "run_handler split oa g OfShowMySelf = handleInputOfShowMySelf"

text \<open>The loop over the table stops at the first entry with the command word.\<close>

fun dispatch_input :: "(string \<times> InputHandler) list \<Rightarrow> string \<Rightarrow> InputHandler option" where
  "dispatch_input [] cmdType = None"
| "dispatch_input ((comtype, handler) # table) cmdType =
     (if cmdType = comtype then Some handler else dispatch_input table cmdType)"

definition getMsgFromInput ::
  "(string \<Rightarrow> string \<Rightarrow> string list) \<Rightarrow> (image \<Rightarrow> bytes) \<Rightarrow> TransObj \<Rightarrow> string \<Rightarrow> ClientWorld \<Rightarrow> input_result" where
  "getMsgFromInput split oa g input w =
     (let res = splitStr split input ''@''; n = length res
      in if n > 2 \<or> n < 1 then Inr (None, w)
         else if n = 1 then
           (case tryLoginFirst w of
              (True, w1) \<Rightarrow> Inr (None, w1)
            | (False, w1) \<Rightarrow>
                Inr (Some (snd (setMsg input (TransObj_all g 1 1 (msgCode MSG_TALK) 1 1))), w1))
         else (case dispatch_input communicationCmdTable (res ! 0) of
                 None \<Rightarrow> Inr (None, w)
               | Some h \<Rightarrow> run_handler split oa g h (res ! 1) w))"

section \<open>Splitting is determined by its documentation\<close>

definition split_ref :: "string \<Rightarrow> string \<Rightarrow> string list" where
  "split_ref s fg = split_char (hd fg) s"

lemma join_Cons: "ts \<noteq> [] \<Longrightarrow> join c (t # ts) = t @ c # join c ts"
  by (cases ts) (simp_all add: join_def)

lemma join_single: "join c [t] = t"
  by (simp add: join_def)

lemma join_head: "join c ((x # t) # ts) = x # join c (t # ts)"
  by (simp add: join_def)

lemma join_split_char: "join c (split_char c s) = s"
  by (induction c s rule: split_char.induct)
     (auto simp: join_single join_Cons join_head split: list.splits)

lemma split_char_free: "\<forall>t \<in> set (split_char c s). c \<notin> set t"
  by (induction c s rule: split_char.induct) (auto split: list.splits)

lemma split_char_join: "ts \<noteq> [] \<Longrightarrow> \<forall>t \<in> set ts. c \<notin> set t \<Longrightarrow> split_char c (join c ts) = ts"
proof (induction ts)
  case Nil
  then show ?case by simp
next
  case (Cons t ts)
  then show ?case
    by (cases "ts = []") (simp_all add: join_single join_Cons split_char_no_sep split_char_sep)
qed

lemma boost_split_unique: "boost_split_ok split \<Longrightarrow> split s [c] = split_char c s"
  unfolding boost_split_ok_def by (metis split_char_join)

lemma boost_split_ref: "boost_split_ok split_ref"
  by (simp add: boost_split_ok_def split_ref_def join_split_char split_char_free)

lemma splitStr_two:
  assumes "boost_split_ok split" and "c \<notin> set a" and "c \<notin> set b"
  shows "splitStr split (a @ c # b) [c] = [a, b]"
  using assms by (simp add: splitStr_def boost_split_unique split_char_sep split_char_no_sep)

section \<open>Login and registration lines\<close>

definition clean :: "string \<Rightarrow> bool" where
  "clean s \<longleftrightarrow> set s \<inter> {CHR ''@'', CHR ''|'', CHR ''%'', NUL} = {}"

lemma cleanD:
  assumes "clean s"
  shows "CHR ''@'' \<notin> set s" "CHR ''|'' \<notin> set s" "percent_free s" "cstr s = s"
  using assms by (auto simp: clean_def percent_free_def intro: cstr_id)

text \<open>The object either command builds from a name and a password within the limits.\<close>

definition credentials :: "TransObj \<Rightarrow> MsgType \<Rightarrow> string \<Rightarrow> string \<Rightarrow> TransObj" where
  "credentials g t name pw =
     (TransObj_all g (-1) (-1) (msgCode t) (of_nat MAX_TRANS_MSG_LEN) (-1))
       \<lparr>msg := (name @ replicate (24 - length name) NUL) @ (pw @ replicate (40 - length pw) NUL)\<rparr>"

lemma setNamePasswd_credentials:
  assumes "wf_size g" and "clean name" "clean pw" and "length name < 24" "length pw < 40"
  shows "setNamePasswd name pw
           (TransObj_all g (-1) (-1) (msgCode t) (of_nat MAX_TRANS_MSG_LEN) (-1)) =
         Inr (True, credentials g t name pw)"
  using assms setNamePasswd_stores [of "TransObj_all g (-1) (-1) (msgCode t)
      (of_nat MAX_TRANS_MSG_LEN) (-1)" name name pw pw]
  by (simp add: cleanD cformat_plain credentials_def)

lemma getName_credentials:
  assumes "NUL \<notin> set name" and "length name < 24"
  shows "getName (credentials g t name pw) = Inr name"
proof -
  have "replicate (24 - length name) NUL = NUL # replicate (23 - length name) NUL"
    using assms(2) by (simp add: Suc_diff_le flip: replicate_Suc)
  then show ?thesis
    using assms by (simp add: getName_def read_cstr_def credentials_def cstr_append_NUL)
qed

lemma getPasswd_credentials:
  assumes "NUL \<notin> set pw" and "length pw < 40" and "length name < 24"
  shows "getPasswd (credentials g t name pw) = Inr pw"
  using assms
  by (simp add: getPasswd_def read_cstr_def credentials_def NAME_MAX_LEN_def cstr_append_zeros)

lemma splitInput_credentials:
  assumes "boost_split_ok split" and "clean name" "clean pw" and "length name < 24" "length pw < 40"
  shows "splitInputStr2NameAndPwd split (name @ ''|'' @ pw) = (True, [name, pw])"
  using assms
  by (simp add: splitInputStr2NameAndPwd_def splitStr_two cleanD max_len_defs)

lemma command_line:
  assumes "boost_split_ok split" and "CHR ''@'' \<notin> set word" and "CHR ''@'' \<notin> set arg"
    and "dispatch_input communicationCmdTable word = Some h"
  shows "getMsgFromInput split oa g (word @ ''@'' @ arg) w = run_handler split oa g h arg w"
  using assms by (simp add: getMsgFromInput_def splitStr_two)

lemma clean_pair: "clean name \<Longrightarrow> clean pw \<Longrightarrow> CHR ''@'' \<notin> set (name @ ''|'' @ pw)"
  by (simp add: cleanD)

section \<open>Invariant\<close>

text \<open>
  Every command keeps the client's invariant, leaves the outgoing and incoming queues
  and the request list alone, and yields an object with a full-size message.
\<close>

definition input_frame :: "ClientWorld \<Rightarrow> ClientWorld \<Rightarrow> bool" where
  "input_frame w w' \<longleftrightarrow>
     buff (seq w') = buff (seq w) \<and> rcvBuff (seq w') = rcvBuff (seq w) \<and>
     reqBuff w' = reqBuff w \<and> io w' = io w \<and> keys w' = keys w \<and> console w' = console w"

lemma input_frame_refl [simp]: "input_frame w w"
  by (simp add: input_frame_def)

lemma input_frame_text [simp]: "input_frame w (put_text ss w)"
  by (simp add: input_frame_def client_defs)

lemma input_frame_player: "input_frame w w1 \<Longrightarrow> input_frame w (w1\<lparr>player := p, disk := d\<rparr>)"
  by (simp add: input_frame_def)

lemma tryLoginFirst_cases:
  assumes "tryLoginFirst w = (b, w1)"
  shows "(b \<and> w1 = put_text login_hint w \<and> \<not> logined (player w)) \<or>
         (\<not> b \<and> w1 = w \<and> logined (player w))"
  using assms by (auto simp: tryLoginFirst_def split: if_splits)

text \<open>Without a login the guarded commands only queue the hint.\<close>

definition guarded :: "InputHandler \<Rightarrow> bool" where
  "guarded h \<longleftrightarrow> h \<notin> {OfLogin, OfRegin, OfShowMySelf}"

lemma guarded_not_logined:
  assumes "guarded h" and "\<not> logined (player w)"
  shows "run_handler split oa g h arg w = Inr (None, put_text login_hint w)"
  using assms
  by (cases h)
     (simp_all add: guarded_def tryLoginFirst_def handleInputOfLogout_def
       handleInputOfAskForFriend_def handleInputOfChoseTalker_def handleInputOfShowFriends_def
       handleInputOfShowRequests_def handleInputOfAccRequest_def)

text \<open>What each command may send, and with which state it leaves the client.\<close>

fun sends :: "InputHandler \<Rightarrow> MsgType option" where
  "sends OfLogin = Some MSG_LOGIN"
| "sends OfRegin = Some MSG_REG"
| "sends OfLogout = Some MSG_LOGOUT"
| "sends OfAskForFriend = Some MSG_ASK_FOR_FRIEND"
| "sends OfChoseTalker = Some MSG_ASK_FOR_FRIEND"
| "sends OfAccRequest = Some MSG_ASK_FOR_FRIEND_ACCEPT"
| "sends _ = None"

lemma run_handler_sends:
  assumes "run_handler split oa g h arg w = Inr (Some obj, w')"
  shows "\<exists>t. sends h = Some t \<and> msgType obj = msgCode t"
proof (cases h)
  case OfLogin
  with assms show ?thesis
    by (auto simp: handleInputOfLogin_def TransObj_all_def dest: setNamePasswd_fields(1)
        split: prod.splits bool.splits if_splits)
next
  case OfRegin
  with assms show ?thesis
    by (auto simp: handleInputOfRegin_def TransObj_all_def dest: setNamePasswd_fields(1)
        split: prod.splits bool.splits if_splits)
next
  case OfAccRequest
  with assms show ?thesis
    by (auto simp: handleInputOfAccRequest_def TransObj_all_def Let_def
        split: prod.splits bool.splits if_splits option.splits)
qed (use assms in \<open>auto simp: handleInputOfLogout_def handleInputOfAskForFriend_def
    handleInputOfChoseTalker_def handleInputOfShowFriends_def handleInputOfShowRequests_def
    handleInputOfShowMySelf_def TransObj_all_def setter_defs
    split: prod.splits bool.splits if_splits\<close>)

lemma run_handler_frame:
  assumes "run_handler split oa g h arg w = Inr (m, w')"
  shows "input_frame w w'"
proof (cases h)
  case OfAccRequest
  with assms show ?thesis
    by (auto simp: handleInputOfAccRequest_def Let_def input_frame_def client_defs
        split: prod.splits bool.splits if_splits option.splits)
qed (use assms in \<open>auto simp: handleInputOfLogout_def handleInputOfAskForFriend_def
    handleInputOfChoseTalker_def handleInputOfShowFriends_def handleInputOfShowRequests_def
    handleInputOfShowMySelf_def handleInputOfLogin_def handleInputOfRegin_def
    input_frame_def client_defs
    split: prod.splits bool.splits if_splits\<close>)

lemma run_handler_size:
  assumes "run_handler split oa g h arg w = Inr (Some obj, w')" and "wf_size g"
  shows "wf_size obj"
proof (cases h)
  case OfLogin
  with assms show ?thesis
    by (auto simp: handleInputOfLogin_def dest: wf_size_setNamePasswd [rotated]
        split: prod.splits bool.splits if_splits)
next
  case OfRegin
  with assms show ?thesis
    by (auto simp: handleInputOfRegin_def dest: wf_size_setNamePasswd [rotated]
        split: prod.splits bool.splits if_splits)
next
  case OfAccRequest
  with assms show ?thesis
    by (auto simp: handleInputOfAccRequest_def Let_def
        split: prod.splits bool.splits if_splits option.splits)
qed (use assms in \<open>auto simp: handleInputOfLogout_def handleInputOfAskForFriend_def
    handleInputOfChoseTalker_def handleInputOfShowFriends_def handleInputOfShowRequests_def
    handleInputOfShowMySelf_def
    split: prod.splits bool.splits if_splits\<close>)

lemma accRequest_player:
  assumes "handleInputOfAccRequest oa g input w = Inr (m, w')"
  shows "player w' = player w \<or>
    (\<exists>name i b. addFriend oa name i (player w) (disk w) = Inr (b, player w', disk w'))"
  using assms
  by (fastforce simp: handleInputOfAccRequest_def Let_def client_defs
      split: prod.splits bool.splits if_splits option.splits)

lemma run_handler_player:
  assumes "run_handler split oa g h arg w = Inr (m, w')" and "player_ok (player w)"
  shows "player_ok (player w')"
proof (cases h)
  case OfAccRequest
  with assms accRequest_player [of oa g arg w m w'] show ?thesis
    by (auto intro: addFriend_ok)
qed (use assms in \<open>auto simp: handleInputOfLogout_def handleInputOfAskForFriend_def
    handleInputOfChoseTalker_def handleInputOfShowFriends_def handleInputOfShowRequests_def
    handleInputOfShowMySelf_def handleInputOfLogin_def handleInputOfRegin_def
    client_defs player_defs player_ok_def
    split: prod.splits bool.splits if_splits\<close>)

lemma getMsgFromInput_cases:
  assumes "getMsgFromInput split oa g input w = Inr (m, w')"
  obtains (nothing) "m = None" "w' = w"
  | (hint) "m = None" "w' = put_text login_hint w" "\<not> logined (player w)"
  | (talk) "m = Some (snd (setMsg input (TransObj_all g 1 1 (msgCode MSG_TALK) 1 1)))"
      "w' = w" "logined (player w)"
  | (command) word arg h where "dispatch_input communicationCmdTable word = Some h"
      "run_handler split oa g h arg w = Inr (m, w')"
  using assms
  by (auto simp: getMsgFromInput_def Let_def tryLoginFirst_def
      split: if_splits option.splits)

lemma client_ok_frame:
  assumes "client_ok w" and "input_frame w w'" and "player_ok (player w')"
  shows "client_ok w'"
  using assms by (simp add: client_ok_def input_frame_def)

lemma getMsgFromInput_ok:
  assumes "getMsgFromInput split oa g input w = Inr (m, w')" and "client_ok w" and "wf_size g"
  shows "client_ok w' \<and> input_frame w w' \<and> (case m of None \<Rightarrow> True | Some obj \<Rightarrow> wf_size obj)"
  using assms(1)
proof (cases rule: getMsgFromInput_cases)
  case (command word arg h)
  have "input_frame w w'" using command(2) by (rule run_handler_frame)
  moreover have "player_ok (player w')"
    using command(2) assms(2) by (auto simp: client_ok_def intro: run_handler_player)
  moreover have "case m of None \<Rightarrow> True | Some obj \<Rightarrow> wf_size obj"
    using command(2) assms(3) by (auto intro: run_handler_size split: option.split)
  ultimately show ?thesis using assms(2) client_ok_frame by blast
qed (use assms in auto)

section \<open>Properties\<close>

text \<open>A client that has just started, and one that has logged in.\<close>

definition fresh_client :: ClientWorld where
  "fresh_client = \<lparr>seq = \<lparr>buff = [], rcvBuff = [], sysBuff = []\<rparr>,
     io = \<lparr>talking = False, outputMsg = []\<rparr>, player = demo_player, disk = demo_disk,
     keys = \<lparr>cmdQue = [], sysCmdQue = []\<rparr>, reqBuff = cl_new, console = []\<rparr>"

definition logged_client :: ClientWorld where
  "logged_client = fresh_client\<lparr>player := demo_player\<lparr>logined := True\<rparr>\<rparr>"

lemma fresh_client_ok: "client_ok fresh_client" "client_ok logged_client"
  by (simp_all add: client_ok_def fresh_client_def logged_client_def cl_inv_new player_ok_def
      demo_player_def om_ok_def MAX_FRIENDS_NUM_def cl_new_def cl_inv_def)

lemma credentials_command:
  assumes "boost_split_ok split" and "wf_size g"
    and "clean name" "clean passwd" "length name < 24" "length passwd < 40"
  shows "run_handler split oa g OfLogin (name @ ''|'' @ passwd) w =
           Inr (Some (credentials g MSG_LOGIN name passwd), w)"
    and "run_handler split oa g OfRegin (name @ ''|'' @ passwd) w =
           Inr (Some (credentials g MSG_REG name passwd), w)"
  using splitInput_credentials [OF assms(1,3-6)] setNamePasswd_credentials [OF assms(2-6)]
  by (simp_all add: handleInputOfLogin_def handleInputOfRegin_def del: msgCode.simps)

text \<open>A login or registration line, any of the command words followed by \<open>@name|password\<close>,
  produces a message of that type that carries exactly this name and password, and changes
  nothing else.\<close>

lemma credentials_line_sends:
  assumes "boost_split_ok split" and "wf_size g"
    and "(dispatch_input communicationCmdTable word = Some OfLogin \<and> t = MSG_LOGIN) \<or>
         (dispatch_input communicationCmdTable word = Some OfRegin \<and> t = MSG_REG)"
    and "CHR ''@'' \<notin> set word"
    and "clean name" "length name < 24" and "clean passwd" "length passwd < 40"
  shows "\<exists>obj. getMsgFromInput split oa g (word @ ''@'' @ name @ ''|'' @ passwd) w = Inr (Some obj, w) \<and>
           msgType obj = msgCode t \<and> getName obj = Inr name \<and> getPasswd obj = Inr passwd \<and>
           unat (mlen obj) = 64 \<and> wf_obj obj"
proof -
  have nul: "NUL \<notin> set name" "NUL \<notin> set passwd" using assms(5,7) by (auto simp: clean_def)
  let ?obj = "credentials g t name passwd"
  have "getMsgFromInput split oa g (word @ ''@'' @ name @ ''|'' @ passwd) w = Inr (Some ?obj, w)"
    using assms(3) command_line [OF assms(1,4) clean_pair [OF assms(5,7)]]
      credentials_command [OF assms(1,2,5,7,6,8)]
    by metis
  moreover have "NUL \<in> set (msg ?obj)" "length (msg ?obj) = 64" "unat (mlen ?obj) = 64"
    "msgType ?obj = msgCode t"
    using assms(6,8) by (simp_all add: credentials_def TransObj_all_def MAX_TRANS_MSG_LEN_def)
  ultimately show ?thesis
    using getName_credentials [OF nul(1) assms(6), of g t] getPasswd_credentials [OF nul(2) assms(8,6), of g t]
    by (auto simp: wf_obj_def MAX_TRANS_MSG_LEN_def)
qed

lemma credentials_line_sends_example:
  "\<exists>obj. getMsgFromInput split_ref demo_oa TransObj_default (''login'' @ ''@'' @ ''bob'' @ ''|'' @ ''secret'')
           fresh_client = Inr (Some obj, fresh_client) \<and>
     msgType obj = 6 \<and> getName obj = Inr ''bob'' \<and> getPasswd obj = Inr ''secret''"
  using credentials_line_sends [OF boost_split_ref wf_obj_size [OF wf_obj_default], of "''login''" MSG_LOGIN
      "''bob''" "''secret''" demo_oa fresh_client]
  by (fastforce simp: communicationCmdTable_def clean_def NUL_def)

text \<open>As long as the player is not logged in, whatever line is typed, the only messages that
  can be produced are logins and registrations.\<close>

lemma unlogged_sends_only_credentials:
  assumes "getMsgFromInput split oa g input w = Inr (Some obj, w')" and "\<not> logined (player w)"
  shows "msgType obj = msgCode MSG_LOGIN \<or> msgType obj = msgCode MSG_REG"
  using assms(1)
proof (cases rule: getMsgFromInput_cases)
  case (command word arg h)
  then have "\<not> guarded h" using guarded_not_logined [of h w] assms(2) by fastforce
  then have "sends h \<in> {Some MSG_LOGIN, Some MSG_REG, None}" by (cases h) (simp_all add: guarded_def)
  with run_handler_sends [OF command(2)] show ?thesis by auto
qed (use assms(2) in simp_all)

lemma unlogged_sends_only_credentials_example:
  "msgType (credentials TransObj_default MSG_REG ''bob'' ''secret'') = msgCode MSG_LOGIN \<or>
   msgType (credentials TransObj_default MSG_REG ''bob'' ''secret'') = msgCode MSG_REG"
proof -
  have c: "clean ''bob''" "clean ''secret''" by (simp_all add: clean_def NUL_def)
  have "getMsgFromInput split_ref demo_oa TransObj_default (''rg'' @ ''@'' @ ''bob'' @ ''|'' @ ''secret'')
      fresh_client = Inr (Some (credentials TransObj_default MSG_REG ''bob'' ''secret''), fresh_client)"
    using command_line [OF boost_split_ref _ clean_pair [OF c], of "''rg''" OfRegin]
      credentials_command(2) [OF boost_split_ref wf_obj_size [OF wf_obj_default] c]
    by (simp add: communicationCmdTable_def)
  from unlogged_sends_only_credentials [OF this] show ?thesis
    by (simp add: fresh_client_def demo_player_def)
qed

end
