(* ===== verification/GameLoop.thy ===== *)
theory GameLoop
  imports SysManger InputUtil
begin

text \<open>
  Keyboard, actor, talk thread and game loop of the client: \<^verbatim>\<open>smer/Input\<close>,
  \<^verbatim>\<open>smer/Actor\<close>, \<^verbatim>\<open>smer/Command\<close>, \<^verbatim>\<open>smer/IOMange\<close> and \<^verbatim>\<open>smer/Game\<close>. What the terminal delivers
  is an argument; its settings and descriptors are in \<^verbatim>\<open>Terminal\<close>.
\<close>

section \<open>ReadKey\<close>

text \<open>The map the constructor of \<open>ReadKey\<close> fills, from key codes to command types.\<close>

definition readkey_cmd :: "(int \<times> u32) list" where
  "readkey_cmd =
     om_set 32 (cmdCode CMD_JUMP) (om_set 106 (cmdCode CMD_ATTACK)
     (om_set 27 (cmdCode CMD_SYSTEM) (om_set 109 (cmdCode CMD_MAP)
     (om_set 98 (cmdCode CMD_BACKPACK) (om_set 10 (cmdCode CMD_ENTER)
     (om_set 100 (cmdCode CMD_MOVE_RIGHT) (om_set 115 (cmdCode CMD_MOVE_DOWN)
     (om_set 97 (cmdCode CMD_MOVE_LEFT) (om_set 119 (cmdCode CMD_MOVE_UP) [])))))))))"

definition isSystemCmd :: "u32 \<Rightarrow> bool" where
  "isSystemCmd t \<longleftrightarrow> cmdCode CMD_ENTER \<le> t \<and> t \<le> cmdCode CMD_SYSTEM"

definition isActorCmd :: "u32 \<Rightarrow> bool" where
  "isActorCmd t \<longleftrightarrow> cmdCode CMD_MOVE_UP \<le> t \<and> t \<le> cmdCode CMD_JUMP"

definition isTimeToReadKey :: "ClientWorld \<Rightarrow> bool" where
  "isTimeToReadKey w \<longleftrightarrow> \<not> talking (io w)"

text \<open>A \<open>char\<close> used as a map key is promoted from a signed byte.\<close>

definition char_key :: "char \<Rightarrow> int" where
  "char_key c = (if (of_char c :: int) < 128 then of_char c else of_char c - 256)"

text \<open>
  The bytes of a \<open>Command\<close> object: its vtable pointer \<open>vptr\<close> (8 bytes), the type, and
  4 bytes of padding.
\<close>

definition sizeof_Command :: nat where
  "sizeof_Command = 16"

definition command_bytes :: "bytes \<Rightarrow> u32 \<Rightarrow> bytes \<Rightarrow> bytes" where
  "command_bytes vptr t pad = vptr @ le32 t @ pad"

text \<open>\<open>Command::getSeqData\<close> copies the object into a new message.\<close>

definition getSeqData :: "TransObj \<Rightarrow> bytes \<Rightarrow> u32 \<Rightarrow> bytes \<Rightarrow> TransObj" where
  "getSeqData g vptr t pad =
     (let obj = TransObj_type_len g (msgCode MSG_CMD) (of_nat sizeof_Command)
      in obj\<lparr>msg := store_at 0 (command_bytes vptr t pad) (msg obj)\<rparr>)"

text \<open>
  \<open>scanKeyBoard\<close>: \<open>key\<close> is the byte read from the terminal within half a second, if
  any; without one the local variable \<open>in\<close> keeps its indeterminate content \<open>junk\<close>. Yields
  the returned command type.
\<close>

definition scanKeyBoard ::
  "TransObj \<Rightarrow> bytes \<Rightarrow> bytes \<Rightarrow> char option \<Rightarrow> char \<Rightarrow> ClientWorld \<Rightarrow> u32 \<times> ClientWorld" where
  "scanKeyBoard g vptr pad key junk w =
     (if \<not> isTimeToReadKey w then (cmdCode CMD_BUTTON, w)
      else (let inp = (case key of Some c \<Rightarrow> c | None \<Rightarrow> junk)
            in (case om_get readkey_cmd (char_key inp) of
                  None \<Rightarrow> (cmdCode CMD_BUTTON, w)
                | Some t \<Rightarrow>
                    (let obj = getSeqData g vptr t pad;
                         w1 = (if isActorCmd t then
                                 w\<lparr>seq := pushBuff obj (seq w),
                                   keys := (keys w)\<lparr>cmdQue := cmdQue (keys w) @ [t]\<rparr>\<rparr>
                               else if isSystemCmd t then
                                 println (''get system'' @ to_string (uint t))
                                   (w\<lparr>keys := (keys w)\<lparr>sysCmdQue := sysCmdQue (keys w) @ [t]\<rparr>\<rparr>)
                               else w)
                     in (t, w1)))))"

definition getCmd :: "ReadKey \<Rightarrow> u32 option \<times> ReadKey" where
  "getCmd k = (case cmdQue k of [] \<Rightarrow> (None, k) | c # rest \<Rightarrow> (Some c, k\<lparr>cmdQue := rest\<rparr>))"

definition getSysCmd :: "ReadKey \<Rightarrow> u32 option \<times> ReadKey" where
  "getSysCmd k = (case sysCmdQue k of [] \<Rightarrow> (None, k) | c # rest \<Rightarrow> (Some c, k\<lparr>sysCmdQue := rest\<rparr>))"

section \<open>Actor\<close>

definition actor_doCommand :: "u32 \<Rightarrow> ClientWorld \<Rightarrow> ClientWorld" where
  "actor_doCommand cmdType w =
     (if cmdType = cmdCode CMD_MOVE_UP then println ''i am now moving up!!'' w
      else if cmdType = cmdCode CMD_MOVE_DOWN then println ''i am now moving down!!'' w
      else if cmdType = cmdCode CMD_MOVE_LEFT then println ''i am now moving left!!'' w
      else if cmdType = cmdCode CMD_MOVE_RIGHT then println ''i am now moving right!!'' w
      else w)"

text \<open>\<open>Command::doCommand\<close>: the actor is the only \<open>CommandDoer\<close>.\<close>

definition Command_doCommand :: "u32 \<Rightarrow> ClientWorld \<Rightarrow> ClientWorld" where
  [simp]: "Command_doCommand type w = actor_doCommand type w"

definition actor_action :: "ClientWorld \<Rightarrow> ClientWorld" where
  "actor_action w =
     (case getCmd (keys w) of
        (None, _) \<Rightarrow> w
      | (Some cmd, k) \<Rightarrow> Command_doCommand cmd (w\<lparr>keys := k\<rparr>))"

definition actor_update :: "ClientWorld \<Rightarrow> ClientWorld" where
  [simp]: "actor_update w = actor_action w"

section \<open>The talk thread\<close>

definition handleTalk ::
  "(string \<Rightarrow> string \<Rightarrow> string list) \<Rightarrow> (image \<Rightarrow> bytes) \<Rightarrow> TransObj \<Rightarrow> string \<Rightarrow> ClientWorld \<Rightarrow> ClientWorld res" where
  "handleTalk split oa g str w =
     (let w1 = println (''You say '' @ str)
                 (println ''Now say someyhing...'' (w\<lparr>io := (io w)\<lparr>talking := True\<rparr>\<rparr>))
      in if MAX_TRANS_MSG_LEN \<le> length str then
           (let w2 = println (''talk too much.. your message shoud inside '' @
                              to_string (int MAX_TRANS_MSG_LEN) @ '' words.'') w1
            in Inr (w2\<lparr>io := (io w2)\<lparr>talking := False\<rparr>\<rparr>))
         else bind_res (getMsgFromInput split oa g str w1)
           (\<lambda>(talkObj, w2).
              let w3 = (case talkObj of None \<Rightarrow> w2
                        | Some obj \<Rightarrow> w2\<lparr>seq := pushBuff obj (seq w2)\<rparr>)
              in Inr (w3\<lparr>io := (io w3)\<lparr>talking := False\<rparr>\<rparr>)))"

definition rule_line :: string where
  "rule_line = ''|'' @ replicate 100 (CHR ''-'') @ ''|''"

definition handleOutputMsg :: "ClientWorld \<Rightarrow> ClientWorld" where
  "handleOutputMsg w =
     (case cq_tryAndPop (outputMsg (io w)) of
        (None, q) \<Rightarrow> w
      | (Some m, q) \<Rightarrow>
          println rule_line (println (cstr m) (println rule_line
            (w\<lparr>io := (io w)\<lparr>outputMsg := q\<rparr>\<rparr>))))"

text \<open>
  One round of \<open>IOManger::run\<close>; None while it waits. \<open>str\<close> is the word typed, should
  the round read one.
\<close>

definition io_round ::
  "(string \<Rightarrow> string \<Rightarrow> string list) \<Rightarrow> (image \<Rightarrow> bytes) \<Rightarrow> TransObj \<Rightarrow> string \<Rightarrow> ClientWorld \<Rightarrow>
   ClientWorld res option" where
  "io_round split oa g str w =
     (if talking (io w) \<or> \<not> cq_empty (outputMsg (io w))
      then Some (if \<not> talking (io w) then Inr (handleOutputMsg w) else handleTalk split oa g str w)
      else None)"

section \<open>The game loop\<close>

definition game_update ::
  "(image \<Rightarrow> bytes) \<Rightarrow> TransObj \<Rightarrow> bytes \<Rightarrow> bytes \<Rightarrow> char option \<Rightarrow> char \<Rightarrow> ClientWorld \<Rightarrow> ClientWorld res" where
  "game_update oa g vptr pad key junk w =
     bind_res (handleSystem oa w)
       (\<lambda>w1. let (_, w2) = scanKeyBoard g vptr pad key junk w1 in Inr (actor_update w2))"

text \<open>\<open>systemtime\<close>: milliseconds from what \<open>ftime\<close> reports.\<close>

definition systemtime :: "int \<Rightarrow> int \<Rightarrow> int" where
  "systemtime time millitm = time * 1000 + millitm"

text \<open>
  \<open>updateWordPerSec\<close> polls the clock (milliseconds) and updates when more than
  \<open>1000 / 60\<close> of them have passed since the last update: the times of the updates among
  the given polls.
\<close>

fun update_times :: "int \<Rightarrow> int list \<Rightarrow> int list" where
  "update_times lastTime [] = []"
| "update_times lastTime (currentTime # polls) =
     (if 1000 div 60 < currentTime - lastTime
      then currentTime # update_times currentTime polls
      else update_times lastTime polls)"

section \<open>Behaviour\<close>

text \<open>Every key of the keyboard map is an actor or a system command, never both, so each key
  stroke goes to exactly one of the two command queues.\<close>

lemma readkey_classified:
  assumes "om_get readkey_cmd k = Some t"
  shows "isActorCmd t \<noteq> isSystemCmd t"
  using assms
  by (auto simp: readkey_cmd_def om_get_def isActorCmd_def isSystemCmd_def
      word_le_nat_alt split: if_splits)

text \<open>Over the enumeration's order the two classes are its two halves.\<close>

lemma actor_system_order:
  "isActorCmd (cmdCode t) \<longleftrightarrow> t \<le> CMD_JUMP"
  "isSystemCmd (cmdCode t) \<longleftrightarrow> CMD_ENTER \<le> t \<and> t \<le> CMD_SYSTEM"
  by (simp_all add: isActorCmd_def isSystemCmd_def less_eq_CmdType_def)

lemma scan_talking:
  "talking (io w) \<Longrightarrow> scanKeyBoard g vptr pad key junk w = (cmdCode CMD_BUTTON, w)"
  by (simp add: scanKeyBoard_def isTimeToReadKey_def)

lemma wf_size_getSeqData:
  "wf_size g \<Longrightarrow> length vptr = 8 \<Longrightarrow> length pad = 4 \<Longrightarrow> wf_size (getSeqData g vptr t pad)"
  by (simp add: getSeqData_def Let_def TransObj_type_len_def command_bytes_def wf_size_def
      max_len_defs)

lemma scanKeyBoard_ok:
  assumes "client_ok w" and "wf_size g" "length vptr = 8" "length pad = 4"
  shows "client_ok (snd (scanKeyBoard g vptr pad key junk w))"
  using assms
  by (auto simp: scanKeyBoard_def client_ok_def Let_def pushBuff_def cq_push_def println_def
      wf_size_getSeqData split: option.split)

lemma actor_action_ok: "client_ok w \<Longrightarrow> client_ok (actor_action w)"
  by (auto simp: actor_action_def actor_doCommand_def client_ok_def println_def
      split: option.split prod.split)

text \<open>One update of the game (a system message, a received message, a command, the keyboard,
  the actor) keeps the client's invariant: the request counter is right, the friend map is
  ordered and within its bound, and every queued object is full-size.\<close>

lemma game_update_ok:
  assumes "game_update oa g vptr pad key junk w = Inr w'" and "client_ok w"
    and "wf_size g" "length vptr = 8" "length pad = 4"
  shows "client_ok w'"
proof -
  obtain w1 where w1: "handleSystem oa w = Inr w1"
    and w': "w' = actor_action (snd (scanKeyBoard g vptr pad key junk w1))"
    using assms(1) by (auto simp: game_update_def split_beta)
  have "client_ok w1" using w1 assms(2) by (rule handleSystem_ok)
  with assms(3-5) show ?thesis unfolding w' by (intro actor_action_ok scanKeyBoard_ok)
qed

lemma game_update_ok_example:
  "\<exists>w'. game_update demo_oa TransObj_default (replicate 8 NUL) (replicate 4 NUL) (Some (CHR ''w'')) NUL
          fresh_client = Inr w' \<and> client_ok w'"
proof -
  obtain w' where "game_update demo_oa TransObj_default (replicate 8 NUL) (replicate 4 NUL)
      (Some (CHR ''w'')) NUL fresh_client = Inr w'"
    by (simp add: game_update_def handleSystem_def handleSysMsg_def tryGetSysMsg_def cq_defs
        handleRecvMsg_def fresh_client_def split_beta)
  moreover from game_update_ok [OF this fresh_client_ok(1)] have "client_ok w'"
    by (simp add: wf_obj_size [OF wf_obj_default])
  ultimately show ?thesis by blast
qed

text \<open>A round of talking (any typed line) keeps the client's invariant and always ends with
  the talk flag off, so that the keyboard is read again.\<close>

lemma handleTalk_keeps:
  assumes "handleTalk split oa g str w = Inr w'" and "client_ok w" and "wf_size g"
  shows "client_ok w' \<and> \<not> talking (io w')"
proof (cases "MAX_TRANS_MSG_LEN \<le> length str")
  case True
  with assms show ?thesis by (auto simp: handleTalk_def Let_def client_ok_def println_def)
next
  case False
  define w1 where "w1 = println (''You say '' @ str)
                 (println ''Now say someyhing...'' (w\<lparr>io := (io w)\<lparr>talking := True\<rparr>\<rparr>))"
  have ok1: "client_ok w1" using assms(2) by (simp add: w1_def client_ok_def println_def)
  obtain m w2 where g: "getMsgFromInput split oa g str w1 = Inr (m, w2)"
    and w': "w' = (let w3 = (case m of None \<Rightarrow> w2 | Some obj \<Rightarrow> w2\<lparr>seq := pushBuff obj (seq w2)\<rparr>)
                   in w3\<lparr>io := (io w3)\<lparr>talking := False\<rparr>\<rparr>)"
    using assms(1) False by (auto simp: handleTalk_def w1_def Let_def)
  from getMsgFromInput_ok [OF g ok1 assms(3)] show ?thesis
    unfolding w' by (auto simp: client_ok_def pushBuff_def cq_push_def Let_def split: option.split)
qed

lemma handleTalk_example:
  "\<exists>w'. handleTalk split_ref demo_oa TransObj_default ''hello'' logged_client = Inr w' \<and>
        client_ok w' \<and> \<not> talking (io w')"
proof -
  have l: "splitStr split_ref ''hello'' ''@'' = [''hello'']"
    by (simp add: splitStr_def split_ref_def)
  obtain w' where "handleTalk split_ref demo_oa TransObj_default ''hello'' logged_client = Inr w'"
    by (simp add: handleTalk_def getMsgFromInput_def l tryLoginFirst_def println_def
        logged_client_def Let_def MAX_TRANS_MSG_LEN_def)
  moreover from handleTalk_keeps [OF this fresh_client_ok(2)] have "client_ok w' \<and> \<not> talking (io w')"
    by (simp add: wf_obj_size [OF wf_obj_default])
  ultimately show ?thesis by blast
qed

text \<open>Updates are more than 16 ms apart, and a poll more than 16 ms late is an update.\<close>

fun spaced :: "int \<Rightarrow> int \<Rightarrow> int list \<Rightarrow> bool" where
  "spaced d t [] = True"
| "spaced d t (u # us) = (d < u - t \<and> spaced d u us)"

lemma update_times_spaced: "spaced 16 t (update_times t polls)"
  by (induction t polls rule: update_times.induct) auto

lemma update_times_subset: "set (update_times t polls) \<subseteq> set polls"
  by (induction t polls rule: update_times.induct) auto

lemma spaced_span: "spaced d t us \<Longrightarrow> us \<noteq> [] \<Longrightarrow> 0 \<le> d \<Longrightarrow> int (length us) * (d + 1) \<le> last us - t"
proof (induction d t us rule: spaced.induct)
  case (1 d t)
  then show ?case by simp
next
  case (2 d t u us)
  then show ?case by (cases "us = []") (auto simp: algebra_simps)
qed

text \<open>
  The game runs at most one update per 17 ms: in a span of one second at most 58, not
  the 60 of the README.
\<close>

lemma update_rate:
  assumes "\<forall>p \<in> set polls. p \<le> t + span"
  shows "int (length (update_times t polls)) * 17 \<le> max 0 span"
proof (cases "update_times t polls = []")
  case True
  then show ?thesis by simp
next
  case False
  then have "last (update_times t polls) \<in> set polls"
    using update_times_subset last_in_set by blast
  with assms have "last (update_times t polls) \<le> t + span" by blast
  with spaced_span [OF update_times_spaced False] show ?thesis by simp
qed

lemma update_rate_example: "int (length (update_times 0 [10, 17, 30, 40])) * 17 \<le> max 0 40"
  by (rule update_rate) simp

end
