(* ===== verification/ClientSystem.thy ===== *)
theory ClientSystem
  imports GameLoop NetClient
begin

text \<open>
  The client process as its four threads: the game loop of \<^verbatim>\<open>Game.cpp\<close> with the steps of
  one update, the talk thread \<open>IOManger::run\<close>, the sender \<open>Client::run\<close> and the receiver
  \<open>Client::recvMsg\<close>, over the shared singletons. What one thread does between two
  blocking points is one step.

  The talk thread holds the mutex of \<open>IOManger\<close> while it waits for the typed line, so
  \<open>isTalking\<close>, \<open>turnToTalk\<close> and \<open>putOutputMsg\<close> block the game loop meanwhile. Its
  condition variable has one waiter and is notified under the mutex at every change of its
  condition, so a round of the talk thread is enabled exactly when the condition holds.

  The player's data has no lock: handling a line and handling a received message may both use
  it at once. What that does is undefined; \<open>player_race\<close> describes the states in which it can
  happen, and a calm run comes through none of them.
\<close>

section \<open>Threads\<close>

text \<open>Where the game loop stands in its update.\<close>

datatype main_pc = AtSysMsg | AtRecvMsg | AtSysInput | AtScan | AtActor

text \<open>The talk thread waits for its condition, or for a line, or handles the line \<open>str\<close> it has read.\<close>

datatype talk_pc = TalkWaiting | TalkTyping | TalkHandling string

record ClientSys =
  cworld :: ClientWorld
  main_at :: main_pc
  talk_at :: talk_pc
  sender_at :: run_end
  recv_buf :: bytes
  outbox :: "bytes list"

text \<open>Whether the handler of the next system message, or the next command, locks \<open>IOManger\<close>.\<close>

definition sys_msg_locks :: "ClientWorld \<Rightarrow> bool" where
  "sys_msg_locks w =
     (case sysBuff (seq w) of
        [] \<Rightarrow> False
      | m # _ \<Rightarrow> sysMsgType m = sysMsgCode SYS_SHOW_FRIENDS_MSG \<or>
                 sysMsgType m = sysMsgCode SYS_SHOW_ASK_FOR_FRIEND_REQ \<or>
                 (sysMsgType m = sysMsgCode SYS_OUTPUT_MSG \<and> sysMsgPtr m \<noteq> None))"

definition sys_input_locks :: "ClientWorld \<Rightarrow> bool" where
  "sys_input_locks w =
     (case sysCmdQue (keys w) of [] \<Rightarrow> False | cmd # _ \<Rightarrow> cmd = cmdCode CMD_ENTER)"

text \<open>
  The game loop is about to handle a received message, whose handlers write the player's data, or
  to list the friends; the talk thread handles a line, and may read that data or add a friend.
\<close>

definition main_uses_player :: "ClientSys \<Rightarrow> bool" where
  "main_uses_player s \<longleftrightarrow>
     main_at s = AtRecvMsg \<and> rcvBuff (seq (cworld s)) \<noteq> [] \<or>
     main_at s = AtSysMsg \<and>
       (case sysBuff (seq (cworld s)) of [] \<Rightarrow> False | m # _ \<Rightarrow> sysMsgType m = sysMsgCode SYS_SHOW_FRIENDS_MSG)"

definition player_race :: "ClientSys \<Rightarrow> bool" where
  "player_race s \<longleftrightarrow> main_uses_player s \<and> (case talk_at s of TalkHandling _ \<Rightarrow> True | _ \<Rightarrow> False)"

text \<open>
  A step of the sender is one whose send comes back; a send that ends the process ends the run.
\<close>

inductive client_step ::
  "(string \<Rightarrow> string \<Rightarrow> string list) \<Rightarrow> (image \<Rightarrow> bytes) \<Rightarrow> ClientSys \<Rightarrow> ClientSys \<Rightarrow> bool"
  for split oa where
  sys_msg: "main_at s = AtSysMsg \<Longrightarrow> talk_at s = TalkWaiting \<or> \<not> sys_msg_locks (cworld s) \<Longrightarrow>
     handleSysMsg (cworld s) = Inr w \<Longrightarrow>
     client_step split oa s (s\<lparr>cworld := w, main_at := AtRecvMsg\<rparr>)"
| recv_msg: "main_at s = AtRecvMsg \<Longrightarrow> handleRecvMsg oa (cworld s) = Inr w \<Longrightarrow>
     client_step split oa s (s\<lparr>cworld := w, main_at := AtSysInput\<rparr>)"
| sys_input: "main_at s = AtSysInput \<Longrightarrow> talk_at s = TalkWaiting \<or> \<not> sys_input_locks (cworld s) \<Longrightarrow>
     client_step split oa s (s\<lparr>cworld := handleSysInput (cworld s), main_at := AtScan\<rparr>)"
| scan: "main_at s = AtScan \<Longrightarrow> talk_at s = TalkWaiting \<Longrightarrow>
     wf_size g \<Longrightarrow> length vptr = 8 \<Longrightarrow> length pad = 4 \<Longrightarrow>
     client_step split oa s
       (s\<lparr>cworld := snd (scanKeyBoard g vptr pad key junk (cworld s)), main_at := AtActor\<rparr>)"
| actor: "main_at s = AtActor \<Longrightarrow>
     client_step split oa s (s\<lparr>cworld := actor_action (cworld s), main_at := AtSysMsg\<rparr>)"
| printed: "talk_at s = TalkWaiting \<Longrightarrow> \<not> talking (io (cworld s)) \<Longrightarrow>
     io_round split oa g str (cworld s) = Some (Inr w) \<Longrightarrow>
     client_step split oa s (s\<lparr>cworld := w\<rparr>)"
| ask: "talk_at s = TalkWaiting \<Longrightarrow> talking (io (cworld s)) \<Longrightarrow>
     client_step split oa s (s\<lparr>talk_at := TalkTyping\<rparr>)"
| enter: "talk_at s = TalkTyping \<Longrightarrow> client_step split oa s (s\<lparr>talk_at := TalkHandling str\<rparr>)"
| typed: "talk_at s = TalkHandling str \<Longrightarrow> wf_size g \<Longrightarrow>
     io_round split oa g str (cworld s) = Some (Inr w) \<Longrightarrow>
     client_step split oa s (s\<lparr>cworld := w, talk_at := TalkWaiting\<rparr>)"
| send: "sender_at s = Waiting \<Longrightarrow> buff (seq (cworld s)) = obj # q \<Longrightarrow>
     x \<noteq> Broken \<Longrightarrow> client_run [x] [obj] = (ps, e, r) \<Longrightarrow>
     client_step split oa s
       (s\<lparr>cworld := (cworld s)\<lparr>seq := (seq (cworld s))\<lparr>buff := q\<rparr>\<rparr>, sender_at := e, outbox := outbox s @ ps\<rparr>)"
| recv: "0 < length chunk \<Longrightarrow> length chunk \<le> RECV_SIZE \<Longrightarrow>
     recv_loop [chunk] (recv_buf s) (seq (cworld s)) = Inr q \<Longrightarrow>
     client_step split oa s
       (s\<lparr>cworld := (cworld s)\<lparr>seq := q\<rparr>, recv_buf := store_at 0 chunk (recv_buf s)\<rparr>)"

text \<open>What \<open>clientInit\<close> sets up for a player as loaded from its file.\<close>

definition client_start :: "Player \<Rightarrow> Disk \<Rightarrow> ClientSys" where
  "client_start p d =
     \<lparr>cworld = \<lparr>seq = \<lparr>buff = [], rcvBuff = [], sysBuff = []\<rparr>, io = \<lparr>talking = False, outputMsg = []\<rparr>,
        player = p, disk = d, keys = \<lparr>cmdQue = [], sysCmdQue = []\<rparr>, reqBuff = cl_new, console = []\<rparr>,
      main_at = AtSysMsg, talk_at = TalkWaiting, sender_at = Waiting,
      recv_buf = replicate RECV_SIZE NUL, outbox = []\<rparr>"

inductive client_reach :: "(string \<Rightarrow> string \<Rightarrow> string list) \<Rightarrow> (image \<Rightarrow> bytes) \<Rightarrow> ClientSys \<Rightarrow> bool"
  for split oa where
  start: "player_ok p \<Longrightarrow> client_reach split oa (client_start p d)"
| step: "client_reach split oa s \<Longrightarrow> client_step split oa s s' \<Longrightarrow> client_reach split oa s'"

declare recv_loop.simps [simp del] client_run.simps [simp del]

inductive_cases client_stepE: "client_step split oa s s'"

lemmas client_step_cases = client_stepE [consumes 1, case_names sys_msg recv_msg sys_input scan
    actor printed ask enter typed send recv]

text \<open>Runs without a race for the player's data.\<close>

definition calm_step ::
  "(string \<Rightarrow> string \<Rightarrow> string list) \<Rightarrow> (image \<Rightarrow> bytes) \<Rightarrow> ClientSys \<Rightarrow> ClientSys \<Rightarrow> bool" where
  "calm_step split oa s s' \<longleftrightarrow> client_step split oa s s' \<and> \<not> player_race s'"

inductive calm_reach :: "(string \<Rightarrow> string \<Rightarrow> string list) \<Rightarrow> (image \<Rightarrow> bytes) \<Rightarrow> ClientSys \<Rightarrow> bool"
  for split oa where
  start: "player_ok p \<Longrightarrow> calm_reach split oa (client_start p d)"
| step: "calm_reach split oa s \<Longrightarrow> calm_step split oa s s' \<Longrightarrow> calm_reach split oa s'"

lemma calm_reach_client: "calm_reach split oa s \<Longrightarrow> client_reach split oa s"
  by (induction rule: calm_reach.induct) (auto simp: calm_step_def intro: client_reach.intros)

lemma calm_reach_steps:
  "(calm_step split oa)\<^sup>*\<^sup>* s s' \<Longrightarrow> calm_reach split oa s \<Longrightarrow> calm_reach split oa s'"
  by (induction rule: rtranclp_induct) (auto intro: calm_reach.step)

section \<open>What each step leaves alone\<close>

text \<open>The queue to the server, the talk flag. \<open>MSG_BUTTON\<close> is the last of the message types.\<close>

definition no_button :: "TransObj list \<Rightarrow> bool" where
  "no_button q \<longleftrightarrow> (\<forall>obj \<in> set q. msgType obj < msgCode MSG_BUTTON)"

definition queues_more :: "ClientWorld \<Rightarrow> ClientWorld \<Rightarrow> bool" where
  "queues_more w w' \<longleftrightarrow> (\<exists>objs. no_button objs \<and> buff (seq w') = buff (seq w) @ objs)"

lemma queues_more_same: "buff (seq w') = buff (seq w) \<Longrightarrow> queues_more w w'"
  by (auto simp: queues_more_def no_button_def intro: exI [of _ "[]"])

lemma queues_more_one:
  "buff (seq w') = buff (seq w) @ [obj] \<Longrightarrow> msgType obj < msgCode MSG_BUTTON \<Longrightarrow> queues_more w w'"
  by (auto simp: queues_more_def no_button_def)

lemma run_sys_table_buff:
  "run_sys_table table m w = Inr w' \<Longrightarrow>
   buff (seq w') = buff (seq w) \<and> talking (io w') = talking (io w)"
proof (induction table arbitrary: w)
  case Nil
  then show ?case by simp
next
  case (Cons e table)
  obtain t h where e: "e = (t, h)" by (cases e)
  have one: "buff (seq w1) = buff (seq w) \<and> talking (io w1) = talking (io w)"
    if "run_sys_handler h m w = Inr w1" for w1
    using that
    by (cases h) (auto simp: handleSysMsgOfShowOutputMsg_def handleSysMsgOfShowFriends_def
        show_requests_empty putOutputMsg_def split: option.splits)
  show ?case
  proof (cases "t = sysMsgType m")
    case True
    then obtain w1 where w1: "run_sys_handler h m w = Inr w1" "run_sys_table table m w1 = Inr w'"
      using Cons.prems by (auto simp: e)
    then show ?thesis using Cons.IH [OF w1(2)] one [OF w1(1)] by simp
  next
    case False
    then show ?thesis using Cons.prems Cons.IH by (simp add: e)
  qed
qed

lemma handleSysMsg_buff:
  assumes "handleSysMsg w = Inr w'"
  shows "buff (seq w') = buff (seq w)" "talking (io w') = talking (io w)"
proof -
  have "buff (seq w') = buff (seq w) \<and> talking (io w') = talking (io w)"
  proof (cases "sysBuff (seq w)")
    case Nil
    with assms show ?thesis by (auto simp: handleSysMsg_def tryGetSysMsg_def cq_defs)
  next
    case (Cons m rest)
    with assms have "run_sys_table sysMsgHandleTable m (w\<lparr>seq := (seq w)\<lparr>sysBuff := rest\<rparr>\<rparr>) = Inr w'"
      by (simp add: handleSysMsg_def tryGetSysMsg_def cq_defs)
    from run_sys_table_buff [OF this] show ?thesis by simp
  qed
  then show "buff (seq w') = buff (seq w)" "talking (io w') = talking (io w)" by simp_all
qed

lemma client_handler_buff:
  assumes "client_handler oa h obj fd w = Inr w'"
  shows "buff (seq w') = buff (seq w)" "io w' = io w"
  using assms
  by (cases h; auto simp: c_handler_defs Let_def split_beta split: if_splits prod.splits)+

lemma handleRecvMsg_buff:
  assumes "handleRecvMsg oa w = Inr w'"
  shows "buff (seq w') = buff (seq w)" "io w' = io w"
  using assms
  by (auto simp: handleRecvMsg_def cq_defs client_handle_def dest: client_handler_buff
      split: list.splits option.splits)

lemma handleSysInput_buff:
  "buff (seq (handleSysInput w)) = buff (seq w)"
  "talking (io w) \<Longrightarrow> talking (io (handleSysInput w))"
  by (auto simp: handleSysInput_def Let_def client_defs split: list.splits)

lemma actor_action_buff:
  "buff (seq (actor_action w)) = buff (seq w)" "io (actor_action w) = io w"
  by (auto simp: actor_action_def actor_doCommand_def println_def split: option.split prod.split)

lemma getSeqData_type: "msgType (getSeqData g vptr t pad) = msgCode MSG_CMD"
  by (simp add: getSeqData_def Let_def TransObj_type_len_def)

lemma scanKeyBoard_buff: "queues_more w (snd (scanKeyBoard g vptr pad key junk w))"
  using queues_more_one [of _ w "getSeqData g vptr t pad" for t] getSeqData_type [of g vptr]
  by (auto simp: scanKeyBoard_def Let_def pushBuff_def cq_push_def println_def queues_more_same
      split: option.split)

lemma scan_io: "io (snd (scanKeyBoard g vptr pad key junk w)) = io w"
  by (simp add: scanKeyBoard_def Let_def println_def split: option.split)

lemma getMsgFromInput_type:
  assumes "getMsgFromInput split oa g input w = Inr (Some obj, w')"
  shows "msgType obj < msgCode MSG_BUTTON"
  using assms
proof (cases rule: getMsgFromInput_cases)
  case (talk)
  then show ?thesis by (simp add: TransObj_all_def)
next
  case (command word arg h)
  from run_handler_sends [OF command(2)] obtain t where "sends h = Some t" "msgType obj = msgCode t"
    by blast
  moreover from this(1) have "msgCode t < msgCode MSG_BUTTON" by (cases h) auto
  ultimately show ?thesis by (simp del: msgCode.simps)
qed simp_all

lemma handleTalk_buff:
  assumes "handleTalk split oa g str w = Inr w'" and "client_ok w" and "wf_size g"
  shows "queues_more w w'"
proof (cases "MAX_TRANS_MSG_LEN \<le> length str")
  case True
  with assms show ?thesis by (auto simp: handleTalk_def Let_def println_def intro: queues_more_same)
next
  case False
  define w1 where "w1 = println (''You say '' @ str)
                 (println ''Now say someyhing...'' (w\<lparr>io := (io w)\<lparr>talking := True\<rparr>\<rparr>))"
  have ok1: "client_ok w1" "buff (seq w1) = buff (seq w)"
    using assms(2) by (simp_all add: w1_def client_ok_def println_def)
  obtain m w2 where g: "getMsgFromInput split oa g str w1 = Inr (m, w2)"
    and w': "w' = (let w3 = (case m of None \<Rightarrow> w2 | Some obj \<Rightarrow> w2\<lparr>seq := pushBuff obj (seq w2)\<rparr>)
                   in w3\<lparr>io := (io w3)\<lparr>talking := False\<rparr>\<rparr>)"
    using assms(1) False by (auto simp: handleTalk_def w1_def Let_def)
  have b: "buff (seq w2) = buff (seq w)"
    using getMsgFromInput_ok [OF g ok1(1) assms(3)] ok1(2) by (simp add: input_frame_def)
  show ?thesis
  proof (cases m)
    case None
    then show ?thesis using b by (simp add: w' queues_more_same)
  next
    case (Some obj)
    have "msgType obj < msgCode MSG_BUTTON" using g unfolding Some by (rule getMsgFromInput_type)
    with Some b show ?thesis
      by (intro queues_more_one) (simp_all add: w' pushBuff_def cq_push_def)
  qed
qed

text \<open>A round of the talk thread.\<close>

lemma io_round_output:
  assumes "io_round split oa g str w = Some (Inr w')" and "\<not> talking (io w)"
  shows "buff (seq w') = buff (seq w)" "talking (io w') = talking (io w)" "client_ok w \<Longrightarrow> client_ok w'"
  using assms
  by (auto simp: io_round_def handleOutputMsg_def println_def cq_defs client_ok_def
      split: if_splits list.splits)

lemma io_round_typed:
  "io_round split oa g str w = Some (Inr w') \<Longrightarrow> talking (io w) \<Longrightarrow> handleTalk split oa g str w = Inr w'"
  by (simp add: io_round_def)

lemma recv_loop_one:
  assumes "recv_loop [chunk] b q = Inr q'" and "84 \<le> length (store_at 0 chunk b)"
  shows "buff q' = buff q" "sysBuff q' = sysBuff q" "\<exists>obj. wf_size obj \<and> (rcvBuff q' = rcvBuff q \<or> rcvBuff q' = rcvBuff q @ [obj])"
  using assms
  by (auto simp: recv_loop.simps Let_def pushRcvBuff_def cq_push_def dest: transBuff2Obj_size
      split: if_splits)

section \<open>Invariant\<close>

definition system_inv :: "ClientSys \<Rightarrow> bool" where
  "system_inv s \<longleftrightarrow>
     client_ok (cworld s) \<and> no_button (buff (seq (cworld s))) \<and> sender_at s = Waiting \<and>
     length (recv_buf s) = RECV_SIZE \<and> (talk_at s \<noteq> TalkWaiting \<longrightarrow> talking (io (cworld s))) \<and>
     (\<forall>p \<in> set (outbox s). \<exists>obj. wf_size obj \<and> msgType obj < msgCode MSG_BUTTON \<and> p = packet obj)"

lemma queues_more_button: "queues_more w w' \<Longrightarrow> no_button (buff (seq w)) \<Longrightarrow> no_button (buff (seq w'))"
  by (auto simp: queues_more_def no_button_def)

text \<open>Steps of the game loop and the talk thread: what they do to the shared state.\<close>

definition world_step :: "ClientWorld \<Rightarrow> ClientWorld \<Rightarrow> bool" where
  "world_step w w' \<longleftrightarrow> (client_ok w \<longrightarrow> client_ok w') \<and> queues_more w w' \<and> (talking (io w) \<longrightarrow> talking (io w'))"

lemma world_step_inv:
  assumes "system_inv s" and "world_step (cworld s) w"
  shows "system_inv (s\<lparr>cworld := w\<rparr>)" "system_inv (s\<lparr>cworld := w, main_at := m\<rparr>)"
  using assms queues_more_button [of "cworld s" w]
  by (auto simp: system_inv_def world_step_def)

lemma main_world_steps:
  "handleSysMsg w = Inr w' \<Longrightarrow> world_step w w'"
  "handleRecvMsg oa w = Inr w' \<Longrightarrow> world_step w w'"
  "world_step w (handleSysInput w)"
  "wf_size g \<Longrightarrow> length vptr = 8 \<Longrightarrow> length pad = 4 \<Longrightarrow>
     world_step w (snd (scanKeyBoard g vptr pad key junk w))"
  "world_step w (actor_action w)"
  using scanKeyBoard_buff [of w g vptr pad key junk]
  by (auto simp: world_step_def handleSysMsg_buff handleRecvMsg_buff handleSysInput_buff
      actor_action_buff scan_io
      intro: queues_more_same handleSysMsg_ok handleRecvMsg_ok handleSysInput_ok scanKeyBoard_ok
        actor_action_ok)

lemma client_step_inv:
  assumes "client_step split oa s s'" and inv: "system_inv s"
  shows "system_inv s'"
  using assms(1)
proof (cases rule: client_step_cases)
  case (sys_msg w)
  then show ?thesis using world_step_inv [OF inv main_world_steps(1)] by simp
next
  case (recv_msg w)
  then show ?thesis using world_step_inv [OF inv main_world_steps(2)] by simp
next
  case sys_input
  then show ?thesis using world_step_inv [OF inv main_world_steps(3)] by simp
next
  case (scan g vptr pad key junk)
  then show ?thesis using world_step_inv [OF inv main_world_steps(4)] by simp
next
  case actor
  then show ?thesis using world_step_inv [OF inv main_world_steps(5)] by simp
next
  case (printed g str w)
  then have "world_step (cworld s) w"
    using io_round_output [OF printed(4,3)] by (simp add: world_step_def queues_more_same)
  with inv printed(1) show ?thesis by (simp add: world_step_inv)
next
  case ask
  with inv show ?thesis by (simp add: system_inv_def)
next
  case (enter str)
  with inv show ?thesis by (simp add: system_inv_def)
next
  case (typed str g w)
  have t: "handleTalk split oa g str (cworld s) = Inr w"
    using typed inv by (auto simp: system_inv_def intro: io_round_typed)
  have ok: "client_ok (cworld s)" using inv by (simp add: system_inv_def)
  from handleTalk_keeps [OF t ok typed(3)] queues_more_button [OF handleTalk_buff [OF t ok typed(3)]]
  show ?thesis using inv typed(1) by (simp add: system_inv_def)
next
  case (send obj q x ps e r)
  have "msgType obj < msgCode MSG_BUTTON" "wf_size obj"
    using inv send(3) by (auto simp: system_inv_def no_button_def client_ok_def)
  with client_run_one [OF send(4), of obj] send(5) have "ps = [packet obj]" "e = Waiting"
    by auto
  with inv send(1,3) \<open>wf_size obj\<close> \<open>msgType obj < msgCode MSG_BUTTON\<close> show ?thesis
    by (auto simp: system_inv_def client_ok_def no_button_def)
next
  case (recv chunk q)
  have "length (store_at 0 chunk (recv_buf s)) = RECV_SIZE"
    using inv recv(3) by (simp add: system_inv_def)
  with recv_loop_one [OF recv(4)] inv recv(1) show ?thesis
    by (auto simp: system_inv_def client_ok_def no_button_def RECV_SIZE_def)
qed

lemma client_start_inv: "player_ok p \<Longrightarrow> system_inv (client_start p d)"
  by (simp add: system_inv_def client_start_def client_ok_def no_button_def cl_inv_new cl_new_def cl_inv_def)

lemma client_reach_inv: "client_reach split oa s \<Longrightarrow> system_inv s"
  by (induction rule: client_reach.induct) (auto intro: client_start_inv client_step_inv)

section \<open>Order of the messages to the server\<close>

text \<open>What was sent and what waits to be sent.\<close>

definition outgoing :: "ClientSys \<Rightarrow> bytes list" where
  "outgoing s = outbox s @ map packet (buff (seq (cworld s)))"

definition extends :: "ClientSys \<Rightarrow> ClientSys \<Rightarrow> bool" where
  "extends s s' \<longleftrightarrow> (\<exists>more. outgoing s' = outgoing s @ more)"

lemma extends_refl: "outgoing s' = outgoing s \<Longrightarrow> extends s s'"
  by (simp add: extends_def)

lemma extends_trans: "extends s t \<Longrightarrow> extends t u \<Longrightarrow> extends s u"
  by (auto simp: extends_def)

lemma extends_world:
  "queues_more (cworld s) w \<Longrightarrow> extends s (s\<lparr>cworld := w, main_at := m\<rparr>)"
  "queues_more (cworld s) w \<Longrightarrow> extends s (s\<lparr>cworld := w, talk_at := t\<rparr>)"
  by (auto simp: queues_more_def extends_def outgoing_def)

lemma client_step_extends:
  assumes "client_step split oa s s'" and inv: "system_inv s"
  shows "extends s s'"
  using assms(1)
proof (cases rule: client_step_cases)
  case (sys_msg w)
  then show ?thesis using main_world_steps(1) by (simp add: world_step_def extends_world)
next
  case (recv_msg w)
  then show ?thesis using main_world_steps(2) by (simp add: world_step_def extends_world)
next
  case sys_input
  then show ?thesis using main_world_steps(3) by (simp add: world_step_def extends_world)
next
  case (scan g vptr pad key junk)
  then show ?thesis using main_world_steps(4) by (simp add: world_step_def extends_world)
next
  case actor
  then show ?thesis using main_world_steps(5) by (simp add: world_step_def extends_world)
next
  case (printed g str w)
  then show ?thesis using io_round_output(1) [OF printed(4,3)] by (simp add: extends_refl outgoing_def)
next
  case ask
  then show ?thesis by (simp add: extends_refl outgoing_def)
next
  case (enter str)
  then show ?thesis by (simp add: extends_refl outgoing_def)
next
  case (typed str g w)
  have "handleTalk split oa g str (cworld s) = Inr w" "client_ok (cworld s)"
    using typed inv by (auto simp: system_inv_def intro: io_round_typed)
  from handleTalk_buff [OF this typed(3)] show ?thesis unfolding typed(1) by (rule extends_world)
next
  case (send obj q x ps e r)
  have "msgType obj \<noteq> msgCode MSG_BUTTON" using inv send(3) by (auto simp: system_inv_def no_button_def)
  with client_run_one [OF send(4), of obj] send(5) have "ps = [packet obj]" by auto
  with send(1,3) show ?thesis by (simp add: extends_refl outgoing_def)
next
  case (recv chunk q)
  have "84 \<le> length (store_at 0 chunk (recv_buf s))"
    using inv recv(3) by (simp add: system_inv_def RECV_SIZE_def)
  from recv_loop_one(1) [OF recv(4) this] recv(1) show ?thesis
    by (simp add: extends_refl outgoing_def)
qed

lemma client_steps_inv:
  "(client_step split oa)\<^sup>*\<^sup>* s s' \<Longrightarrow> system_inv s \<Longrightarrow> system_inv s' \<and> extends s s'"
proof (induction rule: rtranclp_induct)
  case base
  then show ?case by (simp add: extends_refl)
next
  case (step t u)
  then show ?case using client_step_inv client_step_extends extends_trans by blast
qed

section \<open>While a line is typed\<close>





section \<open>One update of the game is a run of its steps\<close>

lemma game_update_steps:
  assumes "game_update oa g vptr pad key junk (cworld s) = Inr w"
    and "main_at s = AtSysMsg" "talk_at s = TalkWaiting" and "wf_size g" "length vptr = 8" "length pad = 4"
  shows "(client_step split oa)\<^sup>*\<^sup>* s (s\<lparr>cworld := w\<rparr>)"
proof -
  obtain w1 w2 where w: "handleSysMsg (cworld s) = Inr w1" "handleRecvMsg oa w1 = Inr w2"
    "w = actor_action (snd (scanKeyBoard g vptr pad key junk (handleSysInput w2)))"
    using assms(1) by (auto simp: game_update_def handleSystem_def split_beta)
  let ?s = "\<lambda>w m. s\<lparr>cworld := w, main_at := m\<rparr>" and ?w3 = "handleSysInput w2"
  let ?w4 = "snd (scanKeyBoard g vptr pad key junk ?w3)"
  have "client_step split oa s (?s w1 AtRecvMsg)"
    using client_step.sys_msg [OF assms(2) _ w(1)] assms(3) by simp
  moreover have "client_step split oa (?s w1 AtRecvMsg) (?s w2 AtSysInput)"
    using client_step.recv_msg [of "?s w1 AtRecvMsg" oa w2 split] w(2) by simp
  moreover have "client_step split oa (?s w2 AtSysInput) (?s ?w3 AtScan)"
    using client_step.sys_input [of "?s w2 AtSysInput" split oa] assms(3) by simp
  moreover have "client_step split oa (?s ?w3 AtScan) (?s ?w4 AtActor)"
    using client_step.scan [of "?s ?w3 AtScan" g vptr pad split oa key junk] assms(3-) by simp
  moreover have "client_step split oa (?s ?w4 AtActor) (?s (actor_action ?w4) AtSysMsg)"
    using client_step.actor [of "?s ?w4 AtActor" split oa] by simp
  moreover have "?s (actor_action ?w4) AtSysMsg = s\<lparr>cworld := w\<rparr>" using assms(2) w(3) by simp
  ultimately show ?thesis by (metis (no_types, lifting) converse_rtranclp_into_rtranclp rtranclp.rtrancl_refl)
qed

section \<open>A session\<close>

text \<open>The Enter key was pressed and handled, and the talk thread waits for a line.\<close>

abbreviation new_client :: ClientSys where
  "new_client \<equiv> client_start demo_player demo_disk"

definition asked_world :: ClientWorld where
  "asked_world = (cworld new_client)
     \<lparr>io := \<lparr>talking = True, outputMsg = []\<rparr>, console := [''get system'' @ to_string 6]\<rparr>"

definition typing_client :: ClientSys where
  "typing_client = new_client\<lparr>cworld := asked_world, main_at := AtScan, talk_at := TalkTyping\<rparr>"

text \<open>A step while nobody is asked for a line.\<close>

definition waiting_step ::
  "(string \<Rightarrow> string \<Rightarrow> string list) \<Rightarrow> (image \<Rightarrow> bytes) \<Rightarrow> ClientSys \<Rightarrow> ClientSys \<Rightarrow> bool" where
  "waiting_step split oa s s' \<longleftrightarrow> client_step split oa s s' \<and> talk_at s = TalkWaiting"

lemma idle_frame:
  assumes "sysBuff (seq (cworld s)) = []" "rcvBuff (seq (cworld s)) = []" "main_at s = AtSysMsg"
    and "talk_at s = TalkWaiting"
  shows "(waiting_step split oa)\<^sup>*\<^sup>* s (s\<lparr>cworld := handleSysInput (cworld s), main_at := AtScan\<rparr>)"
proof -
  have m: "handleSysMsg (cworld s) = Inr (cworld s)" "handleRecvMsg oa (cworld s) = Inr (cworld s)"
    using assms(1,2) by (simp_all add: handleSysMsg_def tryGetSysMsg_def handleRecvMsg_def cq_defs)
  from client_step.sys_msg [OF assms(3) _ m(1)] assms(4)
  have 1: "waiting_step split oa s (s\<lparr>main_at := AtRecvMsg\<rparr>)" by (simp add: waiting_step_def)
  from client_step.recv_msg [of "s\<lparr>main_at := AtRecvMsg\<rparr>"] m(2) assms(4)
  have 2: "waiting_step split oa (s\<lparr>main_at := AtRecvMsg\<rparr>) (s\<lparr>main_at := AtSysInput\<rparr>)"
    by (fastforce simp: waiting_step_def)
  from client_step.sys_input [of "s\<lparr>main_at := AtSysInput\<rparr>"] assms(4)
  have 3: "waiting_step split oa (s\<lparr>main_at := AtSysInput\<rparr>)
      (s\<lparr>cworld := handleSysInput (cworld s), main_at := AtScan\<rparr>)" by (fastforce simp: waiting_step_def)
  from 1 2 3 show ?thesis by (meson converse_rtranclp_into_rtranclp rtranclp.rtrancl_refl)
qed

lemma client_reach_steps:
  "(client_step split oa)\<^sup>*\<^sup>* s s' \<Longrightarrow> client_reach split oa s \<Longrightarrow> client_reach split oa s'"
  by (induction rule: rtranclp_induct) (auto intro: client_reach.step)

lemma asked_path: "(waiting_step split oa)\<^sup>*\<^sup>* new_client (new_client\<lparr>cworld := asked_world, main_at := AtScan\<rparr>)"
proof -
  let ?g = TransObj_default and ?v = "replicate 8 NUL" and ?p = "replicate 4 NUL" and ?k = "Some (CHR 0x0A)"
  have h0: "handleSysInput (cworld new_client) = cworld new_client"
    by (simp add: client_start_def handleSysInput_def)
  have 1: "(waiting_step split oa)\<^sup>*\<^sup>* new_client (new_client\<lparr>main_at := AtScan\<rparr>)"
    using idle_frame [of new_client split oa] unfolding h0 by (simp add: client_start_def)
  let ?w = "(cworld new_client)\<lparr>keys := \<lparr>cmdQue = [], sysCmdQue = [6]\<rparr>, console := [''get system'' @ to_string 6]\<rparr>"
  have k: "snd (scanKeyBoard ?g ?v ?p ?k NUL (cworld new_client)) = ?w"
    by (simp add: scanKeyBoard_def isTimeToReadKey_def client_start_def char_key_def readkey_cmd_def
        om_get_def isActorCmd_def isSystemCmd_def println_def Let_def)
  from client_step.scan [of "new_client\<lparr>main_at := AtScan\<rparr>" ?g ?v ?p split oa ?k NUL]
  have 2: "waiting_step split oa (new_client\<lparr>main_at := AtScan\<rparr>) (new_client\<lparr>cworld := ?w, main_at := AtActor\<rparr>)"
    using k wf_obj_size [OF wf_obj_default] by (simp add: client_start_def waiting_step_def)
  have a: "actor_action ?w = ?w" by (simp add: actor_action_def getCmd_def)
  from client_step.actor [of "new_client\<lparr>cworld := ?w, main_at := AtActor\<rparr>" split oa] a
  have 3: "waiting_step split oa (new_client\<lparr>cworld := ?w, main_at := AtActor\<rparr>)
     (new_client\<lparr>cworld := ?w, main_at := AtSysMsg\<rparr>)" by (simp add: waiting_step_def client_start_def)
  have h: "handleSysInput ?w = asked_world"
    by (simp add: asked_world_def handleSysInput_def IOManger_doCommand_def turnToTalk_def client_start_def)
  have 4: "(waiting_step split oa)\<^sup>*\<^sup>* (new_client\<lparr>cworld := ?w, main_at := AtSysMsg\<rparr>)
      (new_client\<lparr>cworld := asked_world, main_at := AtScan\<rparr>)"
    using idle_frame [of "new_client\<lparr>cworld := ?w, main_at := AtSysMsg\<rparr>" split oa] h
    by (simp add: client_start_def)
  from 1 2 3 4 show ?thesis
    by (meson rtranclp.rtrancl_into_rtrancl rtranclp_trans)
qed

lemma typing_client_path: "(waiting_step split oa)\<^sup>*\<^sup>* new_client typing_client"
proof -
  from client_step.ask [of "new_client\<lparr>cworld := asked_world, main_at := AtScan\<rparr>" split oa]
  have "waiting_step split oa (new_client\<lparr>cworld := asked_world, main_at := AtScan\<rparr>) typing_client"
    by (simp add: typing_client_def asked_world_def client_start_def waiting_step_def asked_world_def)
  with asked_path show ?thesis by (rule rtranclp.rtrancl_into_rtrancl)
qed

lemma new_client_player: "player_ok demo_player"
  by (simp add: player_ok_def demo_player_def om_ok_def MAX_FRIENDS_NUM_def)

lemma waiting_step_calm: "waiting_step split oa s s' \<Longrightarrow> calm_step split oa s s'"
proof -
  assume w: "waiting_step split oa s s'"
  then have "client_step split oa s s'" "talk_at s = TalkWaiting" by (simp_all add: waiting_step_def)
  then have "talk_at s' \<in> {TalkWaiting, TalkTyping}" by (cases rule: client_step_cases) auto
  with w show ?thesis by (auto simp: waiting_step_def calm_step_def player_race_def)
qed

lemma typing_client_calm: "calm_reach split oa typing_client"
proof -
  have "(calm_step split oa)\<^sup>*\<^sup>* new_client typing_client"
    using typing_client_path by (rule rtranclp_mono [THEN predicate2D, rotated]) (auto intro: waiting_step_calm)
  then show ?thesis using calm_reach.start [OF new_client_player] by (rule calm_reach_steps)
qed

lemma typing_client_reach: "client_reach split oa typing_client"
  using typing_client_calm by (rule calm_reach_client)

text \<open>The line \<open>login@bob|secret\<close> was typed and its message sent.\<close>

lemma credentials_wf:
  assumes "wf_size g" and "length name < 24" and "length pw < 40"
  shows "wf_size (credentials g t name pw)"
  using assms by (simp add: credentials_def wf_size_def max_len_defs)

lemma typing_client_line:
  "\<exists>w. io_round split_ref demo_oa TransObj_default (''login'' @ ''@'' @ ''bob'' @ ''|'' @ ''secret'')
         (cworld typing_client) = Some (Inr w) \<and>
       buff (seq w) = [credentials TransObj_default MSG_LOGIN ''bob'' ''secret'']"
proof -
  let ?l = "''login'' @ ''@'' @ ''bob'' @ ''|'' @ ''secret''"
  have c: "clean ''bob''" "clean ''secret''" by (simp_all add: clean_def NUL_def)
  have g: "getMsgFromInput split_ref demo_oa TransObj_default ?l w =
      Inr (Some (credentials TransObj_default MSG_LOGIN ''bob'' ''secret''), w)" for w
    using command_line [OF boost_split_ref _ clean_pair [OF c], of "''login''" OfLogin]
      credentials_command(1) [OF boost_split_ref wf_obj_size [OF wf_obj_default] c]
    by (simp add: communicationCmdTable_def)
  have "length ?l < MAX_TRANS_MSG_LEN" by (simp add: MAX_TRANS_MSG_LEN_def)
  with g show ?thesis
    by (simp add: io_round_def handleTalk_def Let_def typing_client_def asked_world_def client_start_def println_def
        pushBuff_def cq_push_def del: append.simps)
qed

lemma sent_client:
  "\<exists>s. (calm_step split_ref demo_oa)\<^sup>*\<^sup>* typing_client s \<and>
       outbox s = [packet (credentials TransObj_default MSG_LOGIN ''bob'' ''secret'')]"
proof -
  let ?l = "''login'' @ ''@'' @ ''bob'' @ ''|'' @ ''secret''"
  let ?obj = "credentials TransObj_default MSG_LOGIN ''bob'' ''secret''"
  obtain w where w: "io_round split_ref demo_oa TransObj_default ?l (cworld typing_client) = Some (Inr w)"
    "buff (seq w) = [?obj]"
    using typing_client_line by blast
  let ?t = "typing_client\<lparr>talk_at := TalkHandling ?l\<rparr>"
  let ?s = "?t\<lparr>cworld := w, talk_at := TalkWaiting\<rparr>"
  have 0: "calm_step split_ref demo_oa typing_client ?t"
    unfolding calm_step_def
    by (intro conjI client_step.enter) (simp_all add: typing_client_def player_race_def main_uses_player_def)
  have "client_step split_ref demo_oa ?t ?s"
    by (rule client_step.typed [OF _ wf_obj_size [OF wf_obj_default]]) (use w(1) in simp_all)
  then have 1: "calm_step split_ref demo_oa ?t ?s" by (simp add: calm_step_def player_race_def)
  have r: "client_run [Taken] [?obj] = ([packet ?obj], Waiting, [])"
    by (rule client_run_one) (simp_all add: credentials_def TransObj_all_def)
  have "sender_at ?s = Waiting" "buff (seq (cworld ?s)) = ?obj # []"
    using w(2) by (simp_all add: typing_client_def asked_world_def client_start_def)
  from client_step.send [OF this _ r, of split_ref demo_oa] obtain s'
    where s': "client_step split_ref demo_oa ?s s'" "outbox s' = outbox ?s @ [packet ?obj]" "talk_at s' = TalkWaiting" by simp
  then have "calm_step split_ref demo_oa ?s s'" by (simp add: calm_step_def player_race_def)
  with 0 1 have "(calm_step split_ref demo_oa)\<^sup>*\<^sup>* typing_client s'"
    by (meson converse_rtranclp_into_rtranclp rtranclp.rtrancl_refl)
  moreover have "outbox ?s = []" by (simp add: typing_client_def asked_world_def client_start_def)
  ultimately show ?thesis using s'(2) by (intro exI [of _ s']) simp
qed

text \<open>
  The race for the player's data can happen: the talk thread, woken when the game loop has come
  to the received messages, finds a line and handles it, and a message has arrived.
\<close>

lemma player_race_happens: "\<exists>s. client_reach split oa s \<and> player_race s"
proof -
  let ?s = "\<lambda>m t. new_client\<lparr>cworld := asked_world, main_at := m, talk_at := t\<rparr>"
  have start: "?s AtScan TalkWaiting = new_client\<lparr>cworld := asked_world, main_at := AtScan\<rparr>"
    by (simp add: client_start_def)
  have "(client_step split oa)\<^sup>*\<^sup>* new_client (?s AtScan TalkWaiting)"
    unfolding start using asked_path by (rule rtranclp_mono [THEN predicate2D, rotated]) (auto simp: waiting_step_def)
  from client_reach_steps [OF this client_reach.start [OF new_client_player]]
  have 1: "client_reach split oa (?s AtScan TalkWaiting)" .
  have "snd (scanKeyBoard TransObj_default (replicate 8 NUL) (replicate 4 NUL) None NUL asked_world) = asked_world"
    by (simp add: scanKeyBoard_def isTimeToReadKey_def asked_world_def)
  with client_step.scan [of "?s AtScan TalkWaiting" TransObj_default "replicate 8 NUL" "replicate 4 NUL" split oa None NUL]
  have "client_step split oa (?s AtScan TalkWaiting) (?s AtActor TalkWaiting)"
    using wf_obj_size [OF wf_obj_default] by (simp add: client_start_def)
  from client_reach.step [OF 1 this] have 2: "client_reach split oa (?s AtActor TalkWaiting)" .
  have "actor_action asked_world = asked_world" by (simp add: actor_action_def getCmd_def asked_world_def client_start_def)
  with client_step.actor [of "?s AtActor TalkWaiting" split oa]
  have "client_step split oa (?s AtActor TalkWaiting) (?s AtSysMsg TalkWaiting)" by (simp add: client_start_def)
  from client_reach.step [OF 2 this] have 3: "client_reach split oa (?s AtSysMsg TalkWaiting)" .
  have "handleSysMsg asked_world = Inr asked_world"
    by (simp add: handleSysMsg_def tryGetSysMsg_def cq_defs asked_world_def client_start_def)
  with client_step.sys_msg [of "?s AtSysMsg TalkWaiting" asked_world split oa]
  have "client_step split oa (?s AtSysMsg TalkWaiting) (?s AtRecvMsg TalkWaiting)" by (simp add: client_start_def)
  from client_reach.step [OF 3 this] have 4: "client_reach split oa (?s AtRecvMsg TalkWaiting)" .
  have "client_step split oa (?s AtRecvMsg TalkWaiting) (?s AtRecvMsg TalkTyping)"
    using client_step.ask [of "?s AtRecvMsg TalkWaiting" split oa] by (simp add: asked_world_def client_start_def)
  from client_reach.step [OF 4 this] have 5: "client_reach split oa (?s AtRecvMsg TalkTyping)" .
  let ?line = "TalkHandling ''hello''"
  have "client_step split oa (?s AtRecvMsg TalkTyping) (?s AtRecvMsg ?line)"
    using client_step.enter [of "?s AtRecvMsg TalkTyping" split oa "''hello''"] by (simp add: client_start_def)
  from client_reach.step [OF 5 this] have 6: "client_reach split oa (?s AtRecvMsg ?line)" .
  let ?chunk = "obj_bytes TransObj_default" and ?t = "?s AtRecvMsg ?line"
  have b: "length (recv_buf ?t) = 512" by (simp add: client_start_def RECV_SIZE_def)
  obtain q where q: "recv_loop [?chunk] (recv_buf ?t) (seq (cworld ?t)) = Inr q" "rcvBuff q \<noteq> []"
    using recv_loop_objects [of "[TransObj_default]", OF _ b, of "seq (cworld ?t)"] wf_obj_default by auto
  from client_step.recv [OF _ _ q(1), of split oa]
  have "client_step split oa ?t (?t\<lparr>cworld := (cworld ?t)\<lparr>seq := q\<rparr>, recv_buf := store_at 0 ?chunk (recv_buf ?t)\<rparr>)"
    by (simp add: length_obj_bytes sizeof_TransObj_def RECV_SIZE_def)
  from client_reach.step [OF 6 this] q(2) show ?thesis
    by (intro exI) (auto simp: player_race_def main_uses_player_def)
qed

section \<open>Properties\<close>

text \<open>C10: In every run without a race for the player's data, however the four threads of the client
  interleave otherwise, the client's invariant holds (request counter, friend map and its bound,
  object sizes), the sender thread never leaves its loop, every packet it handed to \<^verbatim>\<open>send\<close> is the
  512-byte image of a full-size object, and the talk thread only reads or handles a line while the
  talk flag is set.\<close>

theorem client_system_safe:
  assumes "calm_reach split oa s"
  shows "client_ok (cworld s) \<and> sender_at s = Waiting \<and>
         (talk_at s \<noteq> TalkWaiting \<longrightarrow> talking (io (cworld s))) \<and>
         (\<forall>p \<in> set (outbox s). length p = 512 \<and> (\<exists>obj. wf_size obj \<and> p = packet obj))"
  using client_reach_inv [OF calm_reach_client [OF assms]] length_packet by (auto simp: system_inv_def)

theorem client_system_safe_witness:
  "client_ok (cworld typing_client) \<and> talking (io (cworld typing_client))"
  using client_system_safe [OF typing_client_calm [of split_ref demo_oa]]
  by (simp add: typing_client_def)

text \<open>C14: What the client has sent and still has to send only ever grows at its end: whatever the
  threads do, no queued message is lost, overtaken or sent twice.\<close>

theorem client_sends_in_order:
  assumes "client_reach split oa s" and "(client_step split oa)\<^sup>*\<^sup>* s s'"
  shows "\<exists>more. outbox s' @ map packet (buff (seq (cworld s'))) =
                (outbox s @ map packet (buff (seq (cworld s)))) @ more"
  using client_steps_inv [OF assms(2) client_reach_inv [OF assms(1)]]
  by (simp add: extends_def outgoing_def)

theorem client_sends_in_order_witness:
  "\<exists>(s::ClientSys) more. outbox s = [packet (credentials TransObj_default MSG_LOGIN ''bob'' ''secret'')] \<and>
     outbox s @ map packet (buff (seq (cworld s))) =
       (outbox typing_client @ map packet (buff (seq (cworld typing_client)))) @ more"
proof -
  obtain s where c: "(calm_step split_ref demo_oa)\<^sup>*\<^sup>* typing_client s"
    and s: "outbox s = [packet (credentials TransObj_default MSG_LOGIN ''bob'' ''secret'')]"
    using sent_client by blast
  have "(client_step split_ref demo_oa)\<^sup>*\<^sup>* typing_client s"
    using c by (rule rtranclp_mono [THEN predicate2D, rotated]) (auto simp: calm_step_def)
  note s = this s
  from client_sends_in_order [OF typing_client_reach s(1)] obtain more
    where "outbox s @ map packet (buff (seq (cworld s))) =
       (outbox typing_client @ map packet (buff (seq (cworld typing_client)))) @ more" ..
  with s(2) show ?thesis by blast
qed



declare recv_loop.simps [simp] client_run.simps [simp]

end
