(* ===== verification/Network.thy ===== *)
theory Network
  imports ServerSystem ClientSystem
begin

text \<open>
  The two processes joined by their connections, one packet for each \<open>recv\<close>: what any
  number of clients have sent becomes, in the order of arrival, the tasks of the server's
  thread pool, and what the server has sent to a connection is received at its client. The
  threads of both sides are those of \<^verbatim>\<open>ClientSystem\<close> and \<^verbatim>\<open>ServerSystem\<close>; \<^verbatim>\<open>Segments\<close> lets
  the packets to the server be cut.
\<close>

section \<open>Arrivals\<close>

text \<open>Events: bytes, and in particular the packet of an object, arrive on a connection.\<close>

definition chunk_event :: "s32 \<Rightarrow> bytes \<Rightarrow> io_event" where
  "chunk_event fd chunk = \<lparr>ev_fd = fd, ev_flags = EPOLLIN, ev_rcv = Inr chunk, ev_client = -1,
     ev_fresh = replicate BUFFER_SIZE NUL\<rparr>"

definition arrival :: "s32 \<Rightarrow> TransObj \<Rightarrow> io_event" where
  "arrival fd obj = chunk_event fd (packet obj)"

definition connection_open :: "s32 \<Rightarrow> EpollWorld \<Rightarrow> bool" where
  "connection_open fd w \<longleftrightarrow>
     (\<exists>h. handlers_map w fd = Some (Some (Echo h)) \<and> length (ebuffer h) = BUFFER_SIZE)"

lemma arrival_queues:
  assumes "wf_size obj" and "connection_open fd w"
    and "server_handle (Some (obj\<lparr>mlen := 0\<rparr>)) fd (jobs w) = Inr p"
  shows "\<exists>w'. dispatch_event (arrival fd obj) w = Inr (Inr (0, w')) \<and> jobs w' = p \<and>
     (\<forall>f. connection_open f w \<longrightarrow> connection_open f w')"
proof -
  obtain h where "handlers_map w fd = Some (Some (Echo h))" "length (ebuffer h) = BUFFER_SIZE"
    using assms(2) by (auto simp: connection_open_def)
  from echo_packet [OF assms(1) this assms(3), of "arrival fd obj"] obtain w' where w':
    "dispatch_event (arrival fd obj) w = Inr (Inr (0, w'))" "jobs w' = p"
    "\<forall>f. f \<noteq> fd \<longrightarrow> handlers_map w' f = handlers_map w f"
    "\<exists>h'. handlers_map w' fd = Some (Some (Echo h')) \<and> length (ebuffer h') = BUFFER_SIZE"
    by (auto simp: arrival_def chunk_event_def)
  then have "connection_open f w'" if "connection_open f w" for f
    using that by (cases "f = fd") (auto simp: connection_open_def)
  with w'(1,2) show ?thesis by blast
qed

lemma one_connection_open: "connection_open 9 one_connection" "\<not> stop (jobs one_connection)"
  by (simp_all add: connection_open_def one_connection_def addHandler_def EchoHandler_new_def
      BUFFER_SIZE_def ServerHandler_new_def empty_loop_def pool_init_def)

text \<open>A packet determines its object but for the length.\<close>

lemma packet_determines:
  assumes "wf_size a" and "wf_size b" and "packet a = packet b"
  shows "a\<lparr>mlen := 0\<rparr> = b\<lparr>mlen := 0\<rparr>"
proof -
  have "transBuff2Obj (Some (packet c)) TransObj_default = Inr (True, c\<lparr>mlen := 0\<rparr>)" if "wf_size c" for c
    using transBuff2Obj_default [of c "replicate 428 NUL"] that by (simp add: packet_bytes)
  from this [OF assms(1)] this [OF assms(2)] show ?thesis by (simp add: assms(3))
qed

section \<open>From the clients to the pool\<close>

text \<open>
  What the server owes a message, independently of the table and its handlers: the task a
  message of this type stands for. The length does not survive the transfer.
\<close>

definition owed_task :: "s32 \<Rightarrow> TransObj \<Rightarrow> ServerTask option" where
  "owed_task fd obj =
     (let o1 = obj\<lparr>mlen := 0\<rparr> in
      if msgType obj = msgCode MSG_TALK then Some (SendMsgTask o1)
      else if msgType obj = msgCode MSG_REG then Some (RegTask o1 fd)
      else if msgType obj = msgCode MSG_LOGIN then Some (LogTask o1 fd)
      else if msgType obj = msgCode MSG_ASK_FOR_FRIEND then Some (AskFriendTask o1 fd)
      else if msgType obj = msgCode MSG_ASK_FOR_FRIEND_ACCEPT then Some (AcceptFriendTask o1)
      else None)"

lemma login_packet_owed:
  assumes "packet obj = packet (credentials g MSG_LOGIN name passwd)" and "wf_size obj"
    and "wf_size g" "length name < 24" "length passwd < 40"
  shows "owed_task fd obj = Some (LogTask ((credentials g MSG_LOGIN name passwd)\<lparr>mlen := 0\<rparr>) fd)"
proof -
  let ?c = "credentials g MSG_LOGIN name passwd"
  have e: "obj\<lparr>mlen := 0\<rparr> = ?c\<lparr>mlen := 0\<rparr>"
    using packet_determines [OF assms(2) credentials_wf [OF assms(3-5)] assms(1)] .
  then have "msgType (obj\<lparr>mlen := 0\<rparr>) = msgType (?c\<lparr>mlen := 0\<rparr>)" by (rule arg_cong)
  then have "msgType obj = 6" by (simp add: credentials_def TransObj_all_def)
  with e show ?thesis by (simp add: owed_task_def)
qed

lemma server_handle_owed:
  assumes "\<not> stop p"
  shows "\<exists>p'. server_handle (Some (obj\<lparr>mlen := 0\<rparr>)) fd p = Inr p' \<and> \<not> stop p' \<and>
     submitted p' = submitted p @ List.map_filter (owed_task fd) [obj]"
  using assms
  by (auto simp: server_handle_def g_msgHandle_def owed_task_def s_handler_defs enqueue_def Let_def)

lemma arrivals_queue:
  assumes "\<forall>(fd, obj) \<in> set ms. connection_open fd w \<and> wf_size obj" and "\<not> stop (jobs w)"
  shows "\<exists>w'. dispatch_all (map (\<lambda>(fd, obj). arrival fd obj) ms) w = Inr (Inr w') \<and>
     submitted (jobs w') = submitted (jobs w) @ List.map_filter (\<lambda>(fd, obj). owed_task fd obj) ms \<and>
     (\<forall>f. connection_open f w \<longrightarrow> connection_open f w')"
  using assms
proof (induction ms arbitrary: w)
  case Nil
  then show ?case by simp
next
  case (Cons m ms)
  obtain fd obj where m: "m = (fd, obj)" by (cases m)
  then have c: "connection_open fd w" "wf_size obj" using Cons.prems(1) by auto
  obtain p' where p': "server_handle (Some (obj\<lparr>mlen := 0\<rparr>)) fd (jobs w) = Inr p'" "\<not> stop p'"
    "submitted p' = submitted (jobs w) @ List.map_filter (owed_task fd) [obj]"
    using server_handle_owed [OF Cons.prems(2)] by blast
  obtain w1 where w1: "dispatch_event (arrival fd obj) w = Inr (Inr (0, w1))" "jobs w1 = p'"
    "\<forall>f. connection_open f w \<longrightarrow> connection_open f w1"
    using arrival_queues [OF c(2,1) p'(1)] by blast
  have "\<forall>(fd, obj) \<in> set ms. connection_open fd w1 \<and> wf_size obj" using Cons.prems(1) w1(3) by auto
  from Cons.IH [OF this] p'(2,3) w1 show ?case by (auto simp: m split: option.splits)
qed

section \<open>From the server to a client\<close>

text \<open>
  The receiver's buffer keeps a NUL behind the object, so an object arrives even when its
  own array has none.
\<close>

lemma recv_loop_sized:
  assumes "\<forall>obj \<in> set objs. wf_size obj" and "length rcvBuf = 512" and "NUL \<in> set (drop 84 rcvBuf)"
  shows "recv_loop (map obj_bytes objs) rcvBuf s =
           Inr (s\<lparr>rcvBuff := rcvBuff s @ map (\<lambda>obj. obj\<lparr>mlen := 0\<rparr>) objs\<rparr>)"
  using assms
proof (induction objs arbitrary: rcvBuf s)
  case Nil
  then show ?case by simp
next
  case (Cons obj objs)
  then have wf: "wf_size obj" by simp
  let ?buf = "obj_bytes obj @ drop 84 rcvBuf"
  have buf: "store_at 0 (obj_bytes obj) rcvBuf = ?buf"
    by (simp add: store_at_0 length_obj_bytes wf sizeof_TransObj_def)
  have len: "length ?buf = 512" "NUL \<in> set (drop 84 ?buf)"
    using Cons.prems(2,3) by (simp_all add: length_obj_bytes wf sizeof_TransObj_def)
  have "transBuff2Obj (Some ?buf) TransObj_default = Inr (True, obj\<lparr>mlen := 0\<rparr>)"
    by (rule transBuff2Obj_default) (simp_all add: wf Cons.prems(3))
  with Cons.IH [OF _ len] Cons.prems(1) show ?case
    by (simp add: buf pushRcvBuff_def cq_push_def)
qed

section \<open>Properties\<close>

text \<open>From the clients to the server. Whatever packets the reachable states of any number of clients
  have sent, arriving on open connections in any order, one packet for each \<^verbatim>\<open>recv\<close>, the
  server's event loop handles them all, and the thread pool is given exactly the tasks the
  messages stand for, in the order of arrival.\<close>

lemma clients_to_server:
  assumes "\<forall>(fd, p) \<in> set ps. connection_open fd w \<and> (\<exists>s. client_reach split oa s \<and> p \<in> set (outbox s))"
    and "\<not> stop (jobs w)"
  shows "\<exists>ms w'. ps = map (\<lambda>(fd, obj). (fd, packet obj)) ms \<and> (\<forall>(fd, obj) \<in> set ms. wf_size obj) \<and>
           dispatch_all (map (\<lambda>(fd, p). chunk_event fd p) ps) w = Inr (Inr w') \<and>
           submitted (jobs w') = submitted (jobs w) @ List.map_filter (\<lambda>(fd, obj). owed_task fd obj) ms \<and>
           (\<forall>f. connection_open f w \<longrightarrow> connection_open f w')"
proof -
  have "\<exists>obj. wf_size obj \<and> p = packet obj" if "(fd, p) \<in> set ps" for fd p
    using assms(1) that client_reach_inv by (fastforce simp: system_inv_def)
  then have "\<exists>m. (fst m = fst x \<and> snd x = packet (snd m)) \<and> wf_size (snd m)" if "x \<in> set ps" for x
    using that by (cases x) force
  then obtain f where f: "\<And>x. x \<in> set ps \<Longrightarrow> fst (f x) = fst x \<and> snd x = packet (snd (f x)) \<and> wf_size (snd (f x))"
    by metis
  define ms where "ms = map f ps"
  have ps: "ps = map (\<lambda>(fd, obj). (fd, packet obj)) ms"
    unfolding ms_def map_map using f by (intro map_idI [symmetric]) (simp add: case_prod_beta prod_eq_iff)
  have ms: "\<forall>(fd, obj) \<in> set ms. connection_open fd w \<and> wf_size obj"
  proof -
    have "connection_open (fst (f x)) w \<and> wf_size (snd (f x))" if "x \<in> set ps" for x
      using assms(1) f [OF that] that by (cases x) auto
    then show ?thesis by (auto simp: ms_def case_prod_beta)
  qed
  from arrivals_queue [OF ms assms(2)] obtain w' where
    "dispatch_all (map (\<lambda>(fd, obj). arrival fd obj) ms) w = Inr (Inr w')"
    "submitted (jobs w') = submitted (jobs w) @ List.map_filter (\<lambda>(fd, obj). owed_task fd obj) ms"
    "\<forall>f. connection_open f w \<longrightarrow> connection_open f w'" by blast
  moreover have "map (\<lambda>(fd, p). chunk_event fd p) ps = map (\<lambda>(fd, obj). arrival fd obj) ms"
    unfolding ps by (simp add: arrival_def case_prod_beta)
  moreover have "\<forall>(fd, obj) \<in> set ms. wf_size obj" using ms by auto
  ultimately show ?thesis using ps by metis
qed

lemma clients_to_server_example:
  "\<exists>w'. dispatch_all [chunk_event 9 (packet (credentials TransObj_default MSG_LOGIN ''bob'' ''secret''))] one_connection =
           Inr (Inr w') \<and>
         submitted (jobs w') = [LogTask ((credentials TransObj_default MSG_LOGIN ''bob'' ''secret'')\<lparr>mlen := 0\<rparr>) 9]"
proof -
  let ?c = "credentials TransObj_default MSG_LOGIN ''bob'' ''secret''"
  let ?p = "packet ?c"
  obtain s where "(calm_step split_ref demo_oa)\<^sup>*\<^sup>* typing_client s" "outbox s = [?p]"
    using sent_client by blast
  with calm_reach_steps typing_client_calm calm_reach_client
  have s: "client_reach split_ref demo_oa s" "?p \<in> set (outbox s)" by auto
  have "\<forall>(fd, p) \<in> set [(9, ?p)]. connection_open fd one_connection \<and>
      (\<exists>s. client_reach split_ref demo_oa s \<and> p \<in> set (outbox s))"
    using s one_connection_open(1) by auto
  from clients_to_server [OF this one_connection_open(2)] obtain ms w' where
    m: "[(9, ?p)] = map (\<lambda>(fd, obj). (fd, packet obj)) ms" "\<forall>(fd, obj) \<in> set ms. wf_size obj"
    "dispatch_all (map (\<lambda>(fd, p). chunk_event fd p) [(9, ?p)]) one_connection = Inr (Inr w')"
    "submitted (jobs w') = submitted (jobs one_connection) @ List.map_filter (\<lambda>(fd, obj). owed_task fd obj) ms"
    by (elim exE conjE) (rule that)
  from m(1,2) obtain obj where obj: "ms = [(9, obj)]" "packet obj = ?p" "wf_size obj" by auto
  have "List.map_filter (\<lambda>(fd, obj). owed_task fd obj) ms = [LogTask (?c\<lparr>mlen := 0\<rparr>) 9]"
    using login_packet_owed [OF obj(2,3) wf_obj_size [OF wf_obj_default]] by (simp add: obj(1))
  with m(3,4) show ?thesis
    by (intro exI [of _ w']) (simp del: dispatch_all.simps add: one_connection_def addHandler_def ServerHandler_new_def empty_loop_def pool_init_def)
qed

text \<open>C6: From the server to a client. In every reachable state of the server's threads the packets sent to
  a connection are objects, and a client that reads them, one for each \<^verbatim>\<open>recv\<close>, queues exactly
  those objects, in order and without their lengths.\<close>

theorem server_to_clients:
  assumes "server_reach m ra pw threads sz s"
  shows "\<exists>objs. map snd (filter (\<lambda>(f, b). f = fd) (sent s)) = map obj_bytes objs \<and>
           (\<forall>obj \<in> set objs. tfd obj = fd \<and> msgType obj \<noteq> msgCode MSG_BUTTON) \<and>
           recvMsg (map snd (filter (\<lambda>(f, b). f = fd) (sent s))) q =
             Inr (q\<lparr>rcvBuff := rcvBuff q @ map (\<lambda>obj. obj\<lparr>mlen := 0\<rparr>) objs\<rparr>)"
proof -
  let ?bs = "filter (\<lambda>(f, b). f = fd) (sent s)"
  have "\<exists>obj. (sendable obj \<and> tfd obj = fd) \<and> snd x = obj_bytes obj" if "x \<in> set ?bs" for x
    using server_reach_inv [OF assms] that by (fastforce simp: server_inv_def)
  then obtain f where f: "\<And>x. x \<in> set ?bs \<Longrightarrow> (sendable (f x) \<and> tfd (f x) = fd) \<and> snd x = obj_bytes (f x)"
    by metis
  define objs where "objs = map f ?bs"
  have b: "map snd ?bs = map obj_bytes objs" unfolding objs_def using f by simp
  have o: "\<forall>obj \<in> set objs. sendable obj \<and> tfd obj = fd" using f by (simp add: objs_def)
  then have "recvMsg (map obj_bytes objs) q = Inr (q\<lparr>rcvBuff := rcvBuff q @ map (\<lambda>obj. obj\<lparr>mlen := 0\<rparr>) objs\<rparr>)"
    unfolding recvMsg_def by (intro recv_loop_sized) (auto simp: sendable_def RECV_SIZE_def)
  with o show ?thesis unfolding b by (intro exI [of _ objs]) (auto simp: sendable_def)
qed

theorem server_to_clients_witness:
  "\<exists>(s :: demo_sys) objs. length (map snd (filter (\<lambda>(f, b). f = 9) (sent s))) = 1 \<and>
     recvMsg (map snd (filter (\<lambda>(f, b). f = 9) (sent s))) \<lparr>buff = [], rcvBuff = [], sysBuff = []\<rparr> =
       Inr \<lparr>buff = [], rcvBuff = map (\<lambda>obj. obj\<lparr>mlen := 0\<rparr>) objs, sysBuff = []\<rparr>"
proof -
  obtain s where s: "demo_reach s" "sent s = [(9, obj_bytes (demo_login\<lparr>tid := 5, tfd := 9, msgType := 7\<rparr>))]"
    using demo_sent by blast
  from server_to_clients [OF s(1), of 9 "\<lparr>buff = [], rcvBuff = [], sysBuff = []\<rparr>"] s(2)
  show ?thesis by (intro exI [of _ s]) auto
qed

end
