(* ===== verification/FailedStart.thy ===== *)
theory FailedStart
  imports ServerMain Network
begin

text \<open>
  The server whose start failed: \<open>serverInit\<close> could not read the registry and returned, and
  \<open>main\<close> runs the event loop without workers and without a sender. Messages still become tasks.
\<close>

section \<open>A start that fails\<close>

text \<open>Without workers and sender the event loop still queues tasks.\<close>

definition unserved :: "ServerTask pool \<Rightarrow> bool" where
  "unserved p \<longleftrightarrow> \<not> stop p \<and> workers p = [] \<and> started p = [] \<and> submitted p = tasks p"

lemma unserved_accepts: "accepts p p' \<Longrightarrow> unserved p \<Longrightarrow> unserved p'"
  by (auto simp: accepts_def enqueue_def unserved_def split: if_splits)

lemma unserved_move: "worker_move p p' \<Longrightarrow> unserved p \<Longrightarrow> unserved p'"
  by (erule worker_move_cases) (auto simp: unserved_def)

definition deaf :: "('c, 'db, 'x, 'rd) ServerWorld \<Rightarrow> ('c, 'db, 'row, 'x, 'rd) ServerSys \<Rightarrow> bool" where
  "deaf w s \<longleftrightarrow>
     loop_ok (loop s) \<and> unserved (jobs (loop s)) \<and> at_call s = (\<lambda>_. None) \<and> ssender_at s = Quit \<and>
     sent s = [] \<and> sworld s = w"

lemma server_step_deaf:
  assumes "server_step m ra pw s s'" and inv: "deaf w s"
  shows "deaf w s'"
  using assms(1)
proof (cases rule: server_step_cases)
  case (event e n l)
  have "loop_ok (loop s)" using inv by (simp add: deaf_def)
  with event(2,3) have "loop_ok l" "accepts (jobs (loop s)) (jobs l)"
    using dispatch_event_ok dispatch_event_accepts by blast+
  with inv event(1) unserved_accepts show ?thesis by (auto simp: deaf_def)
next
  case (worker_moves p)
  with inv unserved_move [OF worker_moves(2)] show ?thesis by (simp add: deaf_def)
qed (use inv in \<open>auto simp: deaf_def unserved_def\<close>)

lemma server_steps_deaf: "(server_step m ra pw)\<^sup>*\<^sup>* s s' \<Longrightarrow> deaf w s \<Longrightarrow> deaf w s'"
  by (induction rule: rtranclp_induct) (blast intro: server_step_deaf)+

lemma deaf_start: "deaf (sworld s) s" if "s = (server_start 0 lfd p db k rd)\<lparr>ssender_at := Quit\<rparr>"
proof -
  let ?w = "\<lparr>handlers_map = (\<lambda>_. None), epoll = (\<lambda>_. None), written = [], jobs = pool_init 0\<rparr>"
  have "loop_ok (ServerHandler_new lfd ?w)" by (rule loop_ok_listen) (simp_all add: loop_ok_def)
  moreover have "jobs (ServerHandler_new lfd ?w) = pool_init 0" by (simp add: ServerHandler_new_def addHandler_def)
  ultimately show ?thesis by (simp add: that deaf_def unserved_def server_start_def pool_init_def)
qed

text \<open>Without workers a message still becomes its task, at the end of the queue.\<close>

lemma server_handle_unserved:
  assumes "server_handle (Some obj) fd p = Inr p'" and "unserved p"
  shows "tasks p' = submitted p'"
  using assms
  by (auto simp: server_handle_def g_msgHandle_def unserved_def s_handler_defs enqueue_def Let_def split: if_splits option.splits)

lemma unserved_arrival:
  assumes "unserved (jobs w)" and "connection_open fd w" and "wf_size obj"
  shows "\<exists>l. dispatch_event (arrival fd obj) w = Inr (Inr (0, l)) \<and>
           tasks (jobs l) = tasks (jobs w) @ List.map_filter (owed_task fd) [obj]"
proof -
  have u: "\<not> stop (jobs w)" "submitted (jobs w) = tasks (jobs w)" using assms(1) by (simp_all add: unserved_def)
  obtain p where p: "server_handle (Some (obj\<lparr>mlen := 0\<rparr>)) fd (jobs w) = Inr p"
    "submitted p = submitted (jobs w) @ List.map_filter (owed_task fd) [obj]"
    using server_handle_owed [OF u(1)] by blast
  from arrival_queues [OF assms(3,2) p(1)] obtain l where
    l: "dispatch_event (arrival fd obj) w = Inr (Inr (0, l))" "jobs l = p" by blast
  from server_handle_unserved [OF p(1) assms(1)] p(2) u(2) l show ?thesis by auto
qed

section \<open>Properties\<close>

text \<open>C39: A server that could not read the registry at its start runs on and answers nobody: its event
  loop accepts connections and messages and never ends by an exception; the packet of any object that
  arrives on an open connection puts the task it stands for at the end of the pool's queue; and no
  task is ever taken, nothing is ever sent, and database and registry stay as they were.\<close>

theorem server_without_registry:
  assumes "com_init ra pw k rd = Inr ((False, d), k1, rd1)"
    and "serverInit m ra pw threadPoolSize mysqlPoolSize lfd db k rd = Inr s" and "(server_step m ra pw)\<^sup>*\<^sup>* s s'"
  shows "started (jobs (loop s')) = [] \<and> sent s' = [] \<and> mdb (sworld s') = db \<and> rworld (sworld s') = rd1 \<and>
         (\<forall>e. event_ok (loop s') e \<longrightarrow>
            dispatch_event e (loop s') \<noteq> Inl NullDeref \<and> (\<forall>x. dispatch_event e (loop s') \<noteq> Inr (Inl x))) \<and>
         (\<forall>fd obj. connection_open fd (loop s') \<and> wf_size obj \<longrightarrow>
            (\<exists>l. dispatch_event (arrival fd obj) (loop s') = Inr (Inr (0, l)) \<and>
               tasks (jobs l) = tasks (jobs (loop s')) @ List.map_filter (owed_task fd) [obj]))"
proof -
  have s: "s = (server_start 0 lfd \<lparr>connList = [], curSize = 0, maxSize = 0\<rparr> db k1 rd1)\<lparr>ssender_at := Quit\<rparr>"
    using assms(1,2) by (simp add: serverInit_def Let_def)
  have "mdb (sworld s) = db" "rworld (sworld s) = rd1" by (simp_all add: s server_start_def)
  with server_steps_deaf [OF assms(3) deaf_start [OF s]]
  have d: "loop_ok (loop s')" "unserved (jobs (loop s'))" "sent s' = []" "mdb (sworld s') = db" "rworld (sworld s') = rd1"
    by (simp_all add: deaf_def)
  then show ?thesis
    using dispatch_event_defined dispatch_event_running unserved_arrival by (auto simp: unserved_def)
qed

text \<open>A registry that cannot be reached, and a login that arrives nevertheless.\<close>

definition down_redis :: "(nat, redis_abs) redis" where
  "down_redis = \<lparr>time_now = (\<lambda>_. 100), ctx_connect = (\<lambda>A. (CtxNull, A)), redis_command = mini_command\<rparr>"

definition down_client :: "nat KGRedisClient" where
  "down_client = mini_client\<lparr>conType := REDIS_CON_NORMAL_TYPE\<rparr>"

lemma down_init: "\<exists>d k1. com_init down_redis [] down_client mini_empty = Inr ((False, d), k1, mini_empty)"
  by (simp add: com_init_def flushAllUserHashData_def ExecHgetAll_def ExecuteCmd_spop_def ExecuteCmd_format_buffer
      ExecuteCmd_send_def CreateContext_def down_client_def down_redis_def mini_client_def snprintf_def
      m_maxReconnectInterval_def REDIS_CON_NORMAL_TYPE_def)

theorem server_without_registry_witness:
  "\<exists>(s :: demo_sys) s' l. serverInit demo_mysql down_redis [] 6 4 3 demo_rows down_client mini_empty = Inr s \<and>
     (server_step demo_mysql down_redis [])\<^sup>*\<^sup>* s s' \<and> tasks (jobs (loop s')) = [LogTask demo_login 9] \<and> sent s' = [] \<and>
     dispatch_event (arrival 9 demo_login) (loop s') = Inr (Inr (0, l)) \<and>
     tasks (jobs l) = [LogTask demo_login 9] @ List.map_filter (owed_task 9) [demo_login]"
proof -
  obtain d k1 where i: "com_init down_redis [] down_client mini_empty = Inr ((False, d), k1, mini_empty)"
    using down_init by blast
  define s :: demo_sys where
    "s = (server_start 0 3 \<lparr>connList = [], curSize = 0, maxSize = 0\<rparr> demo_rows k1 mini_empty)\<lparr>ssender_at := Quit\<rparr>"
  have s: "serverInit demo_mysql down_redis [] 6 4 3 demo_rows down_client mini_empty = Inr s"
    using i by (simp add: serverInit_def s_def Let_def)
  obtain l where l: "(server_step demo_mysql down_redis [])\<^sup>*\<^sup>* s (s\<lparr>loop := l\<rparr>)"
    "tasks (jobs l) = [LogTask demo_login 9]" "connection_open 9 l"
    using login_arrives [of s "pool_init 0" demo_mysql down_redis "[]"]
    by (auto simp: s_def server_start_def pool_init_def connection_open_def)
  let ?s = "s\<lparr>loop := l\<rparr>"
  have o: "connection_open 9 (loop ?s) \<and> wf_size demo_login" using l(3) demo_login_fields(3) by simp
  have sent: "sent ?s = []"
    and arrive: "\<forall>fd obj. connection_open fd (loop ?s) \<and> wf_size obj \<longrightarrow>
      (\<exists>l. dispatch_event (arrival fd obj) (loop ?s) = Inr (Inr (0, l)) \<and>
         tasks (jobs l) = tasks (jobs (loop ?s)) @ List.map_filter (owed_task fd) [obj])"
    using server_without_registry [OF i s l(1)] by - (elim conjE, assumption)+
  obtain l' where "dispatch_event (arrival 9 demo_login) (loop ?s) = Inr (Inr (0, l'))"
    "tasks (jobs l') = tasks (jobs (loop ?s)) @ List.map_filter (owed_task 9) [demo_login]"
    using arrive [rule_format, OF o] by blast
  moreover have "tasks (jobs (loop ?s)) = [LogTask demo_login 9]" using l(2) by simp
  ultimately show ?thesis using s l(1) sent by metis
qed

end
