(* ===== verification/Segments.thy ===== *)
theory Segments
  imports Network
begin

text \<open>
  The byte streams between client and server, cut into the pieces that \<^verbatim>\<open>recv\<close> delivers.
  The server's handler treats every piece as a whole message: it parses whatever its buffer
  then holds. A piece that begins with a packet and holds more than its 84 bytes of object is
  parsed as that object; the rest of the packet is zeros, and pieces of zeros are read as
  messages of type 0, which the server ignores. So cutting each packet for itself, behind its
  object, does no harm, on any number of interleaved connections. A cut inside an object does
  (\<open>header_piece_mixes\<close>), and so does a piece that spans two packets (\<open>spanning_piece_loses\<close>).
\<close>

section \<open>Cutting a stream\<close>

text \<open>
  The chunks hand over the rest \<open>cur\<close> of a packet and then the packets \<open>ps\<close>; no chunk holds
  bytes of two packets, and the first one of a packet holds more than its object.
\<close>

fun cut_from :: "bytes \<Rightarrow> bytes list \<Rightarrow> bytes list \<Rightarrow> bool" where
  "cut_from cur ps [] \<longleftrightarrow> cur = [] \<and> ps = []"
| "cut_from cur ps (c # cs) \<longleftrightarrow> c \<noteq> [] \<and>
     (if cur \<noteq> [] then c = take (length c) cur \<and> cut_from (drop (length c) cur) ps cs
      else (case ps of
              [] \<Rightarrow> False
            | p # ps' \<Rightarrow> sizeof_TransObj < length c \<and> c = take (length c) p \<and>
                         cut_from (drop (length c) p) ps' cs))"

text \<open>The chunks of one connection among those of all.\<close>

definition on_conn :: "s32 \<Rightarrow> (s32 \<times> 'a) list \<Rightarrow> 'a list" where
  "on_conn fd xs = map snd (filter (\<lambda>(f, _). f = fd) xs)"

lemma on_conn_simps [simp]:
  "on_conn fd [] = []"
  "on_conn fd ((f, x) # xs) = (if f = fd then x # on_conn fd xs else on_conn fd xs)"
  by (simp_all add: on_conn_def)

text \<open>Cutting loses and adds nothing.\<close>

lemma cut_from_concat: "cut_from cur ps cs \<Longrightarrow> concat cs = cur @ concat ps"
proof (induction cur ps cs rule: cut_from.induct)
  case (2 cur ps c cs)
  show ?case
  proof (cases "cur = []")
    case True
    then obtain p ps' where ps: "ps = p # ps'" "c = take (length c) p" "cut_from (drop (length c) p) ps' cs"
      using "2.prems" by (auto split: list.splits)
    have "concat cs = drop (length c) p @ concat ps'"
      using "2.IH"(2) [OF _ ps(1) ps(3)] True by simp
    with ps(2) show ?thesis using append_take_drop_id [of "length c" p] by (simp add: True ps(1))
  next
    case False
    then have c: "c = take (length c) cur" "cut_from (drop (length c) cur) ps cs" using "2.prems" by auto
    with "2.IH"(1) False have "concat cs = drop (length c) cur @ concat ps" by simp
    with c(1) show ?thesis using append_take_drop_id [of "length c" cur] by simp
  qed
qed simp

section \<open>The handler's buffer\<close>

text \<open>A buffer that pieces of zeros turn into messages of type 0.\<close>

definition settled :: "bytes \<Rightarrow> bool" where
  "settled b \<longleftrightarrow> length b = BUFFER_SIZE \<and> b ! 1 = NUL \<and> b ! 2 = NUL \<and> b ! 3 = NUL \<and> NUL \<in> set (drop 84 b)"

lemma transBuff2Obj_type:
  assumes "NUL \<in> set (drop 20 b)"
  shows "\<exists>obj. transBuff2Obj (Some b) TransObj_default = Inr (True, obj) \<and> msgType obj = rd32 b"
proof -
  have "msgType (snd (setMsg s o4)) = msgType o4" for s o4
    by (metis setMsg_frame TransObj.simps(1) TransObj.select_convs(1) TransObj.surjective TransObj.update_convs(6))
  with assms show ?thesis
    by (simp add: transBuff2Obj_def Let_def read_cstr_def split_beta setter_defs cast_obj_def)
qed

lemma zeros_over:
  assumes "settled b" and "0 < n" and "n \<le> BUFFER_SIZE"
  shows "settled (store_at 0 (replicate n NUL) b)" "rd32 (store_at 0 (replicate n NUL) b) = 0"
    "NUL \<in> set (drop 20 (store_at 0 (replicate n NUL) b))"
proof -
  let ?b = "replicate n NUL @ drop n b"
  have l: "length b = 512" using assms(1) by (simp add: settled_def BUFFER_SIZE_def)
  have e: "store_at 0 (replicate n NUL) b = ?b" using assms(3) l by (simp add: store_at_0 BUFFER_SIZE_def)
  have i: "?b ! i = NUL" if "i < n \<or> b ! i = NUL" "i < 512" for i
    using that l by (cases "i < n") (auto simp: nth_append)
  have nul: "NUL \<in> set (drop 84 ?b)"
  proof (cases "n \<le> 84")
    case True
    then show ?thesis using assms(1) by (simp add: settled_def)
  next
    case False
    then show ?thesis by simp
  qed
  then show "settled (store_at 0 (replicate n NUL) b)"
    unfolding e using assms(1,3) i l by (auto simp: settled_def BUFFER_SIZE_def)
  show "rd32 (store_at 0 (replicate n NUL) b) = 0"
    unfolding e using assms(1,2) i [of 0] i [of 1] i [of 2] i [of 3] by (simp add: rd32_def settled_def NUL_def)
  have "set (drop 84 ?b) \<subseteq> set (drop 20 ?b)" by (rule set_drop_subset_set_drop) simp
  with nul show "NUL \<in> set (drop 20 (store_at 0 (replicate n NUL) b))" unfolding e by blast
qed

lemma first_piece:
  assumes "wf_size obj" and "msgType obj < msgCode MSG_BUTTON" and "length b = BUFFER_SIZE"
    and "84 < n" and "n \<le> BUFFER_SIZE"
  shows "settled (store_at 0 (take n (packet obj)) b)"
    "transBuff2Obj (Some (store_at 0 (take n (packet obj)) b)) TransObj_default = Inr (True, obj\<lparr>mlen := 0\<rparr>)"
proof -
  let ?r = "replicate (n - 84) NUL @ drop n b"
  have lo: "length (obj_bytes obj) = 84" using assms(1) by (simp add: length_obj_bytes sizeof_TransObj_def)
  have e: "store_at 0 (take n (packet obj)) b = obj_bytes obj @ ?r"
    using assms lo by (simp add: store_at_0 packet_bytes BUFFER_SIZE_def)
  have "NUL \<in> set (replicate (n - 84) NUL)" using assms(4) by simp
  then have r: "NUL \<in> set ?r" by simp
  show "transBuff2Obj (Some (store_at 0 (take n (packet obj)) b)) TransObj_default = Inr (True, obj\<lparr>mlen := 0\<rparr>)"
    unfolding e using assms(1) r by (intro transBuff2Obj_default) simp_all
  have "unat (msgType obj) < 14" using assms(2) by (simp add: word_less_nat_alt)
  then have "le32 (msgType obj) = [char_of (unat (msgType obj)), NUL, NUL, NUL]"
    by (simp add: le32_def NUL_def char_of_def)
  then have "(obj_bytes obj @ ?r) ! i = NUL" if "i \<in> {1, 2, 3}" for i
    using that by (auto simp: obj_bytes_def)
  moreover have "length (obj_bytes obj @ ?r) = BUFFER_SIZE" using lo assms(3-5) by (simp add: BUFFER_SIZE_def)
  ultimately show "settled (store_at 0 (take n (packet obj)) b)"
    unfolding e settled_def using r lo by auto
qed

section \<open>Pieces of many packets on many connections\<close>

text \<open>A connection between two pieces: \<open>cur\<close>, all zeros, is what is still to come of a packet.\<close>

definition mid_packet :: "EpollWorld \<Rightarrow> s32 \<Rightarrow> bytes \<Rightarrow> bool" where
  "mid_packet w fd cur \<longleftrightarrow>
     (\<exists>h. handlers_map w fd = Some (Some (Echo h)) \<and> length (ebuffer h) = BUFFER_SIZE \<and>
        (cur \<noteq> [] \<longrightarrow> cur = replicate (length cur) NUL \<and> length cur \<le> BUFFER_SIZE \<and> settled (ebuffer h)))"

lemma mid_packet_other:
  "\<forall>f. f \<noteq> fd \<longrightarrow> handlers_map w' f = handlers_map w f \<Longrightarrow> f \<noteq> fd \<Longrightarrow> mid_packet w f cur \<Longrightarrow> mid_packet w' f cur"
  by (simp add: mid_packet_def)

text \<open>One more piece of a packet whose object has arrived changes nothing.\<close>

lemma piece_of_rest:
  assumes "mid_packet w fd cur" and "cur \<noteq> []" and "c \<noteq> []" and "c = take (length c) cur"
  shows "\<exists>w'. dispatch_event (chunk_event fd c) w = Inr (Inr (0, w')) \<and> jobs w' = jobs w \<and>
     mid_packet w' fd (drop (length c) cur) \<and> (\<forall>f cur. f \<noteq> fd \<longrightarrow> mid_packet w f cur \<longrightarrow> mid_packet w' f cur)"
proof -
  obtain h where h: "handlers_map w fd = Some (Some (Echo h))" "cur = replicate (length cur) NUL"
    "length cur \<le> BUFFER_SIZE" "settled (ebuffer h)"
    using assms(1,2) by (auto simp: mid_packet_def)
  have n: "length c \<le> length cur" "0 < length c" using assms(3,4) by (metis length_take min.cobounded1, simp)
  have c: "c = replicate (length c) NUL" using assms(4) h(2) n(1) by (metis min.absorb1 take_replicate)
  note z = zeros_over [OF h(4) n(2), folded c]
  have s: "settled (store_at 0 c (ebuffer h))" "rd32 (store_at 0 c (ebuffer h)) = 0"
    "NUL \<in> set (drop 20 (store_at 0 c (ebuffer h)))"
    using z n(1) h(3) by simp_all
  obtain obj where obj: "transBuff2Obj (Some (store_at 0 c (ebuffer h))) TransObj_default = Inr (True, obj)"
    "msgType obj = 0"
    using transBuff2Obj_type [OF s(3)] s(2) by auto
  have "server_handle (Some obj) fd (jobs w) = Inr (jobs w)" by (simp add: server_handle_def obj(2))
  from echo_chunk [OF h(1) obj(1) this, of "chunk_event fd c"] obtain w' h' where w':
    "dispatch_event (chunk_event fd c) w = Inr (Inr (0, w'))" "jobs w' = jobs w"
    "\<forall>f. f \<noteq> fd \<longrightarrow> handlers_map w' f = handlers_map w f"
    "handlers_map w' fd = Some (Some (Echo h'))" "ebuffer h' = store_at 0 c (ebuffer h)"
    by (auto simp: chunk_event_def)
  have "drop (length c) cur = replicate (length (drop (length c) cur)) NUL"
    using h(2) by (metis drop_replicate length_drop)
  then have "mid_packet w' fd (drop (length c) cur)"
    using w'(4,5) s(1) h(3) by (auto simp: mid_packet_def settled_def)
  with w' mid_packet_other [OF w'(3)] show ?thesis by blast
qed

text \<open>The first piece of a packet hands its message over.\<close>

lemma piece_with_object:
  assumes "mid_packet w fd []" and "wf_size obj" and "msgType obj < msgCode MSG_BUTTON" and "\<not> stop (jobs w)"
    and "84 < length c" and "c = take (length c) (packet obj)"
  shows "\<exists>w'. dispatch_event (chunk_event fd c) w = Inr (Inr (0, w')) \<and> \<not> stop (jobs w') \<and>
     submitted (jobs w') = submitted (jobs w) @ List.map_filter (owed_task fd) [obj] \<and>
     mid_packet w' fd (drop (length c) (packet obj)) \<and>
     (\<forall>f cur. f \<noteq> fd \<longrightarrow> mid_packet w f cur \<longrightarrow> mid_packet w' f cur)"
proof -
  obtain h where h: "handlers_map w fd = Some (Some (Echo h))" "length (ebuffer h) = BUFFER_SIZE"
    using assms(1) by (auto simp: mid_packet_def)
  have n: "length c \<le> BUFFER_SIZE"
    using assms(6) length_packet [OF assms(2)] by (metis BUFFER_SIZE_def length_take min.cobounded1)
  note f = first_piece [OF assms(2,3) h(2) assms(5) n, folded assms(6)]
  obtain p' where p': "server_handle (Some (obj\<lparr>mlen := 0\<rparr>)) fd (jobs w) = Inr p'" "\<not> stop p'"
    "submitted p' = submitted (jobs w) @ List.map_filter (owed_task fd) [obj]"
    using server_handle_owed [OF assms(4)] by blast
  from echo_chunk [OF h(1) f(2) p'(1), of "chunk_event fd c"] obtain w' h' where w':
    "dispatch_event (chunk_event fd c) w = Inr (Inr (0, w'))" "jobs w' = p'"
    "\<forall>f. f \<noteq> fd \<longrightarrow> handlers_map w' f = handlers_map w f"
    "handlers_map w' fd = Some (Some (Echo h'))" "ebuffer h' = store_at 0 c (ebuffer h)"
    by (auto simp: chunk_event_def)
  have "drop (length c) (packet obj) = replicate (512 - length c) NUL"
    using assms(2,5) by (simp add: packet_bytes length_obj_bytes sizeof_TransObj_def)
  then have "mid_packet w' fd (drop (length c) (packet obj))"
    using w'(4,5) f(1) by (auto simp: mid_packet_def settled_def BUFFER_SIZE_def)
  with w' p' mid_packet_other [OF w'(3)] show ?thesis by blast
qed

text \<open>
  All pieces: \<open>ms\<close> are the messages in the order in which their first pieces arrive; those of
  one connection are the packets of its stream.
\<close>

lemma pieces_queue:
  assumes "\<And>fd. cut_from (cur fd) (ps fd) (on_conn fd es)" and "\<And>fd. fd \<in> fst ` set es \<Longrightarrow> mid_packet w fd (cur fd)"
    and "\<And>fd p. p \<in> set (ps fd) \<Longrightarrow> \<exists>obj. wf_size obj \<and> msgType obj < msgCode MSG_BUTTON \<and> p = packet obj"
    and "\<not> stop (jobs w)"
  shows "\<exists>ms w'. dispatch_all (map (\<lambda>(fd, c). chunk_event fd c) es) w = Inr (Inr w') \<and>
     (\<forall>fd. map packet (on_conn fd ms) = ps fd) \<and> (\<forall>(fd, obj) \<in> set ms. wf_size obj) \<and>
     submitted (jobs w') = submitted (jobs w) @ List.map_filter (\<lambda>(fd, obj). owed_task fd obj) ms"
  using assms
proof (induction es arbitrary: cur ps w)
  case Nil
  then show ?case by (intro exI [of _ "[]"] exI [of _ w]) simp
next
  case (Cons e es)
  obtain fd c where e: "e = (fd, c)" by (cases e)
  have cut: "cut_from (cur fd) (ps fd) (c # on_conn fd es)" using Cons.prems(1) [of fd] by (simp add: e)
  have mid: "mid_packet w fd (cur fd)" using Cons.prems(2) [of fd] by (simp add: e)
  have others: "cut_from (cur f) (ps f) (on_conn f es)" if "f \<noteq> fd" for f
    using Cons.prems(1) [of f] that by (simp add: e)
  show ?case
  proof (cases "cur fd = []")
    case False
    with cut have c: "c \<noteq> []" "c = take (length c) (cur fd)" "cut_from (drop (length c) (cur fd)) (ps fd) (on_conn fd es)"
      by auto
    obtain w1 where w1: "dispatch_event (chunk_event fd c) w = Inr (Inr (0, w1))" "jobs w1 = jobs w"
      "mid_packet w1 fd (drop (length c) (cur fd))" "\<And>f cur. f \<noteq> fd \<Longrightarrow> mid_packet w f cur \<Longrightarrow> mid_packet w1 f cur"
      using piece_of_rest [OF mid False c(1,2)] by blast
    let ?cur = "cur(fd := drop (length c) (cur fd))"
    have "mid_packet w1 f (?cur f)" if "f \<in> fst ` set es" for f
      using w1(3,4) Cons.prems(2) [of f] that by (cases "f = fd") auto
    moreover have "cut_from (?cur f) (ps f) (on_conn f es)" for f using c(3) others by simp
    ultimately show ?thesis
      using Cons.IH [of ?cur ps w1] Cons.prems(3,4) w1(1,2) by (simp add: e)
  next
    case True
    with cut obtain p ps' where c: "ps fd = p # ps'" "84 < length c" "c = take (length c) p"
      "cut_from (drop (length c) p) ps' (on_conn fd es)"
      by (auto simp: sizeof_TransObj_def split: list.splits)
    obtain obj where obj: "wf_size obj" "msgType obj < msgCode MSG_BUTTON" "p = packet obj"
      using Cons.prems(3) [of p fd] c(1) by auto
    obtain w1 where w1: "dispatch_event (chunk_event fd c) w = Inr (Inr (0, w1))" "\<not> stop (jobs w1)"
      "submitted (jobs w1) = submitted (jobs w) @ List.map_filter (owed_task fd) [obj]"
      "mid_packet w1 fd (drop (length c) p)" "\<And>f cur. f \<noteq> fd \<Longrightarrow> mid_packet w f cur \<Longrightarrow> mid_packet w1 f cur"
      using piece_with_object [of w fd obj c] mid True obj Cons.prems(4) c(2,3) by auto
    let ?cur = "cur(fd := drop (length c) p)" and ?ps = "ps(fd := ps')"
    have "mid_packet w1 f (?cur f)" if "f \<in> fst ` set es" for f
      using w1(4,5) Cons.prems(2) [of f] that by (cases "f = fd") auto
    moreover have "cut_from (?cur f) (?ps f) (on_conn f es)" for f using c(4) others by simp
    moreover have "\<exists>obj. wf_size obj \<and> msgType obj < msgCode MSG_BUTTON \<and> p = packet obj" if "p \<in> set (?ps f)" for f p
      using that Cons.prems(3) [of p f] c(1) by (auto split: if_splits)
    ultimately obtain ms w' where ms: "dispatch_all (map (\<lambda>(fd, c). chunk_event fd c) es) w1 = Inr (Inr w')"
      "\<And>f. map packet (on_conn f ms) = ?ps f" "\<forall>(fd, obj) \<in> set ms. wf_size obj"
      "submitted (jobs w') = submitted (jobs w1) @ List.map_filter (\<lambda>(fd, obj). owed_task fd obj) ms"
      using Cons.IH [of ?cur ?ps w1] w1(2) by blast
    have "map packet (on_conn f ((fd, obj) # ms)) = ps f" for f using ms(2) [of f] c(1) obj(3) by auto
    with ms(1,3,4) w1(1,3) obj(1) show ?thesis
      by (intro exI [of _ "(fd, obj) # ms"] exI [of _ w']) (auto simp: e split: option.splits)
  qed
qed

text \<open>
  A cut inside the object: the header of a message alone, on a connection that has had a
  message before, is handled at once, with the earlier message's text.
\<close>

lemma header_piece_mixes:
  assumes "handlers_map w fd = Some (Some (Echo h))" and "ebuffer h = packet old"
    and "wf_size old" "wf_size obj" and "\<not> stop (jobs w)"
  shows "\<exists>w'. dispatch_event (chunk_event fd (take 20 (packet obj))) w = Inr (Inr (0, w')) \<and>
     submitted (jobs w') = submitted (jobs w) @ List.map_filter (owed_task fd) [obj\<lparr>msg := msg old\<rparr>]"
proof -
  let ?new = "obj\<lparr>msg := msg old\<rparr>"
  have wf: "wf_size ?new" using assms(3) by (simp add: wf_size_def)
  have "store_at 0 (take 20 (packet obj)) (ebuffer h) = obj_bytes ?new @ replicate 428 NUL"
    using assms(2-4) by (simp add: store_at_0 packet_bytes obj_bytes_def length_obj_bytes wf_size_def)
  then have t: "transBuff2Obj (Some (store_at 0 (take 20 (packet obj)) (ebuffer h))) TransObj_default = Inr (True, ?new\<lparr>mlen := 0\<rparr>)"
    using transBuff2Obj_default [OF wf, of "replicate 428 NUL"] by simp
  obtain p' where p': "server_handle (Some (?new\<lparr>mlen := 0\<rparr>)) fd (jobs w) = Inr p'"
    "submitted p' = submitted (jobs w) @ List.map_filter (owed_task fd) [?new]"
    using server_handle_owed [OF assms(5)] by blast
  from echo_chunk [OF assms(1) t p'(1), of "chunk_event fd (take 20 (packet obj))"] p'(2) show ?thesis
    by (auto simp: chunk_event_def)
qed

text \<open>Zeros in front of anything make a message of type 0.\<close>

lemma zeros_piece_ignored:
  assumes "handlers_map w fd = Some (Some (Echo h))" and "length (ebuffer h) = BUFFER_SIZE"
    and "84 < n" and "n + length x = BUFFER_SIZE"
  shows "\<exists>w' h'. dispatch_event (chunk_event fd (replicate n NUL @ x)) w = Inr (Inr (0, w')) \<and> jobs w' = jobs w \<and>
     handlers_map w' fd = Some (Some (Echo h')) \<and> settled (ebuffer h')"
proof -
  let ?c = "replicate n NUL @ x"
  have b: "store_at 0 ?c (ebuffer h) = ?c" using assms(2,4) by (simp add: store_at_0)
  obtain obj where obj: "transBuff2Obj (Some ?c) TransObj_default = Inr (True, obj)" "msgType obj = 0"
    using transBuff2Obj_type [of ?c] assms(3) by (force simp: rd32_def nth_append NUL_def)
  have t: "transBuff2Obj (Some (store_at 0 ?c (ebuffer h))) TransObj_default = Inr (True, obj)"
    using obj(1) by (simp add: b)
  have h: "server_handle (Some obj) fd (jobs w) = Inr (jobs w)" by (simp add: server_handle_def obj(2))
  have "settled ?c" using assms(3,4) by (simp add: settled_def nth_append)
  with echo_chunk [OF assms(1) t h, of "chunk_event fd ?c"] show ?thesis by (auto simp: chunk_event_def b)
qed

lemma one_login_owed:
  assumes "\<And>fd. map packet (on_conn fd ms) =
      (if fd = 9 then [packet (credentials TransObj_default MSG_LOGIN ''bob'' ''secret'')] else [])"
    and "\<forall>(fd, obj) \<in> set ms. wf_size obj"
  shows "List.map_filter (\<lambda>(fd, obj). owed_task fd obj) ms =
     [LogTask ((credentials TransObj_default MSG_LOGIN ''bob'' ''secret'')\<lparr>mlen := 0\<rparr>) 9]"
proof -
  let ?p = "packet (credentials TransObj_default MSG_LOGIN ''bob'' ''secret'')"
  have "on_conn f ms = []" if "f \<noteq> 9" for f using assms(1) [of f] that by simp
  then have nine: "fst x = 9" if "x \<in> set ms" for x using that by (force simp: on_conn_def filter_empty_conv)
  then have "map snd ms = on_conn 9 ms" unfolding on_conn_def by (metis (mono_tags, lifting) case_prod_beta filter_True)
  with assms(1) [of 9] have "map packet (map snd ms) = [?p]" by simp
  with nine obtain obj where obj: "ms = [(9, obj)]" "packet obj = ?p" by (cases ms) auto
  then show ?thesis
    using login_packet_owed [OF obj(2) _ wf_obj_size [OF wf_obj_default]] assms(2) by simp
qed

section \<open>Properties\<close>

text \<open>C5: From the clients to the server, over byte streams. Any number of clients send what their
  threads send in runs without a race for the player's data; the pieces of different connections
  arrive interleaved in any way. As long as every piece belongs to one packet, none holding bytes
  of two, and the first piece of each packet holds more than the 84 bytes of its object, the event
  loop handles every piece, and the thread pool is given exactly the tasks that the messages of
  each client stand for, none lost, doubled or overtaken, in the order in which their first pieces
  arrive.\<close>

theorem streams_to_server:
  assumes "\<And>fd. cut_from [] (ps fd) (on_conn fd es)"
    and "\<And>fd. fd \<in> fst ` set es \<Longrightarrow> connection_open fd w \<and> calm_reach split oa (client fd)"
    and "\<And>fd. \<exists>later. outbox (client fd) = ps fd @ later" and "\<not> stop (jobs w)"
  shows "\<exists>ms w'. dispatch_all (map (\<lambda>(fd, c). chunk_event fd c) es) w = Inr (Inr w') \<and>
     (\<forall>fd. map packet (on_conn fd ms) = ps fd) \<and> (\<forall>(fd, obj) \<in> set ms. wf_size obj) \<and>
     submitted (jobs w') = submitted (jobs w) @ List.map_filter (\<lambda>(fd, obj). owed_task fd obj) ms"
proof (rule pieces_queue)
  show "cut_from ((\<lambda>_. []) fd) (ps fd) (on_conn fd es)" for fd using assms(1) .
  show "mid_packet w fd []" if "fd \<in> fst ` set es" for fd
    using assms(2) [OF that] by (auto simp: mid_packet_def connection_open_def)
  show "\<exists>obj. wf_size obj \<and> msgType obj < msgCode MSG_BUTTON \<and> p = packet obj" if p: "p \<in> set (ps fd)" for fd p
  proof -
    have "fd \<in> fst ` set es"
    proof (rule ccontr)
      assume "fd \<notin> fst ` set es"
      then have "on_conn fd es = []" by (force simp: on_conn_def filter_empty_conv)
      with assms(1) [of fd] p show False by simp
    qed
    with assms(2) have "system_inv (client fd)" using client_reach_inv calm_reach_client by blast
    moreover have "p \<in> set (outbox (client fd))" using assms(3) [of fd] p by auto
    ultimately show ?thesis by (auto simp: system_inv_def)
  qed
  show "\<not> stop (jobs w)" using assms(4) .
qed

theorem streams_to_server_witness:
  "\<exists>w'. dispatch_all
       (map (\<lambda>(fd, c). chunk_event fd c)
          [(9, take 100 (packet (credentials TransObj_default MSG_LOGIN ''bob'' ''secret''))),
           (9, drop 100 (packet (credentials TransObj_default MSG_LOGIN ''bob'' ''secret'')))]) one_connection =
       Inr (Inr w') \<and>
     submitted (jobs w') = [LogTask ((credentials TransObj_default MSG_LOGIN ''bob'' ''secret'')\<lparr>mlen := 0\<rparr>) 9]"
proof -
  let ?c = "credentials TransObj_default MSG_LOGIN ''bob'' ''secret''"
  let ?p = "packet ?c" and ?ps = "\<lambda>fd :: s32. if fd = 9 then [packet ?c] else []"
  let ?es = "[(9 :: s32, take 100 ?p), (9, drop 100 ?p)]"
  have wf: "wf_size ?c" by (intro credentials_wf wf_obj_size wf_obj_default) simp_all
  have l: "length ?p = 512" using length_packet [OF wf] .
  obtain s where s: "calm_reach split_ref demo_oa s" "outbox s = [?p]"
    using sent_client calm_reach_steps typing_client_calm by blast
  have cut: "cut_from [] (?ps fd) (on_conn fd ?es)" for fd
    using l by (auto simp: sizeof_TransObj_def)
  have conn: "connection_open fd one_connection \<and> calm_reach split_ref demo_oa s" if "fd \<in> fst ` set ?es" for fd
    using that one_connection_open(1) s(1) by auto
  have "\<exists>later. outbox s = ?ps fd @ later" for fd by (simp add: s(2))
  from streams_to_server [OF cut conn this one_connection_open(2)]
  obtain ms w' where m: "dispatch_all (map (\<lambda>(fd, c). chunk_event fd c) ?es) one_connection = Inr (Inr w')"
    "\<And>fd. map packet (on_conn fd ms) = ?ps fd" "\<forall>(fd, obj) \<in> set ms. wf_size obj"
    "submitted (jobs w') = submitted (jobs one_connection) @ List.map_filter (\<lambda>(fd, obj). owed_task fd obj) ms"
    by blast
  from one_login_owed [OF m(2,3)]
  have "List.map_filter (\<lambda>(fd, obj). owed_task fd obj) ms = [LogTask (?c\<lparr>mlen := 0\<rparr>) 9]" .
  with m(1,4) show ?thesis
    by (intro exI [of _ w']) (simp del: dispatch_all.simps add: one_connection_def addHandler_def ServerHandler_new_def empty_loop_def pool_init_def)
qed

text \<open>C33: A piece that spans two packets loses a message. Two packets sent one after the other on an open
  connection, received as a piece behind the first object, a piece with the rest of the first packet
  and the object of the second, and the rest, are handled without an error, but only the first
  message becomes a task.\<close>

theorem spanning_piece_loses:
  assumes "connection_open fd w" and "\<not> stop (jobs w)"
    and "wf_size a" "msgType a < msgCode MSG_BUTTON" and "wf_size b" "msgType b < msgCode MSG_BUTTON"
  shows "\<exists>w'. dispatch_all (map (chunk_event fd)
             [take 100 (packet a), drop 100 (packet a) @ take 100 (packet b), drop 100 (packet b)]) w = Inr (Inr w') \<and>
           submitted (jobs w') = submitted (jobs w) @ List.map_filter (owed_task fd) [a]"
proof -
  have l: "length (packet a) = 512" "length (packet b) = 512" using length_packet assms(3,5) by simp_all
  have z: "drop 100 (packet c) = replicate 412 NUL" if "wf_size c" for c
    using that by (simp add: packet_bytes length_obj_bytes sizeof_TransObj_def)
  have "mid_packet w fd []" using assms(1) by (auto simp: mid_packet_def connection_open_def)
  from piece_with_object [OF this assms(3,4,2), of "take 100 (packet a)"] l obtain w1 where
    w1: "dispatch_event (chunk_event fd (take 100 (packet a))) w = Inr (Inr (0, w1))"
    "submitted (jobs w1) = submitted (jobs w) @ List.map_filter (owed_task fd) [a]" "\<exists>cur. mid_packet w1 fd cur"
    by fastforce
  then obtain h1 where h1: "handlers_map w1 fd = Some (Some (Echo h1))" "length (ebuffer h1) = BUFFER_SIZE"
    by (auto simp: mid_packet_def)
  obtain w2 h2 where
    w2: "dispatch_event (chunk_event fd (drop 100 (packet a) @ take 100 (packet b))) w1 = Inr (Inr (0, w2))" "jobs w2 = jobs w1"
    and h2: "handlers_map w2 fd = Some (Some (Echo h2))" "settled (ebuffer h2)"
    using zeros_piece_ignored [OF h1, of 412 "take 100 (packet b)"] l z [OF assms(3)] by (auto simp: BUFFER_SIZE_def)
  have "length (ebuffer h2) = BUFFER_SIZE" using h2(2) by (simp add: settled_def)
  with h2 have "mid_packet w2 fd (drop 100 (packet b))"
    by (simp add: mid_packet_def z [OF assms(5)] BUFFER_SIZE_def)
  from piece_of_rest [OF this _ _, of "drop 100 (packet b)"] l obtain w3 where
    "dispatch_event (chunk_event fd (drop 100 (packet b))) w2 = Inr (Inr (0, w3))" "jobs w3 = jobs w2"
    by auto
  with w1 w2 show ?thesis by (intro exI [of _ w3]) simp
qed

theorem spanning_piece_loses_witness:
  "\<exists>w'. dispatch_all (map (chunk_event 9)
       [take 100 (packet (credentials TransObj_default MSG_LOGIN ''bob'' ''secret'')),
        drop 100 (packet (credentials TransObj_default MSG_LOGIN ''bob'' ''secret'')) @
          take 100 (packet (credentials TransObj_default MSG_LOGIN ''eve'' ''secret'')),
        drop 100 (packet (credentials TransObj_default MSG_LOGIN ''eve'' ''secret''))]) one_connection = Inr (Inr w') \<and>
     submitted (jobs w') = [LogTask ((credentials TransObj_default MSG_LOGIN ''bob'' ''secret'')\<lparr>mlen := 0\<rparr>) 9]"
proof -
  let ?c = "\<lambda>n. credentials TransObj_default MSG_LOGIN n ''secret''"
  have wf: "wf_size (?c ''bob'')" "wf_size (?c ''eve'')" by (intro credentials_wf wf_obj_size wf_obj_default; simp)+
  have ty: "msgType (?c n) < msgCode MSG_BUTTON" for n by (simp add: credentials_def TransObj_all_def)
  have "List.map_filter (owed_task 9) [?c ''bob''] = [LogTask ((?c ''bob'')\<lparr>mlen := 0\<rparr>) 9]"
    by (simp add: owed_task_def credentials_def TransObj_all_def)
  with spanning_piece_loses [OF one_connection_open wf(1) ty wf(2) ty] show ?thesis
    by (simp del: dispatch_all.simps add: one_connection_def addHandler_def ServerHandler_new_def empty_loop_def pool_init_def)
qed

end
