(* ===== verification/SoundClients.thy ===== *)
theory SoundClients
  imports Segments ServerServes
begin

text \<open>
  What the server relies on (\<open>good_task\<close>), its clients guarantee: as long as the users type
  lines without quotes, backslashes and percent signs, every message any client sends stands for
  a sound task.
\<close>

section \<open>Plain lines\<close>

definition plain :: "string \<Rightarrow> bool" where
  "plain s \<longleftrightarrow> set s \<inter> {CHR 0x27, CHR 0x5C, CHR ''%'', NUL} = {}"

lemma plainD:
  assumes "plain s"
  shows "CHR 0x27 \<notin> set s" "CHR 0x5C \<notin> set s" "percent_free s" "NUL \<notin> set s" "cstr s = s"
  using assms by (auto simp: plain_def percent_free_def intro: cstr_id)

lemma plain_subset: "set t \<subseteq> set s \<Longrightarrow> plain s \<Longrightarrow> plain t"
  by (auto simp: plain_def)

lemma split_char_subset: "t \<in> set (split_char c s) \<Longrightarrow> set t \<subseteq> set s"
proof (induction c s arbitrary: t rule: split_char.induct)
  case (2 c x xs)
  then show ?case by (fastforce split: if_splits list.splits)
qed simp

lemma splitStr_subset: "boost_split_ok split \<Longrightarrow> t \<in> set (splitStr split s [c]) \<Longrightarrow> set t \<subseteq> set s"
  by (simp add: splitStr_def boost_split_unique split_char_subset)

section \<open>Sound messages\<close>

definition sound_obj :: "TransObj \<Rightarrow> bool" where
  "sound_obj obj \<longleftrightarrow> (\<forall>fd t. owed_task fd obj = Some t \<longrightarrow> good_task t)"

lemma sound_obj_mlen: "a\<lparr>mlen := 0\<rparr> = b\<lparr>mlen := 0\<rparr> \<Longrightarrow> sound_obj a \<longleftrightarrow> sound_obj b"
proof -
  assume e: "a\<lparr>mlen := 0\<rparr> = b\<lparr>mlen := 0\<rparr>"
  then have t: "msgType a = msgType b" by (metis TransObj.select_convs(1) TransObj.surjective TransObj.update_convs(2))
  have "owed_task fd a = owed_task fd b" for fd unfolding owed_task_def e t ..
  then show ?thesis by (simp add: sound_obj_def)
qed

lemma sound_quiet:
  "msgType obj \<in> msgCode ` {MSG_CMD, MSG_TALK, MSG_LOGOUT, MSG_ASK_FOR_FRIEND_ACCEPT} \<Longrightarrow> sound_obj obj"
  by (auto simp: sound_obj_def owed_task_def Let_def split: if_splits)

lemma sound_named:
  assumes "msgType obj = msgCode MSG_ASK_FOR_FRIEND" and "msg obj = name @ replicate (64 - length name) NUL"
    and "plain name" "length name < 24"
  shows "sound_obj obj"
proof -
  have "NUL \<in> set (msg obj)" "cstr (msg obj) = name"
    using assms(2-4) by (simp_all add: cstr_append_zeros plainD)
  with assms(1,3,4) show ?thesis
    by (auto simp: sound_obj_def owed_task_def Let_def sql_word_def plainD split: if_splits)
qed

lemma sound_credentials_msg:
  assumes "t = MSG_LOGIN \<or> t = MSG_REG" and "plain name" "plain pw" "length name < 24" "length pw < 40"
  shows "sound_obj (credentials g t name pw)"
proof -
  let ?c = "credentials g t name pw"
  have "getName ?c = Inr name" "getPasswd ?c = Inr pw"
    using assms by (simp_all add: getName_credentials getPasswd_credentials plainD)
  then have "NUL \<in> set (drop 24 (msg ?c))" "cstr (msg ?c) = name"
    by (auto simp: getName_def getPasswd_def read_cstr_def NAME_MAX_LEN_def split: if_splits)
  moreover have "msgType ?c = msgCode t" by (simp add: credentials_def TransObj_all_def)
  ultimately show ?thesis
    using assms by (auto simp: sound_obj_def owed_task_def Let_def sql_word_def plainD split: if_splits)
qed

lemma typed_credentials:
  assumes "boost_split_ok split" and "wf_size g" and "plain input" and "splitInputStr2NameAndPwd split input = (True, res)"
    and "setNamePasswd (res ! 0) (res ! 1) (TransObj_all g (-1) (-1) (msgCode t) (of_nat MAX_TRANS_MSG_LEN) (-1)) = Inr (ok, obj)"
    and "t = MSG_LOGIN \<or> t = MSG_REG"
  shows "sound_obj obj"
proof -
  have res: "res = splitStr split input ''|''" "length res = 2" "length (res ! 0) < 24" "length (res ! 1) < 40"
    using assms(4) by (auto simp: splitInputStr2NameAndPwd_def Let_def max_len_defs split: if_splits)
  have p: "plain (res ! 0)" "plain (res ! 1)"
    using res(1,2) splitStr_subset [OF assms(1), of "res ! 0" input "CHR ''|''"]
      splitStr_subset [OF assms(1), of "res ! 1" input "CHR ''|''"] plain_subset [OF _ assms(3)] nth_mem by simp_all
  have "obj = credentials g t (res ! 0) (res ! 1)"
    using setNamePasswd_stores [of "TransObj_all g (-1) (-1) (msgCode t) (of_nat MAX_TRANS_MSG_LEN) (-1)"
        "res ! 0" "res ! 0" "res ! 1" "res ! 1"] assms(2,5) p res(3,4)
    by (simp add: plainD cformat_plain credentials_def)
  with sound_credentials_msg [OF assms(6) p res(3,4)] show ?thesis by simp
qed

lemma typed_name:
  assumes "wf_size g" and "plain input" "length input < 24"
  shows "sound_obj (snd (setMsg input (TransObj_all g (-1) (-1) (msgCode MSG_ASK_FOR_FRIEND) (of_nat MAX_TRANS_MSG_LEN) (-1))))"
proof -
  let ?o = "TransObj_all g (-1) (-1) (msgCode MSG_ASK_FOR_FRIEND) (of_nat MAX_TRANS_MSG_LEN) (-1)"
  have "setMsg input ?o = (True, ?o\<lparr>msg := input @ replicate (64 - length input) NUL\<rparr>)"
    using setMsg_fits [of ?o input] assms by (simp add: plainD)
  with assms(2,3) show ?thesis by (intro sound_named [where name = input]) (simp_all add: TransObj_all_def)
qed

lemma handler_sound:
  assumes "boost_split_ok split" and "wf_size g" and "plain arg"
    and "run_handler split oa g h arg w = Inr (Some obj, w')"
  shows "sound_obj obj"
proof (cases "sends h = Some MSG_LOGOUT \<or> sends h = Some MSG_ASK_FOR_FRIEND_ACCEPT")
  case True
  then show ?thesis using run_handler_sends [OF assms(4)] by (intro sound_quiet) auto
next
  case False
  then show ?thesis
  proof (cases h)
    case OfLogin
    with assms(4) show ?thesis
      using typed_credentials [OF assms(1-3), where t = MSG_LOGIN]
      by (auto simp: handleInputOfLogin_def split: prod.splits bool.splits if_splits)
  next
    case OfRegin
    with assms(4) show ?thesis
      using typed_credentials [OF assms(1-3), where t = MSG_REG]
      by (auto simp: handleInputOfRegin_def split: prod.splits bool.splits if_splits)
  next
    case OfAskForFriend
    with assms(4) show ?thesis
      using typed_name [OF assms(2,3)]
      by (auto simp: handleInputOfAskForFriend_def NAME_MAX_LEN_def split: prod.splits bool.splits if_splits)
  next
    case OfChoseTalker
    with assms(4) show ?thesis
      using typed_name [OF assms(2,3)]
      by (auto simp: handleInputOfChoseTalker_def NAME_MAX_LEN_def split: prod.splits bool.splits if_splits)
  qed (use assms(4) run_handler_sends [OF assms(4)] in auto)
qed

lemma typed_sound:
  assumes "boost_split_ok split" and "wf_size g" and "plain input"
    and "getMsgFromInput split oa g input w = Inr (Some obj, w')"
  shows "sound_obj obj"
proof -
  let ?res = "splitStr split input ''@''"
  from assms(4) consider (talk) "obj = snd (setMsg input (TransObj_all g 1 1 (msgCode MSG_TALK) 1 1))"
    | (command) h where "?res \<noteq> []" "length ?res \<noteq> 1" "run_handler split oa g h (?res ! 1) w = Inr (Some obj, w')"
    by (auto simp: getMsgFromInput_def Let_def tryLoginFirst_def split: if_splits option.splits)
  then show ?thesis
  proof cases
    case talk
    then show ?thesis by (intro sound_quiet) (simp add: TransObj_all_def setMsg_def clearMsg_def Let_def)
  next
    case command
    have "1 < length ?res" using command(1,2) by (cases "length ?res") auto
    then have "?res ! 1 \<in> set ?res" by (rule nth_mem)
    then have "plain (?res ! 1)" using plain_subset [OF splitStr_subset [OF assms(1)] assms(3)] by blast
    from handler_sound [OF assms(1,2) this command(3)] show ?thesis .
  qed
qed

section \<open>Clients whose users type plain lines\<close>

text \<open>Every line that is read is a plain one, and there is no race for the player's data.\<close>

definition plain_step ::
  "(string \<Rightarrow> string \<Rightarrow> string list) \<Rightarrow> (image \<Rightarrow> bytes) \<Rightarrow> ClientSys \<Rightarrow> ClientSys \<Rightarrow> bool" where
  "plain_step split oa s s' \<longleftrightarrow> calm_step split oa s s' \<and>
     (case talk_at s' of TalkHandling str \<Rightarrow> plain str | _ \<Rightarrow> True)"

inductive plain_reach :: "(string \<Rightarrow> string \<Rightarrow> string list) \<Rightarrow> (image \<Rightarrow> bytes) \<Rightarrow> ClientSys \<Rightarrow> bool"
  for split oa where
  start: "player_ok p \<Longrightarrow> plain_reach split oa (client_start p d)"
| step: "plain_reach split oa s \<Longrightarrow> plain_step split oa s s' \<Longrightarrow> plain_reach split oa s'"

lemma plain_reach_calm: "plain_reach split oa s \<Longrightarrow> calm_reach split oa s"
  by (induction rule: plain_reach.induct) (auto simp: plain_step_def intro: calm_reach.intros)

lemma plain_reach_client: "plain_reach split oa s \<Longrightarrow> client_reach split oa s"
  by (rule calm_reach_client) (rule plain_reach_calm)

lemma plain_reach_line: "plain_reach split oa s \<Longrightarrow> talk_at s = TalkHandling str \<Longrightarrow> plain str"
  by (induction rule: plain_reach.induct) (auto simp: plain_step_def client_start_def)

text \<open>What waits to be sent is sound, and what was sent is the packet of a sound message.\<close>

definition sound_inv :: "ClientSys \<Rightarrow> bool" where
  "sound_inv s \<longleftrightarrow>
     (\<forall>obj \<in> set (buff (seq (cworld s))). sound_obj obj) \<and>
     (\<forall>p \<in> set (outbox s). \<exists>obj. wf_size obj \<and> sound_obj obj \<and> p = packet obj)"

lemma sound_inv_quiet:
  "sound_inv s \<Longrightarrow> set (buff (seq (cworld s'))) \<subseteq> set (buff (seq (cworld s))) \<Longrightarrow> outbox s' = outbox s \<Longrightarrow> sound_inv s'"
  by (auto simp: sound_inv_def)

lemma scan_sound:
  assumes "\<forall>obj \<in> set (buff (seq w)). sound_obj obj"
  shows "\<forall>obj \<in> set (buff (seq (snd (scanKeyBoard g vptr pad key junk w)))). sound_obj obj"
proof -
  have "sound_obj (getSeqData g vptr t pad)" for t using sound_quiet getSeqData_type by blast
  with assms show ?thesis
    by (auto simp: scanKeyBoard_def Let_def pushBuff_def cq_push_def println_def split: option.split)
qed

lemma talk_sound:
  assumes "handleTalk split oa g str w = Inr w'" and "client_ok w" and "wf_size g" "plain str" "boost_split_ok split"
    and "\<forall>obj \<in> set (buff (seq w)). sound_obj obj"
  shows "\<forall>obj \<in> set (buff (seq w')). sound_obj obj"
proof (cases "MAX_TRANS_MSG_LEN \<le> length str")
  case True
  with assms(1,6) show ?thesis by (auto simp: handleTalk_def Let_def println_def)
next
  case False
  define w1 where "w1 = println (''You say '' @ str)
                 (println ''Now say someyhing...'' (w\<lparr>io := (io w)\<lparr>talking := True\<rparr>\<rparr>))"
  have ok1: "client_ok w1" "buff (seq w1) = buff (seq w)"
    using assms(2) by (simp_all add: w1_def client_ok_def println_def)
  obtain m w2 where g: "getMsgFromInput split oa g str w1 = Inr (m, w2)"
    and w': "w' = (let w3 = (case m of None \<Rightarrow> w2 | Some obj \<Rightarrow> w2\<lparr>seq := pushBuff obj (seq w2)\<rparr>)
                   in w3\<lparr>io := (io w3)\<lparr>talking := False\<rparr>\<rparr>)"
    using assms(1) False by (auto simp: handleTalk_def w1_def Let_def)
  have "buff (seq w2) = buff (seq w)"
    using getMsgFromInput_ok [OF g ok1(1) assms(3)] ok1(2) by (simp add: input_frame_def)
  moreover have "sound_obj obj" if "m = Some obj" for obj
    using typed_sound [OF assms(5,3,4)] g that by blast
  ultimately show ?thesis using assms(6) by (auto simp: w' Let_def pushBuff_def cq_push_def split: option.splits)
qed

lemma plain_step_sound:
  assumes "plain_step split oa s s'" and ok: "boost_split_ok split" and "system_inv s" and inv: "sound_inv s"
    and line: "\<And>str. talk_at s = TalkHandling str \<Longrightarrow> plain str"
  shows "sound_inv s'"
proof -
  have st: "client_step split oa s s'" using assms(1) by (simp add: plain_step_def calm_step_def)
  then show ?thesis
  proof (cases rule: client_step_cases)
    case (sys_msg w)
    then show ?thesis using handleSysMsg_buff(1) inv by (intro sound_inv_quiet [OF inv]) auto
  next
    case (recv_msg w)
    then show ?thesis using handleRecvMsg_buff(1) inv by (intro sound_inv_quiet [OF inv]) auto
  next
    case sys_input
    then show ?thesis using handleSysInput_buff(1) inv by (intro sound_inv_quiet [OF inv]) auto
  next
    case (scan g vptr pad key junk)
    then show ?thesis using scan_sound [of "cworld s"] inv by (simp add: sound_inv_def)
  next
    case actor
    then show ?thesis using actor_action_buff(1) inv by (intro sound_inv_quiet [OF inv]) auto
  next
    case (printed g str w)
    then show ?thesis using io_round_output(1) [OF printed(4,3)] by (intro sound_inv_quiet [OF inv]) auto
  next
    case ask
    then show ?thesis by (intro sound_inv_quiet [OF inv]) auto
  next
    case enter
    then show ?thesis by (intro sound_inv_quiet [OF inv]) auto
  next
    case (typed str g w)
    have "handleTalk split oa g str (cworld s) = Inr w" "client_ok (cworld s)"
      using typed assms(3) by (auto simp: system_inv_def intro: io_round_typed)
    from talk_sound [OF this typed(3) line [OF typed(2)] ok] inv show ?thesis by (simp add: typed(1) sound_inv_def)
  next
    case (send obj q x ps e r)
    have "msgType obj < msgCode MSG_BUTTON" "wf_size obj" "sound_obj obj"
      using assms(3) inv send(3) by (auto simp: system_inv_def no_button_def client_ok_def sound_inv_def)
    moreover from this(1) have "msgType obj \<noteq> msgCode MSG_BUTTON" by auto
    ultimately have "ps = [packet obj]" using client_run_one [OF send(4), of obj] send(5) by (simp del: client_run.simps)
    with \<open>wf_size obj\<close> \<open>sound_obj obj\<close> inv send(1,3) show ?thesis by (auto simp: sound_inv_def)
  next
    case (recv chunk q)
    have "84 \<le> length (store_at 0 chunk (recv_buf s))" using assms(3) recv(3) by (simp add: system_inv_def RECV_SIZE_def)
    from recv_loop_one(1) [OF recv(4) this] show ?thesis using recv(1) by (intro sound_inv_quiet [OF inv]) auto
  qed
qed

lemma plain_reach_sound: "plain_reach split oa s \<Longrightarrow> boost_split_ok split \<Longrightarrow> sound_inv s"
proof (induction rule: plain_reach.induct)
  case (start p d)
  show ?case by (simp add: sound_inv_def client_start_def)
next
  case (step s s')
  then show ?case using plain_step_sound client_reach_inv plain_reach_client plain_reach_line by blast
qed

section \<open>Properties\<close>

text \<open>C8: Plain lines make a served server. Any number of clients, whose users type only plain lines, send
  what they send in runs without a race for the player's data; their streams arrive in pieces,
  interleaved in any way, where no piece holds bytes of two packets and the first piece of each
  packet holds more than its object. Then the event loop handles every piece, the thread pool is
  given exactly the tasks the messages stand for, and each of them is sound: it satisfies what the
  workers need to stay defined and to end.\<close>

theorem plain_clients_sound:
  assumes "\<And>fd. cut_from [] (ps fd) (on_conn fd es)"
    and "\<And>fd. fd \<in> fst ` set es \<Longrightarrow> connection_open fd w \<and> plain_reach split oa (client fd)"
    and "\<And>fd. \<exists>later. outbox (client fd) = ps fd @ later" and "\<not> stop (jobs w)"
    and "boost_split_ok split"
  shows "\<exists>ms w'. dispatch_all (map (\<lambda>(fd, c). chunk_event fd c) es) w = Inr (Inr w') \<and>
     (\<forall>fd. map packet (on_conn fd ms) = ps fd) \<and> (\<forall>(fd, obj) \<in> set ms. wf_size obj) \<and>
     submitted (jobs w') = submitted (jobs w) @ List.map_filter (\<lambda>(fd, obj). owed_task fd obj) ms \<and>
     list_all good_task (List.map_filter (\<lambda>(fd, obj). owed_task fd obj) ms)"
proof -
  have sent: "\<exists>obj. wf_size obj \<and> msgType obj < msgCode MSG_BUTTON \<and> sound_obj obj \<and> p = packet obj"
    if p: "p \<in> set (ps fd)" for fd p
  proof -
    have "fd \<in> fst ` set es"
    proof (rule ccontr)
      assume "fd \<notin> fst ` set es"
      then have "on_conn fd es = []" by (force simp: on_conn_def filter_empty_conv)
      with assms(1) [of fd] p show False by simp
    qed
    with assms(2) have r: "plain_reach split oa (client fd)" by blast
    have "p \<in> set (outbox (client fd))" using assms(3) [of fd] p by auto
    with client_reach_inv [OF plain_reach_client [OF r]] plain_reach_sound [OF r assms(5)]
    obtain a b where a: "wf_size a" "msgType a < msgCode MSG_BUTTON" "p = packet a"
      and b: "wf_size b" "sound_obj b" "p = packet b" unfolding system_inv_def sound_inv_def by metis
    have "a\<lparr>mlen := 0\<rparr> = b\<lparr>mlen := 0\<rparr>" using a b packet_determines by metis
    with a b show ?thesis using sound_obj_mlen by metis
  qed
  obtain ms w' where ms: "dispatch_all (map (\<lambda>(fd, c). chunk_event fd c) es) w = Inr (Inr w')"
    "\<And>fd. map packet (on_conn fd ms) = ps fd" "\<forall>(fd, obj) \<in> set ms. wf_size obj"
    "submitted (jobs w') = submitted (jobs w) @ List.map_filter (\<lambda>(fd, obj). owed_task fd obj) ms"
    using pieces_queue [of "\<lambda>_. []" ps es w, OF assms(1) _ _ assms(4)] assms(2) sent
    by (fastforce simp: mid_packet_def connection_open_def)
  have "good_task t" if "(fd, obj) \<in> set ms" "owed_task fd obj = Some t" for fd obj t
  proof -
    have "obj \<in> set (on_conn fd ms)" using that(1) by (force simp: on_conn_def)
    then have "packet obj \<in> set (ps fd)" unfolding ms(2) [symmetric] by simp
    with sent obtain b where b: "wf_size b" "sound_obj b" "packet obj = packet b" by metis
    have "wf_size obj" using ms(3) that(1) by auto
    from packet_determines [OF this b(1,3)] b(2) have "sound_obj obj" using sound_obj_mlen by metis
    with that(2) show ?thesis by (auto simp: sound_obj_def)
  qed
  then have "list_all good_task (List.map_filter (\<lambda>(fd, obj). owed_task fd obj) ms)"
    by (fastforce simp: List.map_filter_def list_all_iff)
  with ms show ?thesis by blast
qed

lemma typing_plain_reach: "plain_reach split oa typing_client"
proof -
  have plain: "plain_step split oa s t" if "waiting_step split oa s t" for s t
  proof -
    have "client_step split oa s t" "talk_at s = TalkWaiting" using that by (simp_all add: waiting_step_def)
    then have "talk_at t \<in> {TalkWaiting, TalkTyping}" by (cases rule: client_step_cases) auto
    with waiting_step_calm [OF that] show ?thesis by (auto simp: plain_step_def)
  qed
  have "(waiting_step split oa)\<^sup>*\<^sup>* s t \<Longrightarrow> plain_reach split oa s \<Longrightarrow> plain_reach split oa t" for s t
    by (induction rule: rtranclp_induct) (auto intro: plain_reach.step plain)
  from this [OF typing_client_path] plain_reach.start [OF new_client_player] show ?thesis by blast
qed

lemma sent_plain_client:
  "\<exists>s. plain_reach split_ref demo_oa s \<and>
       outbox s = [packet (credentials TransObj_default MSG_LOGIN ''bob'' ''secret'')]"
proof -
  let ?l = "''login'' @ ''@'' @ ''bob'' @ ''|'' @ ''secret''" and ?o = "credentials TransObj_default MSG_LOGIN ''bob'' ''secret''"
  obtain w where w: "io_round split_ref demo_oa TransObj_default ?l (cworld typing_client) = Some (Inr w)"
    "buff (seq w) = [?o]"
    using typing_client_line by blast
  let ?t = "typing_client\<lparr>talk_at := TalkHandling ?l\<rparr>"
  let ?s = "?t\<lparr>cworld := w, talk_at := TalkWaiting\<rparr>"
  have "client_step split_ref demo_oa typing_client ?t" by (rule client_step.enter) (simp add: typing_client_def)
  moreover have "plain ?l" by (simp add: plain_def NUL_def)
  ultimately have "plain_step split_ref demo_oa typing_client ?t"
    by (simp add: plain_step_def calm_step_def player_race_def main_uses_player_def typing_client_def)
  then have 1: "plain_reach split_ref demo_oa ?t" by (rule plain_reach.step [OF typing_plain_reach])
  have "client_step split_ref demo_oa ?t ?s"
    by (rule client_step.typed [OF _ wf_obj_size [OF wf_obj_default]]) (use w(1) in simp_all)
  then have "plain_step split_ref demo_oa ?t ?s" by (simp add: plain_step_def calm_step_def player_race_def)
  with 1 have 2: "plain_reach split_ref demo_oa ?s" by (rule plain_reach.step)
  have c: "client_run [Taken] [?o] = ([packet ?o], Waiting, [])"
    by (rule client_run_one) (simp_all add: credentials_def TransObj_all_def)
  have "sender_at ?s = Waiting" "buff (seq (cworld ?s)) = ?o # []"
    using w(2) by (simp_all add: typing_client_def asked_world_def client_start_def)
  from client_step.send [OF this _ c, of split_ref demo_oa] obtain s'
    where s': "client_step split_ref demo_oa ?s s'" "outbox s' = outbox ?s @ [packet ?o]" "talk_at s' = TalkWaiting" by simp
  then have "plain_step split_ref demo_oa ?s s'" "outbox s' = [packet ?o]"
    by (simp_all add: plain_step_def calm_step_def player_race_def typing_client_def asked_world_def client_start_def)
  with 2 show ?thesis using plain_reach.step by blast
qed

theorem plain_clients_sound_witness:
  "\<exists>w' t. dispatch_all
       (map (\<lambda>(fd, c). chunk_event fd c)
          [(9, take 100 (packet (credentials TransObj_default MSG_LOGIN ''bob'' ''secret''))),
           (9, drop 100 (packet (credentials TransObj_default MSG_LOGIN ''bob'' ''secret'')))]) one_connection =
       Inr (Inr w') \<and>
     submitted (jobs w') = submitted (jobs one_connection) @ [t] \<and> good_task t"
proof -
  let ?p = "packet (credentials TransObj_default MSG_LOGIN ''bob'' ''secret'')"
  let ?ps = "\<lambda>fd :: s32. if fd = 9 then [?p] else []" and ?es = "[(9 :: s32, take 100 ?p), (9, drop 100 ?p)]"
  have "length ?p = 512" by (intro length_packet credentials_wf wf_obj_size wf_obj_default) simp_all
  then have cut: "cut_from [] (?ps fd) (on_conn fd ?es)" for fd by (auto simp: sizeof_TransObj_def)
  obtain s where s: "plain_reach split_ref demo_oa s" "outbox s = [?p]" using sent_plain_client by blast
  have conn: "connection_open fd one_connection \<and> plain_reach split_ref demo_oa s" if "fd \<in> fst ` set ?es" for fd
    using that one_connection_open(1) s(1) by auto
  have "\<exists>later. outbox s = ?ps fd @ later" for fd by (simp add: s(2))
  from plain_clients_sound [OF cut conn this one_connection_open(2) boost_split_ref]
  obtain ms w' where m: "dispatch_all (map (\<lambda>(fd, c). chunk_event fd c) ?es) one_connection = Inr (Inr w')"
    "\<And>fd. map packet (on_conn fd ms) = ?ps fd" "\<forall>(fd, obj) \<in> set ms. wf_size obj"
    "submitted (jobs w') = submitted (jobs one_connection) @ List.map_filter (\<lambda>(fd, obj). owed_task fd obj) ms"
    "list_all good_task (List.map_filter (\<lambda>(fd, obj). owed_task fd obj) ms)" by blast
  from m(1,4,5) show ?thesis unfolding one_login_owed [OF m(2,3)] by (auto simp del: good_task.simps dispatch_all.simps)
qed

end
