(* ===== verification/ListMonitor.thy ===== *)
theory ListMonitor
  imports ConcList
begin

text \<open>
  The concurrent list as a monitor: several threads in the methods of \<^verbatim>\<open>ConcList.h\<close>, with
  the two condition variables, their notifications and spurious wake-ups. Compared with the
  queue, \<open>erase\<close> also takes elements, and it notifies nobody.
\<close>

section \<open>Calls\<close>

text \<open>
  The methods that may wait, and the one critical section each goes through once its condition
  holds: None while it does not. The second component is the condition variable notified.
\<close>

datatype signal = NoSignal | DataCond | EmptyCond

datatype 'a waiting = PopFront | PopBack | WaitNotEmpty | PushWhenEmpty 'a

fun attempt :: "'a waiting \<Rightarrow> 'a ConcList \<Rightarrow> ('a ConcList \<times> signal) option" where
  "attempt PopFront l =
     map_option (\<lambda>(_, l'). (l', if cl_empty l' then EmptyCond else NoSignal)) (cl_pop_front l)"
| "attempt PopBack l =
     map_option (\<lambda>(_, l'). (l', if cl_empty l' then EmptyCond else NoSignal)) (cl_pop_back l)"
| "attempt WaitNotEmpty l = map_option (\<lambda>_. (l, NoSignal)) (cl_waitTillNotEmpty l)"
| "attempt (PushWhenEmpty v) l = map_option (\<lambda>l'. (l', DataCond)) (cl_waitPushTillEmpty v l)"

text \<open>The methods that never wait and change the list; an erasure out of bounds is undefined.\<close>

datatype 'a direct = PushBack 'a | PushFront 'a | Erase int

fun direct_call :: "'a direct \<Rightarrow> 'a ConcList \<Rightarrow> ('a ConcList \<times> signal) res" where
  "direct_call (PushBack x) l = Inr (cl_push_back x l, DataCond)"
| "direct_call (PushFront x) l = Inr (cl_push_front x l, DataCond)"
| "direct_call (Erase i) l = bind_res (cl_erase i l) (\<lambda>(_, l'). Inr (l', NoSignal))"

section \<open>The monitor\<close>

record 'a lmonitor =
  shared :: "'a ConcList"
  asleep :: "'a waiting list"
  awake :: "'a waiting list"

definition lmonitor_init :: "'a lmonitor" where
  "lmonitor_init = \<lparr>shared = cl_new, asleep = [], awake = []\<rparr>"

fun waits_on :: "signal \<Rightarrow> 'a waiting \<Rightarrow> bool" where
  "waits_on DataCond (PushWhenEmpty v) \<longleftrightarrow> False"
| "waits_on DataCond _ \<longleftrightarrow> True"
| "waits_on EmptyCond (PushWhenEmpty v) \<longleftrightarrow> True"
| "waits_on _ _ \<longleftrightarrow> False"

text \<open>\<open>notify_one\<close> wakes some thread that waits on the condition variable, if there is one.\<close>

inductive notified :: "signal \<Rightarrow> 'a lmonitor \<Rightarrow> 'a lmonitor \<Rightarrow> bool" where
  nobody: "\<forall>x \<in> set (asleep s). \<not> waits_on c x \<Longrightarrow> notified c s s"
| one: "asleep s = xs @ x # ys \<Longrightarrow> waits_on c x \<Longrightarrow>
     notified c s (s\<lparr>asleep := xs @ ys, awake := x # awake s\<rparr>)"

inductive list_step :: "'a lmonitor \<Rightarrow> 'a lmonitor \<Rightarrow> bool" where
  direct: "direct_call d (shared s) = Inr (l, c) \<Longrightarrow> notified c (s\<lparr>shared := l\<rparr>) s' \<Longrightarrow> list_step s s'"
| enter: "attempt x (shared s) = Some (l, c) \<Longrightarrow> notified c (s\<lparr>shared := l\<rparr>) s' \<Longrightarrow> list_step s s'"
| sleep: "attempt x (shared s) = None \<Longrightarrow> list_step s (s\<lparr>asleep := x # asleep s\<rparr>)"
| run: "awake s = xs @ x # ys \<Longrightarrow> attempt x (shared s) = Some (l, c) \<Longrightarrow>
     notified c (s\<lparr>shared := l, awake := xs @ ys\<rparr>) s' \<Longrightarrow> list_step s s'"
| resleep: "awake s = xs @ x # ys \<Longrightarrow> attempt x (shared s) = None \<Longrightarrow>
     list_step s (s\<lparr>awake := xs @ ys, asleep := x # asleep s\<rparr>)"
| spurious: "asleep s = xs @ x # ys \<Longrightarrow> list_step s (s\<lparr>asleep := xs @ ys, awake := x # awake s\<rparr>)"

inductive list_reach :: "'a lmonitor \<Rightarrow> bool" where
  start: "list_reach lmonitor_init"
| step: "list_reach s \<Longrightarrow> list_step s s' \<Longrightarrow> list_reach s'"

section \<open>Threads that only push, pop and erase\<close>

text \<open>
  As the client uses the list: nobody is in \<open>waitTillNotEmpty\<close> or \<open>waitPushTillEmpty\<close>. Then the
  counter agrees with the list, so that no index is out of bounds, and a thread that sleeps in a
  \<open>pop\<close> while there are elements has as many woken threads ahead of it.
\<close>

definition popper :: "'a waiting \<Rightarrow> bool" where
  "popper x \<longleftrightarrow> x = PopFront \<or> x = PopBack"

definition only_pops :: "'a lmonitor \<Rightarrow> bool" where
  "only_pops s \<longleftrightarrow> (\<forall>x \<in> set (asleep s) \<union> set (awake s). popper x)"

definition list_inv :: "'a lmonitor \<Rightarrow> bool" where
  "list_inv s \<longleftrightarrow> cl_inv (shared s) \<and> only_pops s \<and> (asleep s = [] \<or> length (elems (shared s)) \<le> length (awake s))"

inductive pops_reach :: "'a lmonitor \<Rightarrow> bool" where
  start: "pops_reach lmonitor_init"
| direct: "pops_reach s \<Longrightarrow> direct_call d (shared s) = Inr (l, c) \<Longrightarrow> notified c (s\<lparr>shared := l\<rparr>) s' \<Longrightarrow> pops_reach s'"
| enter: "pops_reach s \<Longrightarrow> popper x \<Longrightarrow> attempt x (shared s) = Some (l, c) \<Longrightarrow>
     notified c (s\<lparr>shared := l\<rparr>) s' \<Longrightarrow> pops_reach s'"
| sleep: "pops_reach s \<Longrightarrow> popper x \<Longrightarrow> attempt x (shared s) = None \<Longrightarrow> pops_reach (s\<lparr>asleep := x # asleep s\<rparr>)"
| run: "pops_reach s \<Longrightarrow> awake s = xs @ x # ys \<Longrightarrow> attempt x (shared s) = Some (l, c) \<Longrightarrow>
     notified c (s\<lparr>shared := l, awake := xs @ ys\<rparr>) s' \<Longrightarrow> pops_reach s'"
| resleep: "pops_reach s \<Longrightarrow> awake s = xs @ x # ys \<Longrightarrow> attempt x (shared s) = None \<Longrightarrow>
     pops_reach (s\<lparr>awake := xs @ ys, asleep := x # asleep s\<rparr>)"
| spurious: "pops_reach s \<Longrightarrow> asleep s = xs @ x # ys \<Longrightarrow> pops_reach (s\<lparr>asleep := xs @ ys, awake := x # awake s\<rparr>)"

lemma pops_reach_list: "pops_reach s \<Longrightarrow> list_reach s"
  by (induction rule: pops_reach.induct) (auto intro: list_reach.intros list_step.intros)

lemma attempt_popper:
  assumes "popper x" and "cl_inv l"
  shows "attempt x l = None \<longleftrightarrow> elems l = []"
    and "attempt x l = Some (l', c) \<Longrightarrow> cl_inv l' \<and> Suc (length (elems l')) = length (elems l) \<and> c \<noteq> DataCond"
proof -
  show "attempt x l = None \<longleftrightarrow> elems l = []"
    using assms(1) by (auto simp: popper_def cl_defs split: list.splits if_splits)
  assume a: "attempt x l = Some (l', c)"
  then have "\<exists>y. cl_pop_front l = Some (y, l') \<or> cl_pop_back l = Some (y, l')" and c: "c \<noteq> DataCond"
    using assms(1) by (auto simp: popper_def split: if_splits)
  with cl_inv_pop [OF assms(2)] show "cl_inv l' \<and> Suc (length (elems l')) = length (elems l) \<and> c \<noteq> DataCond"
    by (auto simp: cl_defs split: list.splits if_splits)
qed

text \<open>A notification of \<open>empty_cond\<close> finds nobody; one of \<open>data_cond\<close> wakes a sleeping thread.\<close>

lemma notified_pops:
  assumes "notified c s s'" and "only_pops s"
  shows "shared s' = shared s \<and> only_pops s' \<and>
     (asleep s' = asleep s \<and> awake s' = awake s \<and> (c = DataCond \<longrightarrow> asleep s = []) \<or>
      c = DataCond \<and> asleep s \<noteq> [] \<and> length (awake s') = Suc (length (awake s)))"
  using assms
proof (cases rule: notified.cases)
  case nobody
  then have "c = DataCond \<Longrightarrow> asleep s = []"
    using assms(2) by (cases "asleep s") (auto simp: only_pops_def popper_def)
  with nobody assms(2) show ?thesis by auto
next
  case (one xs x ys)
  then have "popper x" using assms(2) by (simp add: only_pops_def)
  then have "c = DataCond" using one(3) by (cases c) (auto simp: popper_def)
  with one assms(2) show ?thesis by (auto simp: only_pops_def)
qed

lemma erase_shorter: "cl_inv l \<Longrightarrow> cl_erase i l = Inr (b, l') \<Longrightarrow> length (elems l') \<le> length (elems l)"
  by (auto simp: cl_inv_def cl_erase_def split: if_splits)

lemma direct_call_ok:
  assumes "cl_inv l" and "direct_call d l = Inr (l', c)"
  shows "cl_inv l' \<and> length (elems l') \<le> (if c = DataCond then 1 else 0) + length (elems l)"
proof (cases d)
  case (Erase i)
  with assms(2) obtain b where "cl_erase i l = Inr (b, l')" by auto
  with cl_inv_erase [OF assms(1) this] erase_shorter [OF assms(1) this] show ?thesis by simp
qed (use assms in \<open>auto simp: cl_inv_def cl_push_back_def cl_push_front_def\<close>)

lemma pops_reach_inv: "pops_reach s \<Longrightarrow> list_inv s"
proof (induction rule: pops_reach.induct)
  case start
  show ?case by (simp add: list_inv_def lmonitor_init_def cl_inv_new only_pops_def)
next
  case (direct s d l c s')
  then have inv: "cl_inv (shared s)" "only_pops (s\<lparr>shared := l\<rparr>)"
    "asleep s = [] \<or> length (elems (shared s)) \<le> length (awake s)"
    by (simp_all add: list_inv_def only_pops_def)
  from direct_call_ok [OF inv(1) direct.hyps(2)] have l: "cl_inv l"
    "length (elems l) \<le> (if c = DataCond then 1 else 0) + length (elems (shared s))" by simp_all
  from notified_pops [OF direct.hyps(3) inv(2)] l inv(3) show ?case by (auto simp: list_inv_def split: if_splits)
next
  case (enter s x l c s')
  then have inv: "cl_inv (shared s)" "only_pops (s\<lparr>shared := l\<rparr>)"
    "asleep s = [] \<or> length (elems (shared s)) \<le> length (awake s)"
    by (simp_all add: list_inv_def only_pops_def)
  from attempt_popper(2) [OF enter.hyps(2) inv(1) enter.hyps(3)] notified_pops [OF enter.hyps(4) inv(2)] inv(3)
  show ?case by (auto simp: list_inv_def)
next
  case (sleep s x)
  then have "elems (shared s) = []" using attempt_popper(1) by (auto simp: list_inv_def)
  with sleep show ?case by (auto simp: list_inv_def only_pops_def)
next
  case (run s xs x ys l c s')
  then have inv: "cl_inv (shared s)" "only_pops (s\<lparr>shared := l, awake := xs @ ys\<rparr>)" "popper x"
    "asleep s = [] \<or> length (elems (shared s)) \<le> Suc (length (xs @ ys))"
    by (auto simp: list_inv_def only_pops_def)
  from attempt_popper(2) [OF inv(3,1) run.hyps(3)] notified_pops [OF run.hyps(4) inv(2)] inv(4)
  show ?case by (auto simp: list_inv_def)
next
  case (resleep s xs x ys)
  then have "popper x" by (auto simp: list_inv_def only_pops_def)
  with resleep have "elems (shared s) = []" using attempt_popper(1) by (auto simp: list_inv_def)
  with resleep show ?case by (auto simp: list_inv_def only_pops_def)
next
  case (spurious s xs x ys)
  then show ?case by (auto simp: list_inv_def only_pops_def)
qed

section \<open>Properties\<close>

text \<open>While threads only push, pop and erase, the counter is the number of elements, so erasing or
  looking up at any index is defined, and no wake-up of a \<open>pop\<close> is lost.\<close>

lemma list_pops_sound:
  assumes "pops_reach s"
  shows "cl_getSize (shared s) = int (length (elems (shared s))) \<and> cl_erase i (shared s) \<noteq> Inl e \<and>
     cl_getOneRequest i (shared s) \<noteq> Inl e \<and> (asleep s \<noteq> [] \<longrightarrow> length (elems (shared s)) \<le> length (awake s))"
proof -
  have inv: "list_inv s" using pops_reach_inv [OF assms] .
  then have "cl_inv (shared s)" by (simp add: list_inv_def)
  with inv cl_erase_exact [OF this, of i] cl_getOneRequest_exact [OF this, of i] show ?thesis
    by (auto simp: list_inv_def cl_inv_def cl_getSize_def)
qed

text \<open>\<open>erase\<close> loses a wake-up: a thread in \<open>waitPushTillEmpty\<close> sleeps on, with nobody awake, over a
  list that was emptied by \<open>erase\<close>.\<close>

lemma erase_loses_wakeup:
  "\<exists>s. list_reach s \<and> asleep s = [PushWhenEmpty (7 :: nat)] \<and> awake s = [] \<and> elems (shared s) = [] \<and>
     attempt (PushWhenEmpty 7) (shared s) \<noteq> None"
proof -
  let ?p = "PushWhenEmpty (7 :: nat)" and ?l1 = "\<lparr>csize = 1, elems = [5 :: nat]\<rparr>" and ?l0 = "\<lparr>csize = 0, elems = []\<rparr>"
  have "list_step lmonitor_init \<lparr>shared = ?l1, asleep = [], awake = []\<rparr>"
    by (rule list_step.direct [where d = "PushBack 5"])
       (auto simp: lmonitor_init_def cl_new_def cl_push_back_def intro: notified.nobody)
  then have 1: "list_reach \<lparr>shared = ?l1, asleep = [], awake = []\<rparr>" by (rule list_reach.step [OF list_reach.start])
  have "list_step \<lparr>shared = ?l1, asleep = [], awake = []\<rparr> \<lparr>shared = ?l1, asleep = [?p], awake = []\<rparr>"
    using list_step.sleep [of ?p "\<lparr>shared = ?l1, asleep = [], awake = []\<rparr>"]
    by (simp add: cl_waitPushTillEmpty_def)
  then have 2: "list_reach \<lparr>shared = ?l1, asleep = [?p], awake = []\<rparr>" by (rule list_reach.step [OF 1])
  have "list_step \<lparr>shared = ?l1, asleep = [?p], awake = []\<rparr> \<lparr>shared = ?l0, asleep = [?p], awake = []\<rparr>"
    by (rule list_step.direct [where d = "Erase 0" and l = ?l0 and c = NoSignal])
       (auto simp: cl_erase_def intro: notified.nobody)
  then have "list_reach \<lparr>shared = ?l0, asleep = [?p], awake = []\<rparr>" by (rule list_reach.step [OF 2])
  then show ?thesis by (intro exI [of _ "\<lparr>shared = ?l0, asleep = [?p], awake = []\<rparr>"]) (simp add: cl_waitPushTillEmpty_def)
qed

end
