(* ===== verification/ConRedis.thy ===== *)
theory ConRedis
  imports RedisPool
begin

text \<open>
  \<^verbatim>\<open>smer/Redis/inc/ConRedis.h\<close>: a single plain context. \<open>conn\<close> looks at \<open>c->err\<close> without
  asking whether there is a context, and keeps the pointer of one it has freed; \<open>doCommd\<close>
  looks at the text of a reply without asking whether there is a reply, or a text.
\<close>

section \<open>The connection\<close>

record 'x ConRedis =
  con_ctx :: "'x option"
  con_freed :: bool

definition ConRedis_new :: "'x ConRedis" where
  "ConRedis_new = \<lparr>con_ctx = None, con_freed = False\<rparr>"

definition con_conn :: "('x, 'rd) redis \<Rightarrow> 'x ConRedis \<Rightarrow> 'rd \<Rightarrow> (bool \<times> 'x ConRedis \<times> 'rd) res" where
  "con_conn api c rd =
     (case ctx_connect api rd of
        (CtxNull, rd1) \<Rightarrow> Inl NullDeref
      | (CtxErr x, rd1) \<Rightarrow> Inr (False, c\<lparr>con_ctx := Some x, con_freed := True\<rparr>, rd1)
      | (CtxOk x, rd1) \<Rightarrow> Inr (True, c\<lparr>con_ctx := Some x, con_freed := False\<rparr>, rd1))"

fun reply_str :: "reply \<Rightarrow> string option" where
  "reply_str (RString s) = Some (cstr s)"
| "reply_str (RStatus s) = Some (cstr s)"
| "reply_str (RError s) = Some (cstr s)"
| "reply_str _ = None"

definition doCommd :: "('x, 'rd) redis \<Rightarrow> string \<Rightarrow> string \<Rightarrow> 'x ConRedis \<Rightarrow> 'rd \<Rightarrow> (string \<times> 'rd) res" where
  "doCommd api password cmd c rd =
     (case con_ctx c of
        None \<Rightarrow> Inl NullDeref
      | Some x \<Rightarrow> if con_freed c then Inl UseAfterFree else
          (let (_, rd1) = redis_command api x (''auth '' @ password) rd;
               (rep, rd2) = redis_command api x (cstr cmd) rd1
           in (case rep of
                 None \<Rightarrow> Inl NullDeref
               | Some re \<Rightarrow> (case reply_str re of None \<Rightarrow> Inl NullDeref | Some s \<Rightarrow> Inr (s, rd2)))))"

text \<open>A refused connection is reported, but the object is no longer usable: what it keeps is freed.\<close>

lemma refused_then_command:
  assumes "con_conn api c rd = Inr (False, c', rd')"
  shows "doCommd api password cmd c' rd' = Inl UseAfterFree"
  using assms by (auto simp: con_conn_def doCommd_def split: new_ctx.splits prod.splits)

text \<open>A command is answered with the text of a reply that has one, and is undefined otherwise.\<close>

lemma doCommd_outcome:
  assumes "con_ctx c = Some x" and "\<not> con_freed c"
  shows "doCommd api password cmd c rd =
     (let (_, rd1) = redis_command api x (''auth '' @ password) rd;
          (rep, rd2) = redis_command api x (cstr cmd) rd1
      in case Option.bind rep reply_str of None \<Rightarrow> Inl NullDeref | Some s \<Rightarrow> Inr (s, rd2))"
  using assms by (simp add: doCommd_def Let_def split: prod.split option.split)

end
