(* ===== verification/Terminal.thy ===== *)
theory Terminal
  imports GameLoop
begin

unbundle bit_operations_syntax

text \<open>
  The terminal the client reads from: the settings that \<open>ReadKey::scanKeyBoard\<close>
  (\<^verbatim>\<open>smer/Input/src/ReadKey.cpp\<close>) and \<open>IOManger::handleTalk\<close>
  (\<^verbatim>\<open>smer/IOMange/src/IOManger.cpp\<close>) change and put back, and the descriptors that
  \<open>scanKeyBoard\<close> opens on \<^verbatim>\<open>/dev/tty\<close> and never closes. What \<open>open\<close> returns is an
  argument, and so is the content of a \<open>termios\<close> that \<open>tcgetattr\<close> did not fill because the
  standard input is no terminal.
\<close>

section \<open>Settings\<close>

record termios =
  c_lflag :: u32
  c_vtime :: "8 word"
  c_vmin :: "8 word"

definition ICANON :: u32 where
  "ICANON = 0x2"

definition ECHO :: u32 where
  "ECHO = 0x8"

record Terminal =
  is_tty :: bool
  tty :: termios
  opened :: "s32 list"

definition tcgetattr :: "termios \<Rightarrow> Terminal \<Rightarrow> termios" where
  "tcgetattr junk t = (if is_tty t then tty t else junk)"

definition tcsetattr :: "termios \<Rightarrow> Terminal \<Rightarrow> Terminal" where
  "tcsetattr s t = (if is_tty t then t\<lparr>tty := s\<rparr> else t)"

text \<open>What \<open>scanKeyBoard\<close> sets: single keys, unechoed, one at a time.\<close>

definition raw_mode :: "termios \<Rightarrow> termios" where
  "raw_mode stored =
     (let new1 = stored\<lparr>c_lflag := c_lflag stored AND NOT ICANON\<rparr>;
          new2 = new1\<lparr>c_lflag := c_lflag new1 AND NOT ECHO\<rparr>
      in new2\<lparr>c_vtime := 0, c_vmin := 1\<rparr>)"

text \<open>What \<open>handleTalk\<close> sets, and at once undoes: \<open>&=\<close> where \<open>|=\<close> would set the two flags.\<close>

definition talk_mode :: "termios \<Rightarrow> termios" where
  "talk_mode stored =
     (let new1 = stored\<lparr>c_lflag := c_lflag stored AND ICANON\<rparr>
      in new1\<lparr>c_lflag := c_lflag new1 AND ECHO\<rparr>)"

definition talk_terminal :: "termios \<Rightarrow> Terminal \<Rightarrow> Terminal" where
  "talk_terminal junk t =
     (let stored = tcgetattr junk t in tcsetattr stored (tcsetattr (talk_mode stored) t))"

section \<open>Scanning the keyboard\<close>

text \<open>
  The terminal's side of \<open>scanKeyBoard\<close>: the result says whether the assertion on the
  descriptor held; a failed one ends the program where it stands.
\<close>

definition scan_terminal :: "termios \<Rightarrow> s32 \<Rightarrow> Terminal \<Rightarrow> bool \<times> Terminal" where
  "scan_terminal junk keyboard t =
     (let stored = tcgetattr junk t;
          t1 = tcsetattr (raw_mode stored) t
      in if sint keyboard \<le> 0 then (False, t1)
         else (True, tcsetattr stored (t1\<lparr>opened := keyboard # opened t1\<rparr>)))"

text \<open>All of \<open>scanKeyBoard\<close>; None when the assertion ends the program.\<close>

definition scan_key ::
  "TransObj \<Rightarrow> bytes \<Rightarrow> bytes \<Rightarrow> char option \<Rightarrow> char \<Rightarrow> termios \<Rightarrow> s32 \<Rightarrow> ClientWorld \<Rightarrow> Terminal \<Rightarrow>
   (u32 \<times> ClientWorld) option \<times> Terminal" where
  "scan_key g vptr pad key junk jt keyboard w t =
     (if \<not> isTimeToReadKey w then (Some (cmdCode CMD_BUTTON, w), t)
      else (case scan_terminal jt keyboard t of
              (False, t1) \<Rightarrow> (None, t1)
            | (True, t1) \<Rightarrow> (Some (scanKeyBoard g vptr pad key junk w), t1)))"

text \<open>The client's use of the terminal: its scans and its prompts, in any order.\<close>

datatype tty_op = Scan termios s32 | Talk termios

fun run_tty :: "tty_op list \<Rightarrow> Terminal \<Rightarrow> bool \<times> Terminal" where
  "run_tty [] t = (True, t)"
| "run_tty (Scan junk fd # ops) t =
     (case scan_terminal junk fd t of (False, t1) \<Rightarrow> (False, t1) | (True, t1) \<Rightarrow> run_tty ops t1)"
| "run_tty (Talk junk # ops) t = run_tty ops (talk_terminal junk t)"

section \<open>Settings are put back\<close>

lemmas tty_defs = tcgetattr_def tcsetattr_def raw_mode_def talk_mode_def talk_terminal_def
  scan_terminal_def Let_def

lemma raw_mode_flags:
  "c_lflag (raw_mode s) AND ICANON = 0" "c_lflag (raw_mode s) AND ECHO = 0"
  by (simp_all add: raw_mode_def Let_def and.assoc ICANON_def ECHO_def)

lemma talk_mode_nothing: "c_lflag (talk_mode s) = 0"
  by (simp add: talk_mode_def Let_def ICANON_def ECHO_def and.assoc)

lemma talk_terminal_id [simp]: "talk_terminal junk t = t"
  by (simp add: tty_defs)

lemma scan_terminal_result:
  "scan_terminal junk fd t =
     (if sint fd \<le> 0 then (False, tcsetattr (raw_mode (tty t)) t) else (True, t\<lparr>opened := fd # opened t\<rparr>))"
  by (auto simp: tty_defs)

text \<open>Only the scans of a client that is not talking touch the terminal.\<close>

lemma scan_key_talking: "talking (io w) \<Longrightarrow> snd (scan_key g vptr pad key junk jt fd w t) = t"
  by (simp add: scan_key_def isTimeToReadKey_def)

lemma scan_key_world:
  "fst (scan_key g vptr pad key junk jt fd w t) = Some r \<Longrightarrow> r = scanKeyBoard g vptr pad key junk w"
  by (auto simp: scan_key_def scan_talking scanKeyBoard_def split: prod.splits bool.splits if_splits)

section \<open>Properties\<close>

text \<open>The descriptors \<open>open\<close> returns: each is free when it is returned, and below the process's limit.\<close>

fun scan_fds :: "tty_op list \<Rightarrow> s32 list" where
  "scan_fds [] = []"
| "scan_fds (Scan junk fd # ops) = fd # scan_fds ops"
| "scan_fds (Talk junk # ops) = scan_fds ops"

definition kernel_opens :: "nat \<Rightarrow> tty_op list \<Rightarrow> Terminal \<Rightarrow> bool" where
  "kernel_opens limit ops t \<longleftrightarrow>
     distinct (scan_fds ops @ opened t) \<and> (\<forall>fd \<in> set (scan_fds ops @ opened t). sint fd < int limit)"

lemma run_tty_opened:
  "run_tty ops t = (True, t') \<Longrightarrow>
     tty t' = tty t \<and> is_tty t' = is_tty t \<and> opened t' = rev (scan_fds ops) @ opened t \<and>
     (\<forall>fd \<in> set (scan_fds ops). 0 < sint fd)"
proof (induction ops t rule: run_tty.induct)
  case (2 junk fd ops t)
  then show ?case by (cases "sint fd \<le> 0") (auto simp: scan_terminal_result)
qed simp_all

lemma fewer_than_limit:
  assumes "distinct (fds :: s32 list)" and "\<forall>fd \<in> set fds. 0 < sint fd \<and> sint fd < int limit"
  shows "length fds \<le> limit - 1"
proof -
  have "card (set fds) = card ((\<lambda>fd. nat (sint fd)) ` set fds)"
  proof (rule card_image [symmetric], rule inj_onI)
    fix a b assume "a \<in> set fds" "b \<in> set fds" "nat (sint a) = nat (sint b)"
    with assms(2) have "sint a = sint b" by (simp add: eq_nat_nat_iff order_less_imp_le)
    then show "a = b" by (rule signed_word_eqI)
  qed
  moreover have "(\<lambda>fd. nat (sint fd)) ` set fds \<subseteq> {1..<limit}"
  proof
    fix n assume "n \<in> (\<lambda>fd. nat (sint fd)) ` set fds"
    then obtain fd where "fd \<in> set fds" "n = nat (sint fd)" by blast
    moreover from this(1) assms(2) have "0 < sint fd" "sint fd < int limit" by blast+
    ultimately show "n \<in> {1..<limit}" by simp linarith
  qed
  then have "card ((\<lambda>fd. nat (sint fd)) ` set fds) \<le> card {1..<limit}" by (intro card_mono) simp_all
  ultimately show ?thesis using distinct_card [OF assms(1)] by simp
qed

text \<open>C37: The client runs out of descriptors. Every scan of the keyboard opens the terminal anew and
  never closes it; so with a limit on the descriptors of a process, fewer scans than the limit ever
  succeed, however they are mixed with prompts. So far the terminal's settings are always as they
  were found; but the scan whose \<^verbatim>\<open>open\<close> fails ends the program and leaves the terminal in raw
  mode, without echo.\<close>

theorem keyboard_descriptors_run_out:
  assumes "run_tty ops t = (True, t')" and "kernel_opens limit ops t" and "\<forall>fd \<in> set (opened t). 0 < sint fd"
  shows "length (scan_fds ops) + length (opened t) \<le> limit - 1 \<and>
         tty t' = tty t \<and> opened t' = rev (scan_fds ops) @ opened t \<and>
         (is_tty t \<longrightarrow> (\<exists>t2. run_tty [Scan junk (-1)] t' = (False, t2) \<and>
            c_lflag (tty t2) AND ICANON = 0 \<and> c_lflag (tty t2) AND ECHO = 0))"
proof -
  have r: "tty t' = tty t" "is_tty t' = is_tty t" "opened t' = rev (scan_fds ops) @ opened t"
    "\<forall>fd \<in> set (scan_fds ops). 0 < sint fd"
    using run_tty_opened [OF assms(1)] by simp_all
  have "length (scan_fds ops @ opened t) \<le> limit - 1"
    using assms(2,3) r(4) by (intro fewer_than_limit) (auto simp: kernel_opens_def)
  with r show ?thesis by (simp add: scan_terminal_result tcsetattr_def raw_mode_flags)
qed

theorem keyboard_descriptors_run_out_witness:
  "\<exists>t t'. run_tty [Scan (tty t) 3, Talk (tty t), Scan (tty t) 4] t = (True, t') \<and> length (opened t') = 2 \<and> (2::nat) \<le> 5 - 1"
proof -
  let ?t = "\<lparr>is_tty = True, tty = \<lparr>c_lflag = 0x8A3B, c_vtime = 0, c_vmin = 1\<rparr>, opened = []\<rparr>"
  let ?ops = "[Scan (tty ?t) 3, Talk (tty ?t), Scan (tty ?t) 4]"
  have "kernel_opens 5 ?ops ?t" by (simp add: kernel_opens_def)
  from keyboard_descriptors_run_out [OF _ this, of "?t\<lparr>opened := [4, 3]\<rparr>" "tty ?t"]
  show ?thesis by (intro exI [of _ ?t] exI [of _ "?t\<lparr>opened := [4, 3]\<rparr>"]) (simp add: scan_terminal_result)
qed

end
