(* ===== verification/LogFile.thy ===== *)
theory LogFile
  imports StdMap ConcQueue CLib
begin

text \<open>
  The server's logger: \<open>MyLog\<close> of \<^verbatim>\<open>smer/Log/inc/Log.h\<close>, \<open>Ztime\<close> of
  \<^verbatim>\<open>smer/Util/inc/ZTime.h\<close> and \<open>FileIo\<close> of \<^verbatim>\<open>smer/Util/inc/FileIO.h\<close>. The current time
  is an argument in Boost's ISO form (\<open>YYYYMMDDTHHMMSS\<close>); the file system is a map from
  paths to contents, and which paths can be opened is a parameter.
\<close>

section \<open>Ztime\<close>

fun str_find :: "char \<Rightarrow> string \<Rightarrow> nat option" where
  "str_find c [] = None"
| "str_find c (x # xs) = (if x = c then Some 0 else map_option Suc (str_find c xs))"

text \<open>\<open>find\<close> into an \<open>int\<close>: \<open>npos\<close> becomes -1. A position beyond the end throws (None).\<close>

definition find_pos :: "char \<Rightarrow> string \<Rightarrow> int" where
  "find_pos c s = (case str_find c s of None \<Rightarrow> -1 | Some i \<Rightarrow> int i)"

definition str_replace :: "int \<Rightarrow> nat \<Rightarrow> string \<Rightarrow> string \<Rightarrow> string option" where
  "str_replace pos n r s =
     (if pos < 0 \<or> int (length s) < pos then None
      else Some (take (nat pos) s @ r @ drop (nat pos + n) s))"

definition str_from :: "int \<Rightarrow> string \<Rightarrow> string option" where
  "str_from pos s = (if pos < 0 \<or> int (length s) < pos then None else Some (drop (nat pos) s))"

definition getCurTimeWithYmdhms :: "string \<Rightarrow> string option" where
  "getCurTimeWithYmdhms now =
     (let pos = find_pos (CHR ''T'') now
      in Option.bind (str_replace pos 1 ''-'' now) (\<lambda>s1.
         Option.bind (str_replace (pos + 3) 0 '':'' s1) (\<lambda>s2. str_replace (pos + 6) 0 '':'' s2)))"

text \<open>\<open>substr(0, pos)\<close> with a negative \<open>pos\<close> is the whole string.\<close>

definition getCurTimeWithYmd :: "string \<Rightarrow> string" where
  "getCurTimeWithYmd now =
     (let pos = find_pos (CHR ''T'') now in if pos < 0 then now else take (nat pos) now)"

definition getCurTimeWithHms :: "string \<Rightarrow> string option" where
  "getCurTimeWithHms now =
     (let pos = find_pos (CHR ''T'') now
      in Option.bind (str_replace (pos + 3) 0 '':'' now) (\<lambda>s1.
         Option.bind (str_replace (pos + 6) 0 '':'' s1) (\<lambda>s2. str_from (pos + 1) s2)))"

section \<open>FileIo\<close>

text \<open>A stream writes to its file while it is open; writes to a closed or failed one vanish.\<close>

record fstream =
  fs_path :: string
  fs_open :: bool

record FileIo =
  path2file :: "(string \<times> fstream option) list"
  files :: "string \<Rightarrow> string"

definition open_app :: "(string \<Rightarrow> bool) \<Rightarrow> string \<Rightarrow> fstream" where
  "open_app openable path = \<lparr>fs_path = path, fs_open = openable path\<rparr>"

definition stream_out :: "fstream \<Rightarrow> string \<Rightarrow> FileIo \<Rightarrow> FileIo" where
  "stream_out f str io =
     (if fs_open f then io\<lparr>files := (files io)(fs_path f := files io (fs_path f) @ str)\<rparr> else io)"

definition getOutFileByPath :: "(string \<Rightarrow> bool) \<Rightarrow> string \<Rightarrow> FileIo \<Rightarrow> fstream \<times> FileIo" where
  "getOutFileByPath openable path io =
     (let f = open_app openable path in (f, io\<lparr>path2file := om_set path (Some f) (path2file io)\<rparr>))"

text \<open>\<open>closeFile\<close> called twice for a path dereferences the null pointer it left.\<close>

definition closeFile :: "string \<Rightarrow> FileIo \<Rightarrow> FileIo res" where
  "closeFile path io =
     (if 0 < om_count (path2file io) path then
        (case om_get (path2file io) path of
           Some (Some f) \<Rightarrow> Inr (io\<lparr>path2file := om_set path None (path2file io)\<rparr>)
         | _ \<Rightarrow> Inl NullDeref)
      else Inr io)"

definition writeToFile :: "(string \<Rightarrow> bool) \<Rightarrow> string \<Rightarrow> string \<Rightarrow> FileIo \<Rightarrow> FileIo" where
  "writeToFile openable path str io =
     (case om_get (path2file io) path of
        Some (Some f) \<Rightarrow> stream_out f str io
      | _ \<Rightarrow> (let f = open_app openable path
              in stream_out f str (io\<lparr>path2file := om_set path (Some f) (path2file io)\<rparr>)))"

text \<open>The destructor closes every stream that is left.\<close>

definition FileIo_dtor :: "FileIo \<Rightarrow> FileIo" where
  "FileIo_dtor io =
     io\<lparr>path2file := map (\<lambda>(path, f). (path, map_option (\<lambda>st. st\<lparr>fs_open := False\<rparr>) f)) (path2file io)\<rparr>"

section \<open>MyLog of the client\<close>

text \<open>
  \<^verbatim>\<open>smer/Log/src/Log.cpp\<close>: \<open>Init\<close> makes sure of the directory and hands Boost.Log the
  description of a file sink; lines are formatted and written by the library.
\<close>

record LogSink =
  sink_append :: bool
  sink_file :: string
  sink_rotation_size :: nat
  sink_rotation_at :: "nat \<times> nat \<times> nat"
  sink_auto_flush :: bool

record ClientLog =
  log_dirs :: "string list"
  log_sinks :: "LogSink list"
  log_attributes :: bool

definition MyLog_Init :: "string \<Rightarrow> ClientLog \<Rightarrow> ClientLog" where
  "MyLog_Init dir l =
     (let l1 = (if dir \<in> set (log_dirs l) then l else l\<lparr>log_dirs := dir # log_dirs l\<rparr>);
          pSink = \<lparr>sink_append = True, sink_file = dir @ ''/%Y%m%d.log'', sink_rotation_size = 10 * 1024 * 1024,
                   sink_rotation_at = (0, 0, 0), sink_auto_flush = True\<rparr>
      in l1\<lparr>log_sinks := log_sinks l1 @ [pSink], log_attributes := True\<rparr>)"

section \<open>MyLog\<close>

definition log_line :: "string \<Rightarrow> string \<Rightarrow> string \<Rightarrow> string option" where
  "log_line level now str =
     map_option (\<lambda>t. ''[ '' @ t @ level @ ''] '' @ str @ [CHR 0x0A]) (getCurTimeWithHms now)"

definition putLog :: "string \<Rightarrow> string conc_queue \<Rightarrow> string conc_queue" where
  "putLog str logs = cq_push str logs"

definition put_level :: "string \<Rightarrow> string \<Rightarrow> string \<Rightarrow> string conc_queue \<Rightarrow> string conc_queue option" where
  "put_level level now str logs = map_option (\<lambda>l. putLog l logs) (log_line level now str)"

definition putErrLog :: "string \<Rightarrow> string \<Rightarrow> string conc_queue \<Rightarrow> string conc_queue option" where
  "putErrLog = put_level '' -ERROR- : ''"

definition putDebugLog :: "string \<Rightarrow> string \<Rightarrow> string conc_queue \<Rightarrow> string conc_queue option" where
  "putDebugLog = put_level '' -DEBUG- : ''"

definition putInfoLog :: "string \<Rightarrow> string \<Rightarrow> string conc_queue \<Rightarrow> string conc_queue option" where
  "putInfoLog = put_level '' -INFO- : ''"

definition putWarningLog :: "string \<Rightarrow> string \<Rightarrow> string conc_queue \<Rightarrow> string conc_queue option" where
  "putWarningLog = put_level '' -WARNING- : ''"

text \<open>
  The loop of \<open>run\<close> over the lines it finds; each pass looks at the clock (the first
  component of an element is the time of that pass).
\<close>

definition LOG_PATH :: string where
  "LOG_PATH = ''../log/''"

definition log_file :: "string \<Rightarrow> string" where
  "log_file now = LOG_PATH @ getCurTimeWithYmd now @ ''.log''"

fun log_run :: "(string \<Rightarrow> bool) \<Rightarrow> (string \<times> string) list \<Rightarrow> FileIo \<Rightarrow> FileIo" where
  "log_run openable [] io = io"
| "log_run openable ((now, log) # q) io =
     log_run openable q (writeToFile openable (log_file now) log io)"

section \<open>Times\<close>

lemma str_find_append: "c \<notin> set a \<Longrightarrow> str_find c (a @ c # b) = Some (length a)"
  by (induction a) auto

section \<open>What is written\<close>

text \<open>Every stream of the table is open on the path it is filed under, or was closed.\<close>

definition fileio_ok :: "(string \<Rightarrow> bool) \<Rightarrow> FileIo \<Rightarrow> bool" where
  "fileio_ok openable io \<longleftrightarrow> om_ok (path2file io) \<and>
     (\<forall>path f. om_get (path2file io) path = Some (Some f) \<longrightarrow> f = open_app openable path)"

lemma stream_out_table [simp]: "path2file (stream_out f str io) = path2file io"
  by (simp add: stream_out_def)

lemma fileio_ok_set:
  "fileio_ok openable io \<Longrightarrow>
   fileio_ok openable (io\<lparr>path2file := om_set path (Some (open_app openable path)) (path2file io)\<rparr>)"
  by (simp add: fileio_ok_def om.ok_set om.get_set)

lemma fileio_ok_close:
  "fileio_ok openable io \<Longrightarrow> closeFile path io = Inr io' \<Longrightarrow> fileio_ok openable io' \<and> files io' = files io"
  by (auto simp: closeFile_def fileio_ok_def om.ok_set om.get_set split: if_splits option.splits)

lemma fileio_ok_stream [simp]: "fileio_ok openable (stream_out f str io) = fileio_ok openable io"
  by (simp add: fileio_ok_def)

lemma writeToFile_ok:
  assumes "fileio_ok openable io"
  shows "fileio_ok openable (writeToFile openable path str io)"
  using assms by (simp add: writeToFile_def Let_def fileio_ok_set split: option.split)

lemma writeToFile_files:
  assumes "fileio_ok openable io" and "openable path"
  shows "files (writeToFile openable path str io) = (files io)(path := files io path @ str)"
proof -
  have "\<exists>io1. files io1 = files io \<and>
          writeToFile openable path str io = stream_out (open_app openable path) str io1"
  proof (cases "\<exists>f. om_get (path2file io) path = Some (Some f)")
    case True
    with assms(1) show ?thesis
      by (auto simp: writeToFile_def fileio_ok_def intro: exI [of _ io])
  next
    case False
    then have "writeToFile openable path str io = stream_out (open_app openable path) str
        (io\<lparr>path2file := om_set path (Some (open_app openable path)) (path2file io)\<rparr>)"
      by (auto simp: writeToFile_def Let_def split: option.split)
    then show ?thesis by (auto intro: exI [where x = "io\<lparr>path2file := _\<rparr>"])
  qed
  then show ?thesis using assms(2) by (auto simp: stream_out_def open_app_def)
qed

section \<open>Properties\<close>

text \<open>From a time in ISO form the three formatters make \<open>HH:MM:SS\<close>, the date, and
  \<open>date-HH:MM:SS\<close>.\<close>

lemma time_formats:
  assumes "CHR ''T'' \<notin> set ymd"
  shows "getCurTimeWithHms (ymd @ CHR ''T'' # [h1, h2, m1, m2, s1, s2]) =
           Some [h1, h2, CHR '':'', m1, m2, CHR '':'', s1, s2] \<and>
         getCurTimeWithYmd (ymd @ CHR ''T'' # [h1, h2, m1, m2, s1, s2]) = ymd \<and>
         getCurTimeWithYmdhms (ymd @ CHR ''T'' # [h1, h2, m1, m2, s1, s2]) =
           Some (ymd @ [CHR ''-'', h1, h2, CHR '':'', m1, m2, CHR '':'', s1, s2])"
  using assms
  by (simp add: getCurTimeWithHms_def getCurTimeWithYmd_def getCurTimeWithYmdhms_def find_pos_def
      str_find_append str_replace_def str_from_def Let_def nat_add_distrib)

text \<open>C40: The logger loses nothing: after it has written a sequence of lines, the file of each day
  holds what it held before followed by exactly that day's lines, in order.\<close>

theorem log_run_files:
  assumes "fileio_ok openable io" and "\<forall>(now, log) \<in> set q. openable (log_file now)"
  shows "files (log_run openable q io) path =
           files io path @ concat (map snd (filter (\<lambda>(now, log). log_file now = path) q))"
  using assms
proof (induction q arbitrary: io)
  case Nil
  then show ?case by simp
next
  case (Cons x q)
  obtain now log where x: "x = (now, log)" by force
  from Cons.IH [OF writeToFile_ok [OF Cons.prems(1)], of "log_file now" log] Cons.prems x
  show ?case by (auto simp: writeToFile_files)
qed

theorem log_run_files_witness:
  "files (log_run (\<lambda>_. True) [(''20200131T235901'', ''a''), (''20200131T235902'', ''b'')]
     \<lparr>path2file = [], files = (\<lambda>_. [])\<rparr>) ''../log/20200131.log'' = ''ab''"
proof -
  have "fileio_ok (\<lambda>_. True) \<lparr>path2file = [], files = (\<lambda>_. [])\<rparr>"
    by (simp add: fileio_ok_def om_ok_def om_get_def)
  from log_run_files [OF this, of "[(''20200131T235901'', ''a''), (''20200131T235902'', ''b'')]"
      "''../log/20200131.log''"]
  show ?thesis
    by (simp add: log_file_def LOG_PATH_def getCurTimeWithYmd_def find_pos_def Let_def)
qed

end
