(* ===== verification/Spec2Isabelle.thy ===== *)
theory Spec2Isabelle
  imports TornCommands FailedStart SoundClients ListMonitor ConRedis Terminal LogFile
begin

text \<open>
  A verification development for \<^verbatim>\<open>ifellsofuckinggood\<close>, a chat and game system in C++:
  a client for the terminal and a server, built from one tree (\<^verbatim>\<open>src/smer\<close>) by the
  preprocessor symbols \<^verbatim>\<open>CLIENT_COMPARE\<close> and \<^verbatim>\<open>SERVER_COMPARE\<close>.

  \<^bold>\<open>The program.\<close> The client runs four threads (\<^verbatim>\<open>tests/clientTest.cpp\<close>, \<^verbatim>\<open>clientInit\<close>):
  the game loop reads keys, runs the actor, handles received messages and system messages;
  the talk thread (\<open>IOManger::run\<close>) prints, and reads a typed line, which \<open>Util\<close> turns into a
  \<open>TransObj\<close>; the sender (\<open>Client::run\<close>) writes objects to the socket, the receiver
  (\<open>Client::recvMsg\<close>) reads them. They share the queues of \<open>SeqToBin\<close>, \<open>IOManger\<close>, the
  player and the list of pending friend requests. The server
  (\<^verbatim>\<open>tests/serverTest.cpp\<close>, \<^verbatim>\<open>serverInit\<close>) runs an epoll loop, which gives each received
  object to \<open>MsgHandler\<close>; its handlers queue lambdas in the \<open>ThreadPool\<close>; the workers run
  them against the MySQL pool (users) and Redis (sessions, through \<open>ComManger\<close>) and push
  replies, which the sender writes to the sockets.

  \<^bold>\<open>Theories.\<close> Each follows the order of its source; definitions have the source's names.

  \<^item> \<^verbatim>\<open>Prelude\<close>: words, undefined behaviours (\<open>ub\<close>), results (\<open>res\<close>: a sum with the
    undefined behaviour on the left), writes into arrays; the locale \<open>weighted\<close>, for work that
    lowers a weight. \<^verbatim>\<open>CLib\<close>: C strings, \<open>snprintf\<close>, \<open>atoi\<close>, \<open>to_string\<close>.
    \<^verbatim>\<open>StdMap\<close>: \<open>std::map\<close> as an ordered association list, with the locale \<open>std_map\<close>
    interpreted on it and on the maps that stand for \<open>unordered_map\<close>.
  \<^item> \<^verbatim>\<open>MyEnum\<close> (\<^verbatim>\<open>SmerSystem/inc/MyEnum.h\<close>), \<^verbatim>\<open>SeqAbleObj\<close> and \<^verbatim>\<open>SeqToBin\<close>
    (\<^verbatim>\<open>Seqeue\<close>), \<^verbatim>\<open>WireFormat\<close>: the message object, its constructors and setters, its 84
    bytes and \<open>transBuff2Obj\<close>. Shown: the round trips of credentials and of the bytes (all but
    the length, which a receiver never gets: \<open>length_guards_dead\<close>), and that no sequence of
    operations changes the size of the array.
  \<^item> \<^verbatim>\<open>ConcQueue\<close>, \<^verbatim>\<open>ConcList\<close> with \<^verbatim>\<open>ListMonitor\<close>, \<^verbatim>\<open>ThreadPool\<close> (\<^verbatim>\<open>Util/inc\<close>): each under
    its lock, and as transition systems of all threads with their condition variables.
    Shown: first in first out under every interleaving, no lost wake-up (but the one that the
    list's \<open>erase\<close> loses), progress and order of the pool, and that shutting it down ends with
    every task started. The
    locale \<open>mailbox\<close> is the contract of a queue, interpreted on the queue and the list;
    \<open>weighted\<close> is interpreted on the pool and, in \<^verbatim>\<open>ServerLive\<close>, on the server.
  \<^item> \<^verbatim>\<open>Player\<close>: identity, friends, data file. \<^verbatim>\<open>ClientState\<close>: the state of the client and
    \<open>IOManger\<close>. \<^verbatim>\<open>InputUtil\<close> (\<^verbatim>\<open>Util/src/Util.cpp\<close>): the command line with its table and
    nine handlers. \<^verbatim>\<open>MsgTable\<close> and \<^verbatim>\<open>HandleMsgClient\<close> (\<^verbatim>\<open>HandleMsg.cpp\<close>, client),
    \<^verbatim>\<open>SysManger\<close>, \<^verbatim>\<open>GameLoop\<close> (\<^verbatim>\<open>Game\<close>, \<^verbatim>\<open>Input\<close>, \<^verbatim>\<open>Actor\<close>, \<^verbatim>\<open>Command\<close>,
    \<^verbatim>\<open>IOMange\<close>). Shown: which messages a line produces and when, exactly when a handler is
    undefined, what \<open>addFriend\<close> does on every branch, the data file's round trip, the pace of
    the game. \<^verbatim>\<open>Terminal\<close>: the settings and descriptors of the terminal that
    \<open>ReadKey::scanKeyBoard\<close> and \<open>IOManger::handleTalk\<close> change. Shown: the settings are put
    back, and the descriptors run out.
  \<^item> \<^verbatim>\<open>MysqlPool\<close>, \<^verbatim>\<open>RedisPool\<close>, \<^verbatim>\<open>ConRedis\<close>: pools of connections, statements and
    commands as text cut to the buffer, replies. Shown: the pool's counter is right and below
    its maximum. \<^verbatim>\<open>ComManger\<close>: the session registry over Redis. Its operations simulate an
    abstract registry (\<open>session_add\<close>, \<open>session_remove\<close>) on documented Redis behaviour
    (\<open>redis_documented\<close>, shown satisfiable by \<open>mini_redis\<close>); the locale \<open>session_registry\<close>
    is the contract, interpreted on \<open>ComManger\<close>'s functions.
  \<^item> \<^verbatim>\<open>HandleMsgServer\<close> (\<^verbatim>\<open>HandleMsg.cpp\<close>, server): handlers and the lambdas they queue
    (\<open>ServerTask\<close>, \<open>run_task\<close>), each a function from a state to a state and an end. Shown:
    what login, registration and acceptance decide, and who gets the answer.
  \<^item> \<^verbatim>\<open>ChatService\<close>: what these tasks promise together. \<open>chat\<close> is an abstract service with
    accounts (by the key under which the database compares names) and sessions; \<open>db_documented\<close>
    states what the statements do to the table of users (shown satisfiable by \<open>mini_mysql\<close>).
    Shown: run one after the other the tasks implement the service (locale \<open>chat_provider\<close>,
    interpreted on \<open>run_task\<close>), so a registered user can log in with the password and only
    with it, and a session stands for a login. When the calls of several tasks interleave,
    \<^verbatim>\<open>ServerRaces\<close> shows what is lost, and \<^verbatim>\<open>AuthSessions\<close> what is not.
  \<^item> \<^verbatim>\<open>TaskSteps\<close>: the same lambdas as programs (\<open>prog\<close>), trees of their critical sections:
    taking a connection, the statement, returning the connection, writing a Redis command
    into the client's buffer, sending it, pushing a reply. \<open>task_steps_agree\<close> ties the two
    models of a lambda together: run alone a program is its lambda. Shown: it is at most ten
    calls long in any surroundings.
  \<^item> \<^verbatim>\<open>Zepoll\<close> (\<^verbatim>\<open>Server/inc/Zepoll.h\<close>): the event loop. \<^verbatim>\<open>NetClient\<close> (\<^verbatim>\<open>Client\<close>): sender
    and receiver. \<^verbatim>\<open>LogFile\<close> (\<^verbatim>\<open>Log\<close>, \<^verbatim>\<open>ZTime.h\<close>, \<^verbatim>\<open>FileIO.h\<close>): the loggers.
  \<^item> \<^verbatim>\<open>ClientSystem\<close> and \<^verbatim>\<open>ServerSystem\<close>: the two processes as step relations over their
    threads (\<open>client_step\<close>, \<open>server_step\<close>), with invariants by rule induction over the
    reachable states. In the client a step is what a thread does between two blocking points;
    in the server it is an event, a move of a worker, one call of a task, or one object sent.
    Shown: safety of both processes, order and number of the messages they send, the account of
    the server's connections. \<^verbatim>\<open>ServerRaces\<close>: what the
    interleaving of calls permits: two registrations with one id, a session visible before its
    socket is recorded, a Redis command sent in another's place. \<^verbatim>\<open>TornCommands\<close>: a command
    mixed of two others puts a user online who never logged in. \<^verbatim>\<open>ServerLive\<close>: without new
    events the server comes to rest, with the queued tasks taken and the replies sent.
    \<^verbatim>\<open>ServerMain\<close>: \<open>main\<close> and \<open>serverInit\<close>, which start it. Shown: a good start gives a
    reachable state. \<^verbatim>\<open>FailedStart\<close>: after a failed one the server turns messages into tasks
    and answers nobody.
    \<^verbatim>\<open>ServerServes\<close>: the server of \<open>main\<close> over a database and a Redis that answer
    (\<open>db_answers\<close>, \<open>redis_answers\<close>) and sound messages (\<open>good_task\<close>). Shown: as long as no
    writings into the command buffer have overlapped, no worker comes to an undefined call under
    any interleaving, so every task is taken and ends; the predicate
    \<open>safe\<close> on programs carries the proof. \<^verbatim>\<open>Sessions\<close>: no worker ever removes a session.
    \<^verbatim>\<open>AuthSessions\<close>: under every interleaving without such an overlap the registry only holds
    sessions of users who gave the password; the predicate \<open>allowed\<close> says of a program that it writes a session
    only after it has read the account, whatever accounts were added before, and the invariant
    \<open>auth_inv\<close> that the shared command buffer holds a command some task may give.
  \<^item> \<^verbatim>\<open>Network\<close>: both processes over their connections, one packet for each \<^verbatim>\<open>recv\<close>;
    \<^verbatim>\<open>Segments\<close>: the streams to the server cut into pieces. Shown: whatever clients send
    becomes the tasks it stands for (\<open>owed_task\<close>), in order of arrival, as long as every packet
    is cut for itself and behind its object, and what the server sends is received. \<^verbatim>\<open>SoundClients\<close>: when the users type lines
    without quotes, backslashes and percent signs, all these tasks are sound (\<open>good_task\<close>),
    which is what \<^verbatim>\<open>ServerServes\<close> relies on.
  \<^item> This theory: runs through several components, from a typed line to the client that is
    logged in.

  \<^bold>\<open>Sizes.\<close> An object is 84 bytes (five 32-bit words and 64 characters), name and password
  take 24 and 40 of the characters; a client's packet and a receive buffer have 512 bytes; a
  statement is cut to 99 characters, a Redis command likewise; a player has at most 3000
  friends. Integers are words of 32 bits, so wrap-around is the code's. Nothing runs on fuel:
  loops follow the input they consume (packets, events, lines, readings of the clock), the
  pools' and the threads' endless loops are steps of relations, \<open>pool_weight\<close> bounds the work
  of a pool that gets no more tasks, \<open>calls_le\<close> the calls of a task (ten), and
  \<open>server_weight\<close> the work of a server without new events: 24 steps for each task and worker,
  two for each wake-up, one for each reply.

  \<^bold>\<open>Parameters.\<close> Code outside \<^verbatim>\<open>src\<close> is an argument: \<open>boost::split\<close> (with its documented
  result, \<open>boost_split_ok\<close>), Boost's archive (\<open>archive_ok\<close>), the MySQL connector and the
  database (record \<open>mysql\<close>), hiredis and the Redis server (record \<open>redis\<close>), what system calls
  return (events, received chunks, accepted descriptors, the clock, keys and typed words, the
  answer of the file system to an open, the descriptors of the terminal), and the contents of
  uninitialised memory.

  \<^bold>\<open>Not modelled.\<close> \<^verbatim>\<open>Singleton.h\<close>, whose one instance is a field of the process's state;
  \<open>select\<close> in \<^verbatim>\<open>ReadKey.cpp\<close>, whose outcome is whether a key is read, an argument; the destructor
  of \<open>IOLoop\<close>, \<open>serverEnd\<close> and \<open>clientEnd\<close>, which come after loops that do not end; the flag
  \<open>O_NONBLOCK\<close> of the listening socket; the formatting and writing of lines inside Boost.Log; the text of
  log lines, except in \<^verbatim>\<open>LogFile\<close>; \<^verbatim>\<open>Util/inc/Util.cpp\<close>, an older copy of
  \<^verbatim>\<open>Util/src/Util.cpp\<close> that assigns raw pointers where the current interfaces take shared
  ones, does not compile and is named in no build file; declarations in headers whose bodies
  are elsewhere; the experiments in the two entry files that \<open>main\<close> does not call.
  Memory: a task owns its object, so the model copies it; only the queues, the pools, the
  Redis client and the stores are shared between threads.

  \<^bold>\<open>Races.\<close> Two places of the code share memory between threads without a lock, and there a
  step is not simply a whole statement or a whole line.
  The server's workers share one \<open>KGRedisClient\<close>. Its buffer \<open>cmdBuf\<close> is cleared
  (\<open>ExecuteCmd_clear\<close>), written (\<open>ExecuteCmd_write\<close>) and sent in three statements. A call of
  a task that overlaps another's clearing or writing (\<open>overlapped\<close>) finds or leaves, by
  \<open>client_for\<close> and \<open>client_left\<close>, any mixture, byte by byte, of an empty buffer and the buffers
  being written (\<open>mixed\<close>), and marks the run (\<open>torn\<close>); contexts that other workers hold are
  away from the pool meanwhile. What is shown of all runs holds of torn ones; \<open>server_serves\<close>
  and \<open>sessions_authentic\<close> are about runs that are not, and \<open>torn_command_opens_session\<close> shows
  why. In C++ such a race is undefined, and may do worse than mix bytes.
  The client's \<open>Player\<close> is used by the game loop and the talk thread. A state in which both are
  about to use it is a \<open>player_race\<close>; \<open>client_system_safe\<close>, \<open>streams_to_server\<close> and
  \<open>plain_clients_sound\<close> are about the runs that come through none (\<open>calm_reach\<close>).
  \<open>player_race_happens\<close> shows that the program has others, \<open>addFriend_overlap\<close> what two
  overlapping calls of \<open>addFriend\<close> do to the bound on friends even when each map insertion
  is whole.

  \<^bold>\<open>The network.\<close> \<open>outbox\<close> and \<open>sent\<close> hold what was handed to \<open>send\<close>, whatever its result
  (\<open>send_result\<close>): the code looks at it only to log it. A send on a connection that the peer
  has reset is \<open>Broken\<close>: it raises \<open>SIGPIPE\<close>, which the program does not ignore, and ends the
  process (\<open>server_run_broken\<close>); the step relations have no step for it, so what is shown of
  runs is about the time before. A send that takes only a part of a packet is not modelled.
  TCP may split and join packets. Towards the server \<^verbatim>\<open>Segments\<close> lets the pieces of each packet
  be cut anywhere behind its object, but no piece hold bytes of two packets (\<open>cut_from\<close>);
  \<open>header_piece_mixes\<close> shows what a cut inside an object does, \<open>spanning_piece_loses\<close> how a
  piece that spans two packets loses the second. Towards a client the server
  sends objects without padding, so one \<^verbatim>\<open>recv\<close> must give one object, and
  \<open>recv_loop_coalesced\<close> shows what the client loses when two come together.

  \<^bold>\<open>Limits.\<close> The refinement of \<^verbatim>\<open>ChatService\<close> is about tasks that do not overlap; of tasks that
  do, \<^verbatim>\<open>ServerServes\<close> shows that they end and \<^verbatim>\<open>AuthSessions\<close> what they leave in the registry,
  as long as no writings into the command buffer overlap, but not which answers their
  interleaving gives. The schema of the table \<open>userinfo\<close> is not in the repository: \<open>db_documented\<close>
  takes an id that the database counts upwards and columns that keep the values.
\<close>

section \<open>Across the components\<close>

text \<open>What a name must look like to pass the command line, the message and the registry.\<close>

definition good_name :: "string \<Rightarrow> bool" where
  "good_name name \<longleftrightarrow> clean name \<and> word_ok name \<and> length name < 24"

lemma fields_without_len:
  "getName (obj\<lparr>mlen := l\<rparr>) = getName obj" "getPasswd (obj\<lparr>mlen := l\<rparr>) = getPasswd obj"
  "wf_size (obj\<lparr>mlen := l\<rparr>) = wf_size obj"
  by (simp_all add: getName_def getPasswd_def wf_size_def)

text \<open>The credentials that the command line makes of such a name are requests that the chat service answers.\<close>

lemma sound_credentials:
  assumes "good_name name" and "CHR 0x27 \<notin> set name" "CHR 0x5C \<notin> set name"
    and "clean passwd" "length passwd < 40"
  shows "task_sound (LogTask ((credentials g t name passwd)\<lparr>mlen := 0\<rparr>) fd)"
    "CHR 0x27 \<notin> set passwd \<Longrightarrow> CHR 0x5C \<notin> set passwd \<Longrightarrow>
       length name + length (to_string (sint fd)) + length passwd \<le> 36 \<Longrightarrow>
       task_sound (RegTask ((credentials g t name passwd)\<lparr>mlen := 0\<rparr>) fd)"
proof -
  let ?c = "credentials g t name passwd"
  have n: "NUL \<notin> set name" "NUL \<notin> set passwd" "length name < 24" "word_ok name"
    using assms(1,4) by (auto simp: good_name_def clean_def)
  from getName_credentials [OF n(1,3), of g t passwd] getPasswd_credentials [OF n(2) assms(5) n(3), of g t]
  have "user_of (?c\<lparr>mlen := 0\<rparr>) = name" "passwd_of (?c\<lparr>mlen := 0\<rparr>) = passwd" "NUL \<in> set (drop 24 (msg ?c))"
    by (auto simp: getName_def getPasswd_def read_cstr_def user_of_def passwd_of_def NAME_MAX_LEN_def split: if_splits)
  with n assms(2,3) show "task_sound (LogTask (?c\<lparr>mlen := 0\<rparr>) fd)"
    "CHR 0x27 \<notin> set passwd \<Longrightarrow> CHR 0x5C \<notin> set passwd \<Longrightarrow>
       length name + length (to_string (sint fd)) + length passwd \<le> 36 \<Longrightarrow> task_sound (RegTask (?c\<lparr>mlen := 0\<rparr>) fd)"
    by (auto simp: sql_value_def)
qed

text \<open>The way back: the acceptance of a login, sent to the connection and received by the client.\<close>

lemma credentials_nul:
  assumes "length name < 24"
  shows "NUL \<in> set (msg (credentials g t name passwd))"
proof -
  have "replicate (24 - length name) NUL \<noteq> []" using assms by simp
  then have "NUL \<in> set (replicate (24 - length name) NUL)" by simp
  then show ?thesis by (simp add: credentials_def)
qed

lemma one_reply_received:
  assumes "wf_obj obj" and "msgType obj \<noteq> msgCode MSG_BUTTON" and "mlen obj = 0"
  shows "server_run [Taken] [obj] = ([(tfd obj, obj_bytes obj)], Waiting, [])"
    and "recvMsg [obj_bytes obj] q = Inr (pushRcvBuff obj q)"
proof -
  show "server_run [Taken] [obj] = ([(tfd obj, obj_bytes obj)], Waiting, [])"
    using assms by (intro server_run_one) (simp_all add: wf_obj_size)
  show "recvMsg [obj_bytes obj] q = Inr (pushRcvBuff obj q)"
  proof -
    have "obj\<lparr>mlen := 0\<rparr> = obj" using assms(3) by (cases obj) simp
    moreover have "recv_loop (map obj_bytes [obj]) (replicate 512 NUL) q =
        Inr (q\<lparr>rcvBuff := rcvBuff q @ map (\<lambda>obj. obj\<lparr>mlen := 0\<rparr>) [obj]\<rparr>)"
      using assms(1) by (intro recv_loop_objects) simp_all
    ultimately show ?thesis
      by (simp only: recvMsg_def RECV_SIZE_def list.map pushRcvBuff_def cq_push_def)
  qed
qed

lemma accepted_client:
  assumes "getName obj = Inr name" and "getPasswd obj = Inr passwd" and "NUL \<notin> set name" "NUL \<notin> set passwd"
    and "msgType obj = msgCode MSG_LOGIN_ACCEPT" and "rcvBuff (seq cw) = []"
  shows "\<exists>cw'. handleRecvMsg oa (cw\<lparr>seq := pushRcvBuff obj (seq cw)\<rparr>) = Inr cw' \<and>
     logined (player cw') \<and> pid (player cw') = tid obj \<and> pname (player cw') = name \<and>
     ppassword (player cw') = passwd \<and> friends (player cw') = friends (player cw)"
proof -
  define w where "w = cw\<lparr>seq := (seq cw)\<lparr>rcvBuff := []\<rparr>\<rparr>"
  have w: "player w = player cw" by (simp add: w_def)
  have run: "handleRecvMsg oa (cw\<lparr>seq := pushRcvBuff obj (seq cw)\<rparr>) = client_handle oa (Some obj) (-1) w"
    using assms(6) by (simp add: handleRecvMsg_def pushRcvBuff_def cq_push_def cq_tryAndPop_def w_def)
  have handle: "client_handle oa (Some obj) (-1) w = c_handleUserLogAcceptedMsg oa obj w"
    using assms(5) by (simp add: client_handle_def)
  define p where "p = setPlayerLogin (tid obj) name passwd (player cw)"
  have p: "logined p" "pid p = tid obj" "pname p = name" "ppassword p = passwd" "friends p = friends (player cw)"
    using assms(3,4) by (simp_all add: p_def player_defs cstr_id)
  have "\<exists>cw'. c_handleUserLogAcceptedMsg oa obj w = Inr cw' \<and> player cw' = p"
    unfolding c_handleUserLogAcceptedMsg_def assms(1,2) bind_res.simps w p_def [symmetric]
    by (cases "savePlayerData oa p (disk w)") (simp add: Let_def)
  with p show ?thesis unfolding run handle by auto
qed

text \<open>C1: Login from the keyboard to the registry and back. The line \<open>login@name|password\<close> typed at a client
  becomes one packet; its arrival at the server queues a login task for the connection; and that
  task, if the database holds this name with this password and Redis is up, answers with an
  acceptance to this connection and leaves the user online under the name and socket. The
  acceptance, sent and taken by the server's sender and read by the client's receiver, makes the client's
  player logged in under the id of the database and the typed name and password.\<close>

theorem login_end_to_end:
  assumes split: "boost_split_ok split" and g: "wf_size g"
    and name: "good_name name" and passwd: "clean passwd" "length passwd < 40"
    and conn: "connection_open fd lw" "\<not> stop (jobs lw)" and idle: "rcvBuff (seq cw) = []"
    and up: "redis_up ra view sw"
    and q: "ExecQuery m sql_login [ArgS name] (mpool sw) (mdb sw) = Inr (Ret (Some (row # rows)), p1, db1)"
    and st: "getString m row ''password'' = Some passwd" and i: "getInt m row ''userid'' = Some i"
  shows "\<exists>obj lw' sw'.
     getMsgFromInput split oa g (''login'' @ ''@'' @ name @ ''|'' @ passwd) cw = Inr (Some obj, cw) \<and>
     client_run [Taken] [obj] = ([packet obj], Waiting, []) \<and>
     dispatch_event (arrival fd obj) lw = Inr (Inr (0, lw')) \<and>
     tasks (jobs lw') = tasks (jobs lw) @ [LogTask (obj\<lparr>mlen := 0\<rparr>) fd] \<and>
     run_task m ra pw (LogTask (obj\<lparr>mlen := 0\<rparr>) fd) sw = Inr (Done 1, sw') \<and>
     sseq sw' = pushBuff (obj\<lparr>mlen := 0, tid := i, tfd := fd, msgType := msgCode MSG_LOGIN_ACCEPT\<rparr>) (sseq sw) \<and>
     view (rworld sw') = session_add i name fd (view (rworld sw)) \<and>
     (\<exists>reply cw'. sseq sw' = pushBuff reply (sseq sw) \<and>
        server_run [Taken] [reply] = ([(fd, obj_bytes reply)], Waiting, []) \<and>
        recvMsg [obj_bytes reply] (seq cw) = Inr (pushRcvBuff reply (seq cw)) \<and>
        handleRecvMsg oa (cw\<lparr>seq := pushRcvBuff reply (seq cw)\<rparr>) = Inr cw' \<and>
        logined (player cw') \<and> pid (player cw') = i \<and> pname (player cw') = name \<and>
        ppassword (player cw') = passwd)"
proof -
  let ?obj = "credentials g MSG_LOGIN name passwd"
  have n: "clean name" "word_ok name" "length name < 24" using name by (simp_all add: good_name_def)
  have nul: "NUL \<notin> set name" "NUL \<notin> set passwd" using n passwd by (auto simp: clean_def)
  have line: "getMsgFromInput split oa g (''login'' @ ''@'' @ name @ ''|'' @ passwd) cw = Inr (Some ?obj, cw)"
    using command_line [OF split _ clean_pair [OF n(1) passwd(1)], of "''login''" OfLogin]
      credentials_command(1) [OF split g n(1) passwd(1) n(3) passwd(2)]
    by (simp add: communicationCmdTable_def)
  have ty: "msgType ?obj = 6" by (simp add: credentials_def TransObj_all_def)
  have wf: "wf_size ?obj" using n(3) passwd(2) by (simp add: wf_size_def credentials_def max_len_defs)
  have fields: "getName (?obj\<lparr>mlen := 0\<rparr>) = Inr name" "getPasswd (?obj\<lparr>mlen := 0\<rparr>) = Inr passwd"
    using getName_credentials [OF nul(1) n(3)] getPasswd_credentials [OF nul(2) passwd(2) n(3)]
    by (simp_all add: fields_without_len)
  obtain p where "server_handle (Some (?obj\<lparr>mlen := 0\<rparr>)) fd (jobs lw) = Inr p"
    and p: "tasks p = tasks (jobs lw) @ [LogTask (?obj\<lparr>mlen := 0\<rparr>) fd]"
    using conn(2) by (simp add: server_handle_def ty s_handleUserLogMsg_def enqueue_def)
  from arrival_queues [OF wf conn(1) this(1)] obtain lw' where
    "dispatch_event (arrival fd ?obj) lw = Inr (Inr (0, lw'))" "jobs lw' = p" by blast
  moreover have "length name \<le> 61" "cstr passwd = passwd" using n(3) nul(2) by (simp_all add: cstr_id)
  then obtain sw' where "login_task m ra pw (?obj\<lparr>mlen := 0\<rparr>) fd sw = Inr (Done 1, sw')"
    "sseq sw' = pushBuff (?obj\<lparr>mlen := 0, tid := i, tfd := fd, msgType := msgCode MSG_LOGIN_ACCEPT\<rparr>) (sseq sw)"
    "view (rworld sw') = session_add i name fd (view (rworld sw))"
    using login_outcome [OF up _ fields(1) n(2) _ fields(2) q st _ i, of pw fd] by auto
  moreover
  let ?reply = "?obj\<lparr>mlen := 0, tid := i, tfd := fd, msgType := msgCode MSG_LOGIN_ACCEPT\<rparr>"
  have "wf_obj ?reply" using wf credentials_nul [OF n(3)] by (simp add: wf_obj_def wf_size_def)
  from one_reply_received(1) [OF this] one_reply_received(2) [OF this, of "seq cw"]
  have "server_run [Taken] [?reply] = ([(fd, obj_bytes ?reply)], Waiting, [])"
    "recvMsg [obj_bytes ?reply] (seq cw) = Inr (pushRcvBuff ?reply (seq cw))" by simp_all
  moreover have "getName ?reply = Inr name" "getPasswd ?reply = Inr passwd"
    using fields by (simp_all add: getName_def getPasswd_def)
  from accepted_client [OF this nul _ idle, of oa]
  have "\<exists>cw'. handleRecvMsg oa (cw\<lparr>seq := pushRcvBuff ?reply (seq cw)\<rparr>) = Inr cw' \<and>
     logined (player cw') \<and> pid (player cw') = i \<and> pname (player cw') = name \<and> ppassword (player cw') = passwd"
    by auto
  ultimately show ?thesis using line p ty by (intro exI [of _ ?obj]) fastforce
qed

lemma demo_login_query:
  "ExecQuery demo_mysql sql_login [ArgS ''bob''] (mpool (demo_server [(''secret'', 5)] mini_empty))
     (mdb (demo_server [(''secret'', 5)] mini_empty)) =
   Inr (Ret (Some [(''secret'', 5)]), mpool (demo_server [(''secret'', 5)] mini_empty), [(''secret'', 5)])"
  using demo_query [OF demo_sql(1), of "''bob''" "[(''secret'', 5)]" mini_empty] by simp

lemma demo_names: "good_name ''bob''" "clean ''secret''"
  using demo_word_ok by (simp_all add: good_name_def clean_def NUL_def)

theorem login_end_to_end_witness:
  "\<exists>obj sw'. getMsgFromInput split_ref demo_oa TransObj_default (''login'' @ ''@'' @ ''bob'' @ ''|'' @ ''secret'')
       fresh_client = Inr (Some obj, fresh_client) \<and>
     run_task demo_mysql mini_redis [] (LogTask (obj\<lparr>mlen := 0\<rparr>) 9)
       (demo_server [(''secret'', 5)] mini_empty) = Inr (Done 1, sw')"
proof -
  have "length ''secret'' < 40" "getString demo_mysql (''secret'', 5) ''password'' = Some ''secret''"
    "getInt demo_mysql (''secret'', 5) ''userid'' = Some 5"
    by (simp_all add: demo_mysql_def)
  from login_end_to_end [OF boost_split_ref wf_obj_size [OF wf_obj_default] demo_names this(1)
      one_connection_open _ demo_up [OF mini_registry] demo_login_query this(2,3),
      of fresh_client demo_oa "[]"]
  show ?thesis by (fastforce simp: fresh_client_def)
qed

lemma text_object:
  assumes "wf_size g" and "NUL \<notin> set str" "length str < 64"
  shows "wf_obj (snd (setMsg str (TransObj_all g i r t l f)))"
    and "read_cstr (msg (snd (setMsg str (TransObj_all g i r t l f)))) = Inr str"
proof -
  let ?o = "TransObj_all g i r t l f"
  have "setMsg str ?o = (True, ?o\<lparr>msg := str @ replicate (64 - length str) NUL\<rparr>)"
    using setMsg_fits [of ?o str] assms by (simp add: cstr_id)
  then show "wf_obj (snd (setMsg str ?o))" "read_cstr (msg (snd (setMsg str ?o))) = Inr str"
    using assms(2,3) by (simp_all add: wf_obj_def read_cstr_def max_len_defs cstr_append_zeros)
qed

text \<open>A friend request does not say who asks. Typed as \<open>add@name\<close> by a logged-in user, it
  carries the id -1 and the asked user's own name; the server forwards it to that user's
  registered socket with both unchanged, and the asked client announces a request from its
  own user.\<close>

lemma friend_request_anonymous:
  assumes split: "boost_split_ok split" and g: "wf_size g" and name: "good_name name"
    and login: "logined (player cw)" and up: "redis_up ra view sw"
    and q: "ExecQuery m sql_userid [ArgS name] (mpool sw) (mdb sw) = Inr (Ret (Some (row # rows)), p1, db1)"
    and i: "getInt m row ''userid'' = Some i"
    and reg: "session_online i (view (rworld sw))"
      "a_hash (view (rworld sw)) (to_string (sint i)) ''fd'' = Some (to_string (sint (fd::s32)))"
  shows "\<exists>obj sw' fwd cw2.
     getMsgFromInput split oa g (''add'' @ ''@'' @ name) cw = Inr (Some obj, cw) \<and> tid obj = -1 \<and>
     run_task m ra pw (AskFriendTask (obj\<lparr>mlen := 0\<rparr>) fd0) sw = Inr (Done 1, sw') \<and>
     sseq sw' = pushBuff fwd (sseq sw) \<and> tfd fwd = fd \<and> tid fwd = -1 \<and> read_cstr (msg fwd) = Inr name \<and>
     client_handle oa (Some fwd) (-1) asked = Inr cw2 \<and> player cw2 = player asked \<and>
     reqBuff cw2 = cl_push_back fwd (reqBuff asked) \<and>
     sysBuff (seq cw2) = sysBuff (seq asked) @
       [SystemMsgObj_text SYS_OUTPUT_MSG (''You have a request from '' @ name)]"
proof -
  have n: "clean name" "length name < 24" using name by (simp_all add: good_name_def)
  have nul: "NUL \<notin> set name" "CHR ''@'' \<notin> set name" using n by (auto simp: clean_def)
  define obj where "obj = snd (setMsg name (TransObj_all g (-1) (-1) (msgCode MSG_ASK_FOR_FRIEND)
      (of_nat MAX_TRANS_MSG_LEN) (-1)))"
  have content: "read_cstr (msg obj) = Inr name"
    unfolding obj_def using text_object(2) [OF g nul(1)] n(2) by simp
  have f: "tid obj = -1" "msgType obj = 10" by (simp_all add: obj_def TransObj_all_def)
  have line: "getMsgFromInput split oa g (''add'' @ ''@'' @ name) cw = Inr (Some obj, cw)"
    using command_line [OF split _ nul(2), of "''add''" OfAskForFriend] login n(2)
    by (simp add: communicationCmdTable_def handleInputOfAskForFriend_def tryLoginFirst_def
        NAME_MAX_LEN_def obj_def)
  have "read_cstr (msg (obj\<lparr>mlen := 0\<rparr>)) = Inr name" using content by simp
  from ask_outcome [OF up this q i reg, of pw fd0] obtain sw' where
    "run_task m ra pw (AskFriendTask (obj\<lparr>mlen := 0\<rparr>) fd0) sw = Inr (Done 1, sw')"
    "sseq sw' = pushBuff (obj\<lparr>mlen := 0, recverId := i, tfd := fd\<rparr>) (sseq sw)"
    by (auto simp: atoi_to_string)
  moreover have "\<exists>cw2. client_handle oa (Some (obj\<lparr>mlen := 0, recverId := i, tfd := fd\<rparr>)) (-1) asked = Inr cw2 \<and>
      player cw2 = player asked \<and> reqBuff cw2 = cl_push_back (obj\<lparr>mlen := 0, recverId := i, tfd := fd\<rparr>) (reqBuff asked) \<and>
      sysBuff (seq cw2) = sysBuff (seq asked) @
        [SystemMsgObj_text SYS_OUTPUT_MSG (''You have a request from '' @ name)]"
    using f(2) content by (simp add: client_handle_def c_handleAskForFriendMsg_def Let_def client_defs cq_push_def)
  moreover have "read_cstr (msg (obj\<lparr>mlen := 0, recverId := i, tfd := fd\<rparr>)) = Inr name" using content by simp
  ultimately show ?thesis using line f(1) by (intro exI [of _ obj]) fastforce
qed

lemma friend_request_anonymous_example:
  "\<exists>obj sw' fwd. getMsgFromInput split_ref demo_oa TransObj_default (''add'' @ ''@'' @ ''bob'') logged_client =
       Inr (Some obj, logged_client) \<and>
     run_task demo_mysql mini_redis [] (AskFriendTask (obj\<lparr>mlen := 0\<rparr>) 8)
       (demo_server [(''secret'', 5)] (session_add 5 ''bob'' 9 mini_empty)) = Inr (Done 1, sw') \<and>
     buff (sseq sw') = [fwd] \<and> tfd fwd = 9 \<and> tid fwd = -1"
proof -
  let ?A = "session_add 5 ''bob'' 9 mini_empty" and ?w = "demo_server [(''secret'', 5)] (session_add 5 ''bob'' 9 mini_empty)"
  have q: "ExecQuery demo_mysql sql_userid [ArgS ''bob''] (mpool ?w) (mdb ?w) =
      Inr (Ret (Some [(''secret'', 5)]), mpool ?w, [(''secret'', 5)])"
    using demo_query [OF demo_sql(2), of "''bob''" "[(''secret'', 5)]" ?A] by simp
  have up: "redis_up mini_redis (\<lambda>A. A) ?w" by (intro demo_up registry_ok_add mini_registry)
  have h: "logined (player logged_client)" "getInt demo_mysql (''secret'', 5) ''userid'' = Some 5"
    "session_online 5 (rworld ?w)"
    by (simp_all add: logged_client_def demo_mysql_def)
  have fd: "a_hash (rworld ?w) (to_string (sint (5::s32))) ''fd'' = Some (to_string (sint (9::s32)))"
    using session_add_lookup(2) [of 5 "''bob''" 9 mini_empty] by simp
  from friend_request_anonymous [OF boost_split_ref wf_obj_size [OF wf_obj_default] demo_names(1) h(1)
      up q h(2,3) fd, of demo_oa "[]" 8 fresh_client]
  show ?thesis by (auto simp: pushBuff_def cq_push_def)
qed

text \<open>The other half: the asked user accepts the request.\<close>

lemma accept_command:
  assumes split: "boost_split_ok split" and inv: "cl_inv (reqBuff w)" "player_ok (player w)" and login: "logined (player w)"
    and req: "elems (reqBuff w) ! n = reqObj" "n < length (elems (reqBuff w))" "sint (idx :: s32) = int n"
    and name: "read_cstr (msg reqObj) = Inr name" and new: "om_get (friends (player w)) name \<noteq> Some None"
    and room: "length (friends (player w)) < MAX_FRIENDS_NUM"
  shows "\<exists>acc w'. getMsgFromInput split oa g (''ar'' @ ''@'' @ to_string (sint idx)) w = Inr (Some acc, w') \<and>
     msgType acc = msgCode MSG_ASK_FOR_FRIEND_ACCEPT \<and> tid acc = pid (player w) \<and> recverId acc = tid reqObj \<and>
     live_friends (player w') = (live_friends (player w))(name \<mapsto> tid reqObj)"
proof -
  have "CHR ''@'' \<notin> set (to_string (sint idx))" using set_to_string by (force simp: is_digit_def)
  with command_line [OF split _ this, of "''ar''" OfAccRequest]
  have line: "getMsgFromInput split oa g (''ar'' @ ''@'' @ to_string (sint idx)) w =
      handleInputOfAccRequest oa g (to_string (sint idx)) w"
    by (simp add: communicationCmdTable_def)
  have idx: "containsReqIdx (int n) w" "cl_getOneRequest (int n) (reqBuff w) = Inr (Some reqObj)"
    using inv(1) req by (simp_all add: containsReqIdx_def cl_getSize_def cl_inv_def cl_getOneRequest_exact)
  let ?t = "''Your command of accept the request have been send'' @ '' '' @ nl"
  obtain b p d where add: "addFriend oa name (tid reqObj) (player (put_text ?t w)) (disk (put_text ?t w)) = Inr (b, p, d)"
    using new addFriend_null [of oa name "tid reqObj" "player w" "disk w"]
    by (cases "addFriend oa name (tid reqObj) (player w) (disk w)") (auto simp: put_text_def)
  have "live_friends p = (live_friends (player w))(name \<mapsto> tid reqObj)"
    using addFriend_live [OF _ add] inv(2) room by (simp add: put_text_def)
  moreover have "sint (atoi (to_string (sint idx))) = int n" unfolding atoi_to_string using req(3) .
  ultimately show ?thesis unfolding line
    using idx login name add by (simp add: handleInputOfAccRequest_def tryLoginFirst_def Let_def TransObj_all_def)
qed

lemma accept_offline:
  assumes "redis_up ra view w" and "\<not> session_online (recverId obj) (view (rworld w))"
  shows "\<exists>w'. run_task m ra pw (AcceptFriendTask obj) w = Inr (Done (-1), w') \<and> sseq w' = sseq w"
  using s_com_online [OF assms(1), of pw "recverId obj"] assms(2) by (auto simp: accept_task_def)

text \<open>C23: A friendship is never made. A logged-in user types \<open>add@name\<close>; the request reaches the
  asked user, with the id -1 and the asked user's own name instead of the sender's. The asked
  user accepts it by its number: the acceptance is addressed to the id -1, and the asked user is
  recorded as a friend of themselves under that id. The server finds no session of -1 and drops
  the acceptance, so the user who asked is never told.\<close>

theorem friendship_never_made:
  assumes split: "boost_split_ok split" and g: "wf_size g" and name: "good_name name"
    and login: "logined (player cw)" and up: "redis_up ra view sw"
    and q: "ExecQuery m sql_userid [ArgS name] (mpool sw) (mdb sw) = Inr (Ret (Some (row # rows)), p1, db1)"
    and i: "getInt m row ''userid'' = Some i"
    and reg: "session_online i (view (rworld sw))"
      "a_hash (view (rworld sw)) (to_string (sint i)) ''fd'' = Some (to_string (sint (fd::s32)))"
    and asked: "client_ok asked" "logined (player asked)" "om_get (friends (player asked)) name \<noteq> Some None"
      "length (friends (player asked)) < MAX_FRIENDS_NUM"
    and idx: "sint (idx :: s32) = int (length (elems (reqBuff asked)))"
    and later: "redis_up ra view sw2" "\<not> session_online (-1) (view (rworld sw2))"
  shows "\<exists>obj sw' fwd cw2 acc cw3 sw3.
     getMsgFromInput split oa g (''add'' @ ''@'' @ name) cw = Inr (Some obj, cw) \<and>
     run_task m ra pw (AskFriendTask (obj\<lparr>mlen := 0\<rparr>) fd0) sw = Inr (Done 1, sw') \<and>
     sseq sw' = pushBuff fwd (sseq sw) \<and> tfd fwd = fd \<and> tid fwd = -1 \<and> read_cstr (msg fwd) = Inr name \<and>
     client_handle oa (Some fwd) (-1) asked = Inr cw2 \<and>
     getMsgFromInput split oa g (''ar'' @ ''@'' @ to_string (sint idx)) cw2 = Inr (Some acc, cw3) \<and>
     recverId acc = -1 \<and> live_friends (player cw3) = (live_friends (player asked))(name \<mapsto> -1) \<and>
     run_task m ra pw (AcceptFriendTask (acc\<lparr>mlen := 0\<rparr>)) sw2 = Inr (Done (-1), sw3) \<and> sseq sw3 = sseq sw2"
proof -
  from friend_request_anonymous [OF split g name login up q i reg, of oa pw fd0 asked]
  obtain obj sw' fwd cw2 where ask:
    "getMsgFromInput split oa g (''add'' @ ''@'' @ name) cw = Inr (Some obj, cw)"
    "run_task m ra pw (AskFriendTask (obj\<lparr>mlen := 0\<rparr>) fd0) sw = Inr (Done 1, sw')"
    "sseq sw' = pushBuff fwd (sseq sw)" "tfd fwd = fd" "tid fwd = -1" "read_cstr (msg fwd) = Inr name"
    "client_handle oa (Some fwd) (-1) asked = Inr cw2" "player cw2 = player asked"
    "reqBuff cw2 = cl_push_back fwd (reqBuff asked)"
    by blast
  have req: "elems (reqBuff cw2) ! length (elems (reqBuff asked)) = fwd"
    "length (elems (reqBuff asked)) < length (elems (reqBuff cw2))"
    by (simp_all add: ask(9) cl_push_back_def)
  have inv: "cl_inv (reqBuff cw2)" "player_ok (player cw2)"
    using asked(1) by (simp_all add: client_ok_def ask(8,9) cl_inv_push)
  from accept_command [OF split inv _ req idx ask(6), of oa g] asked ask(5,8) obtain acc cw3 where
    "getMsgFromInput split oa g (''ar'' @ ''@'' @ to_string (sint idx)) cw2 = Inr (Some acc, cw3)"
    "recverId acc = -1" "live_friends (player cw3) = (live_friends (player asked))(name \<mapsto> -1)"
    by auto
  moreover from this(2) accept_offline [OF later(1), of "acc\<lparr>mlen := 0\<rparr>" m pw] later(2)
  obtain sw3 where "run_task m ra pw (AcceptFriendTask (acc\<lparr>mlen := 0\<rparr>)) sw2 = Inr (Done (-1), sw3)"
    "sseq sw3 = sseq sw2" by auto
  ultimately show ?thesis using ask(1-7) by blast
qed

theorem friendship_never_made_witness:
  "\<exists>fwd cw2 acc cw3 sw3. tid fwd = -1 \<and> client_handle demo_oa (Some fwd) (-1) logged_client = Inr cw2 \<and>
     getMsgFromInput split_ref demo_oa TransObj_default (''ar'' @ ''@'' @ ''0'') cw2 = Inr (Some acc, cw3) \<and>
     live_friends (player cw3) ''bob'' = Some (-1) \<and>
     run_task demo_mysql mini_redis [] (AcceptFriendTask (acc\<lparr>mlen := 0\<rparr>))
       (demo_server [] (session_add 5 ''bob'' 9 mini_empty)) = Inr (Done (-1), sw3) \<and> buff (sseq sw3) = []"
proof -
  let ?A = "session_add 5 ''bob'' 9 mini_empty" and ?w = "demo_server [(''secret'', 5)] (session_add 5 ''bob'' 9 mini_empty)"
  have q: "ExecQuery demo_mysql sql_userid [ArgS ''bob''] (mpool ?w) (mdb ?w) =
      Inr (Ret (Some [(''secret'', 5)]), mpool ?w, [(''secret'', 5)])"
    using demo_query [OF demo_sql(2), of "''bob''" "[(''secret'', 5)]" ?A] by simp
  have up: "redis_up mini_redis (\<lambda>A. A) (demo_server db ?A)" for db by (intro demo_up registry_ok_add mini_registry)
  have h: "logined (player logged_client)" "getInt demo_mysql (''secret'', 5) ''userid'' = Some 5"
    "session_online 5 (rworld ?w)"
    by (simp_all add: logged_client_def demo_mysql_def)
  have fd: "a_hash (rworld ?w) (to_string (sint (5::s32))) ''fd'' = Some (to_string (sint (9::s32)))"
    using session_add_lookup(2) [of 5 "''bob''" 9 mini_empty] by simp
  have c: "om_get (friends (player logged_client)) ''bob'' \<noteq> Some None"
    "length (friends (player logged_client)) < MAX_FRIENDS_NUM" "sint (0 :: s32) = int (length (elems (reqBuff logged_client)))"
    by (simp_all add: logged_client_def fresh_client_def demo_player_def om_get_def MAX_FRIENDS_NUM_def cl_new_def)
  have "to_string (sint (-1 :: s32)) \<noteq> to_string (sint (5 :: s32))" unfolding to_string_s32_inj by simp
  then have off: "\<not> session_online (-1) (rworld (demo_server [] ?A))"
    by (simp add: session_online_def session_add_def Let_def mini_empty_def)
  have "to_string (sint (0 :: s32)) = ''0''" by (simp add: to_string_def digits.simps digit_char_def char_of_def bit_0)
  with friendship_never_made [OF boost_split_ref wf_obj_size [OF wf_obj_default] demo_names(1) h(1)
      up q h(2,3) fd fresh_client_ok(2) h(1) c up [of "[]"] off, of demo_oa "[]" 8]
  show ?thesis by (fastforce simp: demo_server_def)
qed

text \<open>C24: A talk line never reaches a peer's socket. Whatever a logged-in user types without an
  \<open>@\<close>, the message is addressed to user 1 and names socket 1; the server either drops it or
  forwards it unchanged, so that its sender thread hands it to a \<^verbatim>\<open>send\<close> on its own descriptor 1,
  whatever that gives.\<close>

theorem talk_goes_to_descriptor_1:
  assumes split: "boost_split_ok split" and g: "wf_size g"
    and line: "CHR ''@'' \<notin> set str" "NUL \<notin> set str" "length str < 64"
    and login: "logined (player cw)" and up: "redis_up ra view sw"
  shows "\<exists>obj sw'. getMsgFromInput split oa g str cw = Inr (Some obj, cw) \<and>
     run_task m ra pw (SendMsgTask (obj\<lparr>mlen := 0\<rparr>)) sw = Inr (Done 0, sw') \<and>
     sseq sw' = (if session_online 1 (view (rworld sw)) then pushBuff (obj\<lparr>mlen := 0\<rparr>) (sseq sw) else sseq sw) \<and>
     (\<forall>x. server_run [x] [obj\<lparr>mlen := 0\<rparr>] =
        ([(1, obj_bytes (obj\<lparr>mlen := 0\<rparr>))], if x = Broken then Killed else Waiting, []))"
proof -
  define obj where "obj = snd (setMsg str (TransObj_all g 1 1 (msgCode MSG_TALK) 1 1))"
  have "splitStr split str ''@'' = [str]"
    using line(1) by (simp add: splitStr_def boost_split_unique [OF split] split_char_no_sep)
  then have typed: "getMsgFromInput split oa g str cw = Inr (Some obj, cw)"
    using login by (simp add: getMsgFromInput_def tryLoginFirst_def obj_def)
  have wf: "wf_size (obj\<lparr>mlen := 0\<rparr>)"
    unfolding obj_def fields_without_len using text_object(1) [OF g line(2,3)] by (rule wf_obj_size)
  have f: "recverId obj = 1" "tfd obj = 1" "msgType obj = 1"
    by (simp_all add: obj_def TransObj_all_def)
  from send_outcome [OF up, of pw "obj\<lparr>mlen := 0\<rparr>"] f(1) obtain sw' where
    "run_task m ra pw (SendMsgTask (obj\<lparr>mlen := 0\<rparr>)) sw = Inr (Done 0, sw')"
    "sseq sw' = (if session_online 1 (view (rworld sw)) then pushBuff (obj\<lparr>mlen := 0\<rparr>) (sseq sw) else sseq sw)"
    by auto
  moreover have "server_run [x] [obj\<lparr>mlen := 0\<rparr>] =
      ([(1, obj_bytes (obj\<lparr>mlen := 0\<rparr>))], if x = Broken then Killed else Waiting, [])" for x
    using f(2,3) wf by (cases x) (simp_all add: server_packet)
  ultimately show ?thesis using typed by blast
qed

theorem talk_goes_to_descriptor_1_witness:
  "\<exists>obj. getMsgFromInput split_ref demo_oa TransObj_default ''hello'' logged_client =
       Inr (Some obj, logged_client) \<and>
     server_run [Refused] [obj\<lparr>mlen := 0\<rparr>] = ([(1, obj_bytes (obj\<lparr>mlen := 0\<rparr>))], Waiting, [])"
proof -
  have h: "logined (player logged_client)" "CHR ''@'' \<notin> set ''hello''" "NUL \<notin> set ''hello''"
    "length ''hello'' < 64"
    by (simp_all add: logged_client_def NUL_def)
  from talk_goes_to_descriptor_1 [OF boost_split_ref wf_obj_size [OF wf_obj_default] h(2-4,1)
      demo_up [OF mini_registry], of demo_oa demo_mysql "[]"]
  obtain obj where "getMsgFromInput split_ref demo_oa TransObj_default ''hello'' logged_client = Inr (Some obj, logged_client)"
    "server_run [Refused] [obj\<lparr>mlen := 0\<rparr>] =
       ([(1, obj_bytes (obj\<lparr>mlen := 0\<rparr>))], if Refused = Broken then Killed else Waiting, [])" by blast
  then show ?thesis by (intro exI [of _ obj] conjI) simp_all
qed

text \<open>The server's length guards are dead code: a received object always has length 0, whatever
  the bytes say, so a registration is never dropped for its length and the check of the
  login task never finds one too long.\<close>

lemma length_guards_dead:
  assumes "transBuff2Obj (Some b) TransObj_default = Inr (ok, obj)"
  shows "s_handleUserRegMsg obj fd p = enqueue (RegTask obj fd) p \<and>
         \<not> MAX_TRANS_MSG_LEN < unat (mlen obj)"
proof -
  have "mlen obj = 0"
    using assms by (auto simp: transBuff2Obj_def Let_def setter_defs TransObj_default_def split_beta)
  then show ?thesis by (simp add: s_handleUserRegMsg_def)
qed

lemma length_guards_dead_example:
  "s_handleUserRegMsg TransObj_default 9 (pool_init 2) = enqueue (RegTask TransObj_default 9) (pool_init 2)"
proof -
  have "transBuff2Obj (Some (obj_bytes (TransObj_default\<lparr>mlen := 99\<rparr>) @ [])) TransObj_default =
      Inr (True, TransObj_default)"
    using transBuff2Obj_default [of "TransObj_default\<lparr>mlen := 99\<rparr>" "[]"]
    by (simp add: TransObj_default_def wf_size_def max_len_defs)
  from length_guards_dead [OF this] show ?thesis by blast
qed

end
